(* ===== verification/Prelude.thy ===== *)
theory Prelude
  imports Main "HOL-Library.Word"
begin

text \<open>
  Shared vocabulary of the development: the machine integers of the sources, the
  \<open>Result\<close> type with the early return of the \<open>?\<close> operator and of
  \<open>ensure!\<close>, the same with a mutable receiver (\<open>&mut self\<close>), the checked and
  saturating integer operations of the Rust standard library, and \<open>BTreeMap\<close> as a
  list sorted by key. The collections \<open>result_simps\<close> and \<open>btree_simps\<close> hold
  the facts the component proofs rewrite with.
\<close>

named_theorems result_simps \<open>success and failure of the result combinators\<close>
named_theorems error_simps \<open>when a computation fails\<close>
named_theorems btree_simps \<open>lookup and key set of the ordered maps\<close>

section \<open>Machine integers\<close>

type_synonym u8 = "8 word"
type_synonym u16 = "16 word"
type_synonym u32 = "32 word"
type_synonym u64 = "64 word"
type_synonym u128 = "128 word"

text \<open>
  \<open>HashValue\<close> and \<open>AccountAddress\<close> are arrays of 32 bytes; they are read as
  big-endian words, whose order is the derived lexicographic order of the arrays.
\<close>

type_synonym hash_value = "256 word"
type_synonym account_address = "256 word"

text \<open>
  The release profile has \<open>overflow-checks = true\<close>, so \<open>+\<close> and \<open>-\<close>
  panic where the checked operations return \<open>None\<close>.
\<close>

definition checked_add :: "'w::len word \<Rightarrow> 'w word \<Rightarrow> 'w word option" where
  "checked_add a b = (if unat a + unat b < 2 ^ LENGTH('w) then Some (a + b) else None)"

definition checked_sub :: "'w::len word \<Rightarrow> 'w word \<Rightarrow> 'w word option" where
  "checked_sub a b = (if b \<le> a then Some (a - b) else None)"

definition checked_mul :: "'w::len word \<Rightarrow> 'w word \<Rightarrow> 'w word option" where
  "checked_mul a b = (if unat a * unat b < 2 ^ LENGTH('w) then Some (a * b) else None)"

definition saturating_add :: "'w::len word \<Rightarrow> 'w word \<Rightarrow> 'w word" where
  "saturating_add a b = (case checked_add a b of Some c \<Rightarrow> c | None \<Rightarrow> - 1)"

lemma checked_add_Some_iff:
  "checked_add a b = Some c \<longleftrightarrow> unat a + unat b < 2 ^ LENGTH('w) \<and> c = a + b"
  for a b c :: "'w::len word"
  by (auto simp: checked_add_def)

lemma checked_add_Some_unat: "checked_add a b = Some c \<Longrightarrow> unat c = unat a + unat b"
  by (auto simp: checked_add_def unat_word_ariths split: if_splits)

lemma checked_mul_Some_unat: "checked_mul a b = Some c \<Longrightarrow> unat c = unat a * unat b"
  by (auto simp: checked_mul_def unat_word_ariths split: if_splits)

lemma checked_add_one_Some: "checked_add r 1 = Some s \<Longrightarrow> r < s"
  by (auto simp: word_less_nat_alt dest: checked_add_Some_unat split: if_splits)

lemma checked_add_one_le: "checked_add r 1 = Some s \<Longrightarrow> r < t \<longleftrightarrow> s \<le> t"
  by (auto simp: word_less_nat_alt word_le_nat_alt dest: checked_add_Some_unat)

lemma unat_of_nat_less: "n < 2 ^ LENGTH('w) \<Longrightarrow> unat (word_of_nat n :: 'w::len word) = n"
  by (simp add: unat_of_nat)

section \<open>Results\<close>

text \<open>
  \<open>Result<T, E>\<close> is the sum \<open>'e + 'a\<close>, with \<open>Inl\<close> for \<open>Err\<close>.
  \<open>rbind m f\<close> is \<open>let x = m?; f(x)\<close>.
\<close>

definition rbind :: "'e + 'a \<Rightarrow> ('a \<Rightarrow> 'e + 'b) \<Rightarrow> 'e + 'b" where
  "rbind m f = (case m of Inl e \<Rightarrow> Inl e | Inr a \<Rightarrow> f a)"

definition ensure :: "bool \<Rightarrow> 'e \<Rightarrow> 'e + unit" where
  "ensure b e = (if b then Inr () else Inl e)"

definition map_err :: "('e \<Rightarrow> 'f) \<Rightarrow> 'e + 'a \<Rightarrow> 'f + 'a" where
  "map_err g m = (case m of Inl e \<Rightarrow> Inl (g e) | Inr a \<Rightarrow> Inr a)"

definition ok_or :: "'e \<Rightarrow> 'a option \<Rightarrow> 'e + 'a" where
  "ok_or e m = (case m of None \<Rightarrow> Inl e | Some a \<Rightarrow> Inr a)"

lemma rbind_Inl [simp]: "rbind (Inl e) f = Inl e"
  by (simp add: rbind_def)

lemma rbind_Inr [simp]: "rbind (Inr a) f = f a"
  by (simp add: rbind_def)

lemma rbind_eq_Inr_iff [result_simps]:
  "rbind m f = Inr b \<longleftrightarrow> (\<exists>a. m = Inr a \<and> f a = Inr b)"
  by (simp add: rbind_def split: sum.split)

lemma rbind_cong [fundef_cong]:
  "m = m' \<Longrightarrow> (\<And>a. m' = Inr a \<Longrightarrow> f a = f' a) \<Longrightarrow> rbind m f = rbind m' f'"
  by (simp add: rbind_def split: sum.split)

lemma ensure_simps [simp]: "ensure True e = Inr ()" "ensure False e = Inl e"
  by (simp_all add: ensure_def)

lemma ensure_eq_Inr_iff [result_simps]: "ensure b e = Inr u \<longleftrightarrow> b"
  by (simp add: ensure_def)

lemma ensure_eq_Inl_iff [result_simps]: "ensure b e = Inl f \<longleftrightarrow> \<not> b \<and> f = e"
  by (auto simp add: ensure_def)

lemma map_err_simps [simp]: "map_err g (Inl e) = Inl (g e)" "map_err g (Inr a) = Inr a"
  by (simp_all add: map_err_def)

lemma map_err_eq_Inr_iff [result_simps]: "map_err g m = Inr a \<longleftrightarrow> m = Inr a"
  by (simp add: map_err_def split: sum.split)

lemma ok_or_simps [simp]: "ok_or e None = Inl e" "ok_or e (Some a) = Inr a"
  by (simp_all add: ok_or_def)

lemma ok_or_eq_Inr_iff [result_simps]: "ok_or e m = Inr a \<longleftrightarrow> m = Some a"
  by (simp add: ok_or_def split: option.split)

section \<open>Results with a mutable receiver\<close>

text \<open>
  A method that takes \<open>&mut self\<close> and returns a \<open>Result\<close> maps a state to the result
  and the state it leaves behind, which an early return does not roll back.
\<close>

type_synonym ('s, 'e, 'a) method_result = "'s \<Rightarrow> ('e + 'a) \<times> 's"

definition sbind ::
    "('s, 'e, 'a) method_result \<Rightarrow> ('a \<Rightarrow> ('s, 'e, 'b) method_result) \<Rightarrow> ('s, 'e, 'b) method_result"
  where "sbind m f = (\<lambda>s. case m s of (Inl e, s') \<Rightarrow> (Inl e, s') | (Inr a, s') \<Rightarrow> f a s')"

definition sreturn :: "'a \<Rightarrow> ('s, 'e, 'a) method_result" where
  "sreturn a = (\<lambda>s. (Inr a, s))"

text \<open>A \<open>&self\<close> method inside a \<open>&mut self\<close> one: it reads the state only.\<close>

definition sread :: "('s \<Rightarrow> 'e + 'a) \<Rightarrow> ('s, 'e, 'a) method_result" where
  "sread f = (\<lambda>s. (f s, s))"

definition slift :: "'e + 'a \<Rightarrow> ('s, 'e, 'a) method_result" where
  "slift m = (\<lambda>s. (m, s))"

lemma rbind_eq_Inl_iff [error_simps]: "rbind m f = Inl e \<longleftrightarrow> m = Inl e \<or> (\<exists>a. m = Inr a \<and> f a = Inl e)"
  by (cases m) simp_all

lemma map_err_eq_Inl_iff [error_simps]: "map_err f m = Inl e \<longleftrightarrow> (\<exists>e'. m = Inl e' \<and> e = f e')"
  by (cases m) auto

lemma ok_or_eq_Inl_iff [error_simps]: "ok_or e m = Inl e' \<longleftrightarrow> m = None \<and> e' = e"
  by (cases m) auto

lemma sbind_eq_Inr_iff [result_simps]:
  "sbind m f s = (Inr b, t) \<longleftrightarrow> (\<exists>a s'. m s = (Inr a, s') \<and> f a s' = (Inr b, t))"
  by (auto simp: sbind_def split: prod.splits sum.splits)

lemma sreturn_eq_iff [result_simps]: "sreturn a s = (r, t) \<longleftrightarrow> r = Inr a \<and> t = s"
  by (auto simp: sreturn_def)

lemma sread_eq_iff [result_simps]: "sread f s = (r, t) \<longleftrightarrow> f s = r \<and> t = s"
  by (auto simp: sread_def)

lemma slift_eq_iff [result_simps]: "slift m s = (r, t) \<longleftrightarrow> m = r \<and> t = s"
  by (auto simp: slift_def)

text \<open>
  What every step of a method keeps, the method keeps, whether it succeeds or returns early.
\<close>

definition keeps :: "('s \<Rightarrow> 's \<Rightarrow> bool) \<Rightarrow> ('s, 'e, 'a) method_result \<Rightarrow> bool" where
  "keeps R m \<longleftrightarrow> (\<forall>s. R s (snd (m s)))"

lemma keepsD: "keeps R m \<Longrightarrow> m s = (r, t) \<Longrightarrow> R s t"
  by (metis keeps_def snd_conv)

lemma keeps_sbind:
  assumes "transp R" "keeps R m" "\<And>a. keeps R (f a)"
  shows "keeps R (sbind m f)"
  using assms by (auto simp: keeps_def sbind_def split: prod.splits sum.splits
      dest: transpD) (metis snd_conv transpE)+

lemma keeps_pure [simp]:
  assumes "reflp R"
  shows "keeps R (sreturn a)" "keeps R (sread g)" "keeps R (slift r)"
  using assms by (simp_all add: keeps_def sreturn_def sread_def slift_def reflpD)

section \<open>Ordered maps\<close>

text \<open>
  \<open>BTreeMap\<close>: a list of entries with strictly increasing keys, so that iteration is in
  key order. \<open>btree_get\<close> is \<open>get\<close>, \<open>btree_insert\<close> is \<open>insert\<close> (which
  replaces the value of a key that is present).
\<close>

type_synonym ('k, 'v) btree_map = "('k \<times> 'v) list"

definition btree_get :: "('k, 'v) btree_map \<Rightarrow> 'k \<Rightarrow> 'v option" where
  "btree_get m k = map_of m k"

fun btree_insert :: "'k::linorder \<Rightarrow> 'v \<Rightarrow> ('k, 'v) btree_map \<Rightarrow> ('k, 'v) btree_map" where
  "btree_insert k v [] = [(k, v)]"
| "btree_insert k v ((k', v') # m) =
     (if k < k' then (k, v) # (k', v') # m
      else if k = k' then (k, v) # m
      else (k', v') # btree_insert k v m)"

definition btree_remove :: "'k \<Rightarrow> ('k, 'v) btree_map \<Rightarrow> ('k, 'v) btree_map" where
  "btree_remove k m = filter (\<lambda>(k', _). k' \<noteq> k) m"

definition btree_wf :: "('k::linorder, 'v) btree_map \<Rightarrow> bool" where
  "btree_wf m \<longleftrightarrow> sorted_wrt (<) (map fst m)"

lemma btree_wf_Nil [simp]: "btree_wf []"
  by (simp add: btree_wf_def)

lemma btree_wf_Cons: "btree_wf ((k, v) # m) \<longleftrightarrow> btree_wf m \<and> (\<forall>k' \<in> fst ` set m. k < k')"
  by (auto simp: btree_wf_def)

lemma btree_keys_insert [btree_simps]:
  "fst ` set (btree_insert k v m) = insert k (fst ` set m)"
  by (induction k v m rule: btree_insert.induct) auto

lemma btree_wf_insert [btree_simps]: "btree_wf m \<Longrightarrow> btree_wf (btree_insert k v m)"
  by (induction k v m rule: btree_insert.induct)
    (auto simp: btree_wf_Cons btree_keys_insert)

lemma btree_get_insert [btree_simps]:
  "btree_get (btree_insert k v m) k' = (if k' = k then Some v else btree_get m k')"
  by (induction k v m rule: btree_insert.induct) (auto simp: btree_get_def)

lemma btree_get_None_iff [btree_simps]: "btree_get m k = None \<longleftrightarrow> k \<notin> fst ` set m"
  by (simp add: btree_get_def map_of_eq_None_iff)

lemma btree_wf_filter [btree_simps]: "btree_wf m \<Longrightarrow> btree_wf (filter P m)"
  by (induction m) (auto simp: btree_wf_Cons)

lemma btree_wf_remove [btree_simps]: "btree_wf m \<Longrightarrow> btree_wf (btree_remove k m)"
  by (simp add: btree_remove_def btree_wf_filter)

lemma btree_get_remove [btree_simps]:
  "btree_get (btree_remove k m) k' = (if k' = k then None else btree_get m k')"
  by (induction m) (auto simp: btree_get_def btree_remove_def)

lemma btree_wf_distinct: "btree_wf m \<Longrightarrow> distinct (map fst m)"
  by (simp add: btree_wf_def strict_sorted_iff)

lemma btree_get_eq_Some_iff: "btree_wf m \<Longrightarrow> btree_get m k = Some v \<longleftrightarrow> (k, v) \<in> set m"
  by (simp add: btree_get_def btree_wf_distinct)

end
