(* ===== verification/Secure_Storage.thy ===== *)
theory Secure_Storage
  imports Prelude
begin

text \<open>
  The key-value storage of \<open>secure/storage/src\<close>: \<open>kv_storage.rs\<close>, \<open>error.rs\<close>,
  \<open>in_memory.rs\<close>, \<open>on_disk.rs\<close>, \<open>namespaced.rs\<close> and the enumeration of
  \<open>storage.rs\<close>. A stored document has a type parameter. The input and output errors of
  the disk are a schedule that the storage carries along. The locale \<open>kv_store\<close> is what a
  client may rely on, interpreted on \<open>Storage\<close>.
\<close>

section \<open>Storage engines\<close>

datatype storage_error =
    EntropyError string
  | StorageInternalError string
  | KeyAlreadyExists string
  | KeyNotSet string
  | PermissionDenied
  | StorageSerializationError string
  | KeyVersionNotFound string string

record 'v get_response =
  gr_last_update :: u64
  gr_value :: 'v

record 'v in_memory_storage =
  ims_data :: "string \<rightharpoonup> 'v get_response"
  ims_time_service :: u64

definition in_memory_get :: "'v in_memory_storage \<Rightarrow> string \<Rightarrow> storage_error + 'v get_response" where
  "in_memory_get s key = ok_or (KeyNotSet key) (ims_data s key)"

definition in_memory_set ::
    "string \<Rightarrow> 'v \<Rightarrow> ('v in_memory_storage, storage_error, unit) method_result" where
  "in_memory_set key v s =
     (Inr (), s\<lparr>ims_data := (ims_data s)(key \<mapsto> \<lparr>gr_last_update = ims_time_service s, gr_value = v\<rparr>)\<rparr>)"

text \<open>
  A write to disk goes to a temporary file that then replaces the file. It can fail at each of
  the three calls; a rename that fails leaves the old file in place.
\<close>

datatype disk_fault = Create_fails | Write_fails | Rename_fails

datatype 'v disk_file =
    Unreadable
  | Malformed
  | Empty_file
  | Json_map "string \<rightharpoonup> 'v get_response"

record 'v on_disk_storage =
  ods_file :: "'v disk_file"
  ods_faults :: "disk_fault option list"
  ods_time_service :: u64

definition on_disk_read :: "'v on_disk_storage \<Rightarrow> storage_error + (string \<rightharpoonup> 'v get_response)" where
  "on_disk_read s =
     (case ods_file s of
        Unreadable \<Rightarrow> Inl (StorageInternalError ''unable to read'')
      | Malformed \<Rightarrow> Inl (StorageSerializationError ''unable to parse'')
      | Empty_file \<Rightarrow> Inr Map.empty
      | Json_map data \<Rightarrow> Inr data)"

definition next_fault :: "'v on_disk_storage \<Rightarrow> disk_fault option \<times> 'v on_disk_storage" where
  "next_fault s =
     (case ods_faults s of [] \<Rightarrow> (None, s) | f # fs \<Rightarrow> (f, s\<lparr>ods_faults := fs\<rparr>))"

definition on_disk_write ::
    "(string \<rightharpoonup> 'v get_response) \<Rightarrow> ('v on_disk_storage, storage_error, unit) method_result" where
  "on_disk_write data s =
     (case next_fault s of
        (None, s') \<Rightarrow> (Inr (), s'\<lparr>ods_file := Json_map data\<rparr>)
      | (Some Create_fails, s') \<Rightarrow> (Inl (StorageInternalError ''unable to create''), s')
      | (Some Write_fails, s') \<Rightarrow> (Inl (StorageInternalError ''unable to write''), s')
      | (Some Rename_fails, s') \<Rightarrow> (Inl (StorageInternalError ''unable to rename''), s'))"

definition on_disk_get :: "'v on_disk_storage \<Rightarrow> string \<Rightarrow> storage_error + 'v get_response" where
  "on_disk_get s key = rbind (on_disk_read s) (\<lambda>data. ok_or (KeyNotSet key) (data key))"

definition on_disk_set :: "string \<Rightarrow> 'v \<Rightarrow> ('v on_disk_storage, storage_error, unit) method_result" where
  "on_disk_set key v =
     sbind (sread on_disk_read) (\<lambda>data s.
     on_disk_write (data(key \<mapsto> \<lparr>gr_last_update = ods_time_service s, gr_value = v\<rparr>)) s)"

datatype 'v storage =
    InMemoryStorage "'v in_memory_storage"
  | NamespacedStorage string "'v storage"
  | OnDiskStorage "'v on_disk_storage"

definition NAMESPACE_SEPARATOR :: string where
  "NAMESPACE_SEPARATOR = ''/''"

definition namespaced :: "string \<Rightarrow> string \<Rightarrow> string" where
  "namespaced namespace name = namespace @ NAMESPACE_SEPARATOR @ name"

fun storage_available :: "'v storage \<Rightarrow> storage_error + unit" where
  "storage_available (InMemoryStorage _) = Inr ()"
| "storage_available (NamespacedStorage _ inner) = storage_available inner"
| "storage_available (OnDiskStorage _) = Inr ()"

fun storage_get :: "'v storage \<Rightarrow> string \<Rightarrow> storage_error + 'v get_response" where
  "storage_get (InMemoryStorage s) key = in_memory_get s key"
| "storage_get (NamespacedStorage namespace inner) key = storage_get inner (namespaced namespace key)"
| "storage_get (OnDiskStorage s) key = on_disk_get s key"

fun storage_set :: "string \<Rightarrow> 'v \<Rightarrow> ('v storage, storage_error, unit) method_result" where
  "storage_set key v (InMemoryStorage s) = map_prod id InMemoryStorage (in_memory_set key v s)"
| "storage_set key v (NamespacedStorage namespace inner) =
     map_prod id (NamespacedStorage namespace) (storage_set (namespaced namespace key) v inner)"
| "storage_set key v (OnDiskStorage s) = map_prod id OnDiskStorage (on_disk_set key v s)"

section \<open>What is stored\<close>

text \<open>The documents a storage holds, whether they can be read at the moment or not.\<close>

fun disk_contents :: "'v disk_file \<Rightarrow> string \<Rightarrow> 'v option" where
  "disk_contents (Json_map data) key = map_option gr_value (data key)"
| "disk_contents _ key = None"

fun contents :: "'v storage \<Rightarrow> string \<Rightarrow> 'v option" where
  "contents (InMemoryStorage s) key = map_option gr_value (ims_data s key)"
| "contents (NamespacedStorage namespace inner) key = contents inner (namespaced namespace key)"
| "contents (OnDiskStorage s) key = disk_contents (ods_file s) key"

text \<open>
  The contract of \<open>KVStorage\<close>: what is read is what is stored; a write that succeeds is
  stored, one that fails changes nothing, and neither touches another key.
\<close>

locale kv_store =
  fixes kv_get :: "'s \<Rightarrow> string \<Rightarrow> 'e + 'v get_response"
    and kv_set :: "string \<Rightarrow> 'v \<Rightarrow> ('s, 'e, unit) method_result"
    and kv_contents :: "'s \<Rightarrow> string \<Rightarrow> 'v option"
  assumes get_contents: "kv_get s k = Inr r \<Longrightarrow> kv_contents s k = Some (gr_value r)"
    and set_ok: "kv_set k v s = (Inr u, s') \<Longrightarrow> kv_contents s' k = Some v"
    and set_err: "kv_set k v s = (Inl e, s') \<Longrightarrow> kv_contents s' k' = kv_contents s k'"
    and set_other: "kv_set k v s = (r', s') \<Longrightarrow> k' \<noteq> k \<Longrightarrow> kv_contents s' k' = kv_contents s k'"
begin

lemma read_your_write:
  "kv_set k v s = (Inr u, s') \<Longrightarrow> kv_get s' k = Inr r \<Longrightarrow> gr_value r = v"
  using set_ok get_contents by fastforce

lemma read_other:
  "kv_set k v s = (r', s') \<Longrightarrow> k' \<noteq> k \<Longrightarrow> kv_get s' k' = Inr r \<Longrightarrow> kv_contents s k' = Some (gr_value r)"
  using set_other get_contents by fastforce

end

lemma namespaced_inj [simp]: "namespaced ns k = namespaced ns k' \<longleftrightarrow> k = k'"
  by (simp add: namespaced_def)

lemma storage_get_contents: "storage_get s k = Inr r \<Longrightarrow> contents s k = Some (gr_value r)"
  by (induction s arbitrary: k)
    (auto simp: in_memory_get_def on_disk_get_def on_disk_read_def result_simps split: disk_file.splits)

lemma on_disk_set_contents:
  assumes "on_disk_set k v s = (r, s')"
  shows "disk_contents (ods_file s') k' = (if r = Inr () \<and> k' = k then Some v else disk_contents (ods_file s) k')"
  using assms
  by (cases "ods_file s"; auto simp: on_disk_set_def sbind_def sread_def on_disk_read_def on_disk_write_def next_fault_def
      split: list.splits option.splits disk_fault.splits if_splits)

text \<open>The effect of a write, in one equation.\<close>

lemma storage_set_contents:
  "storage_set k v s = (r, s') \<Longrightarrow>
     contents s' k' = (if r = Inr () \<and> k' = k then Some v else contents s k')"
proof (induction s arbitrary: k k' s')
  case (InMemoryStorage s)
  then show ?case by (auto simp: in_memory_set_def)
next
  case (NamespacedStorage ns s)
  then obtain s1 where "storage_set (namespaced ns k) v s = (r, s1)" "s' = NamespacedStorage ns s1"
    by (auto simp: map_prod_def split: prod.splits)
  then show ?case using NamespacedStorage.IH [of "namespaced ns k" s1 "namespaced ns k'"] by simp
next
  case (OnDiskStorage s)
  then obtain s1 where "on_disk_set k v s = (r, s1)" "s' = OnDiskStorage s1"
    by (auto simp: map_prod_def split: prod.splits)
  then show ?case using on_disk_set_contents [of k v s r s1 k'] by simp
qed

interpretation store: kv_store storage_get storage_set contents
  by unfold_locales (auto dest: storage_get_contents simp: storage_set_contents)

lemma storage_set_not_exists: "fst (storage_set k v s) \<noteq> Inl (KeyAlreadyExists n)"
proof (induction s arbitrary: k)
  case (OnDiskStorage s)
  show ?case by (cases "ods_file s"; cases "ods_faults s")
    (auto simp: on_disk_set_def sbind_def sread_def on_disk_read_def on_disk_write_def next_fault_def
      split: option.splits disk_fault.splits)
qed (simp_all add: in_memory_set_def)

text \<open>A write that succeeds can be read back at once.\<close>

lemma storage_set_get:
  "storage_set k v s = (Inr u, s') \<Longrightarrow> \<exists>r. storage_get s' k = Inr r \<and> gr_value r = v"
proof (induction s arbitrary: k s')
  case (InMemoryStorage s)
  then show ?case by (auto simp: in_memory_set_def in_memory_get_def ok_or_def)
next
  case (NamespacedStorage ns s)
  then show ?case by (auto simp: map_prod_def split: prod.splits)
next
  case (OnDiskStorage s)
  then show ?case
    by (auto simp: map_prod_def on_disk_set_def sbind_def sread_def on_disk_read_def on_disk_write_def next_fault_def
        on_disk_get_def ok_or_def split: prod.splits disk_file.splits list.splits option.splits disk_fault.splits)
qed

section \<open>Namespaces\<close>

lemma namespaced_disjoint:
  assumes "CHR ''/'' \<notin> set k" "CHR ''/'' \<notin> set k'" "namespaced ns k = namespaced ns' k'"
  shows "ns = ns' \<and> k = k'"
proof -
  have split: "takeWhile (\<lambda>c. c \<noteq> CHR ''/'') (rev (namespaced ns k)) = rev k \<and>
      dropWhile (\<lambda>c. c \<noteq> CHR ''/'') (rev (namespaced ns k)) = CHR ''/'' # rev ns"
    if "CHR ''/'' \<notin> set k" for ns k :: string
  proof -
    have no: "c \<in> set (rev k) \<Longrightarrow> c \<noteq> CHR ''/''" for c using that by auto
    have "rev (namespaced ns k) = rev k @ CHR ''/'' # rev ns" by (simp add: namespaced_def NAMESPACE_SEPARATOR_def)
    moreover have "takeWhile (\<lambda>c. c \<noteq> CHR ''/'') (rev k @ CHR ''/'' # rev ns) = rev k"
      using no by (subst takeWhile_append2) simp_all
    moreover have "dropWhile (\<lambda>c. c \<noteq> CHR ''/'') (rev k @ CHR ''/'' # rev ns) = CHR ''/'' # rev ns"
      using no by (subst dropWhile_append2) simp_all
    ultimately show ?thesis by simp
  qed
  have "rev k = rev k' \<and> CHR ''/'' # rev ns = CHR ''/'' # rev ns'"
    using split [OF assms(1), of ns] split [OF assms(2), of ns'] unfolding assms(3) by metis
  then show ?thesis by simp
qed

text \<open>C33. Two namespaces over one store do not interfere: a write in the one, successful or not, leaves
  every key of the other as it was, as long as the keys contain no separator. Within its own namespace
  a successful write is read back.\<close>

theorem namespaces_do_not_interfere:
  assumes "storage_set k v (NamespacedStorage ns s) = (r, NamespacedStorage ns s')"
    and "CHR ''/'' \<notin> set k" "CHR ''/'' \<notin> set k'" "ns' \<noteq> ns"
  shows "contents (NamespacedStorage ns' s') k' = contents (NamespacedStorage ns' s) k' \<and>
    (r = Inr () \<longrightarrow> (\<exists>g. storage_get (NamespacedStorage ns s') k = Inr g \<and> gr_value g = v))"
proof -
  have s: "storage_set (namespaced ns k) v s = (r, s')" using assms(1) by (auto simp: map_prod_def split: prod.splits)
  have "namespaced ns' k' \<noteq> namespaced ns k" using namespaced_disjoint [OF assms(3,2)] assms(4) by blast
  then show ?thesis using storage_set_contents [OF s] storage_set_get [of "namespaced ns k" v s "()" s'] s by auto
qed

theorem namespaces_do_not_interfere_witness:
  "contents (NamespacedStorage ''b'' (InMemoryStorage \<lparr>ims_data = [''a/k'' \<mapsto> \<lparr>gr_last_update = 0, gr_value = True\<rparr>], ims_time_service = 0\<rparr>)) ''k'' =
     contents (NamespacedStorage ''b'' (InMemoryStorage \<lparr>ims_data = Map.empty, ims_time_service = 0\<rparr>)) ''k'' \<and>
   (\<exists>g. storage_get (NamespacedStorage ''a'' (InMemoryStorage \<lparr>ims_data = [''a/k'' \<mapsto> \<lparr>gr_last_update = 0, gr_value = True\<rparr>],
        ims_time_service = 0\<rparr>)) ''k'' = Inr g \<and> gr_value g)"
proof -
  have "storage_set ''k'' True (NamespacedStorage ''a'' (InMemoryStorage \<lparr>ims_data = Map.empty, ims_time_service = 0\<rparr>)) =
      (Inr (), NamespacedStorage ''a'' (InMemoryStorage \<lparr>ims_data = [''a/k'' \<mapsto> \<lparr>gr_last_update = 0, gr_value = True\<rparr>], ims_time_service = 0\<rparr>))"
    by (simp add: in_memory_set_def namespaced_def NAMESPACE_SEPARATOR_def)
  from namespaces_do_not_interfere [OF this, of "''k''" "''b''"] show ?thesis by simp
qed

end
