(* ===== verification/Bitvec.thy ===== *)
theory Bitvec
  imports Prelude
begin

unbundle bit_operations_syntax

text \<open>
  The bit vector of \<open>crates/aptos-bitvec/src/lib.rs\<close>, which carries the signers of an
  aggregate signature: positions are stored most significant bit first, eight to a byte.
  \<open>bitvec_bit\<close> reads a position off the bytes; the operations are related to it, and the
  interface the signature aggregation uses is the locale \<open>position_set\<close>.
\<close>

section \<open>Definitions\<close>

definition BUCKET_SIZE :: nat where
  "BUCKET_SIZE = 8"

definition MAX_BUCKETS :: nat where
  "MAX_BUCKETS = 8192"

record bit_vec =
  bv_inner :: "u8 list"

definition bitvec_default :: bit_vec where
  "bitvec_default = \<lparr>bv_inner = []\<rparr>"

definition required_buckets :: "u16 \<Rightarrow> nat" where
  "required_buckets num_bits =
     (case checked_sub num_bits 1 of None \<Rightarrow> 0 | Some pos \<Rightarrow> unat pos div BUCKET_SIZE + 1)"

definition with_num_bits :: "u16 \<Rightarrow> bit_vec" where
  "with_num_bits num_bits = \<lparr>bv_inner = replicate (required_buckets num_bits) 0\<rparr>"

definition bitvec_set :: "bit_vec \<Rightarrow> u16 \<Rightarrow> bit_vec" where
  "bitvec_set bv pos =
     (let bucket = unat pos div BUCKET_SIZE;
          inner = (if length (bv_inner bv) \<le> bucket
                   then bv_inner bv @ replicate (bucket + 1 - length (bv_inner bv)) 0
                   else bv_inner bv);
          bucket_pos = unat pos - bucket * BUCKET_SIZE
      in bv\<lparr>bv_inner := inner[bucket := (inner ! bucket) OR drop_bit bucket_pos 0x80]\<rparr>)"

definition is_set :: "bit_vec \<Rightarrow> u16 \<Rightarrow> bool" where
  "is_set bv pos =
     (let bucket = unat pos div BUCKET_SIZE
      in if length (bv_inner bv) \<le> bucket then False
         else let bucket_pos = unat pos - bucket * BUCKET_SIZE
              in (bv_inner bv ! bucket) AND drop_bit bucket_pos 0x80 \<noteq> 0)"

definition all_zeros :: "bit_vec \<Rightarrow> bool" where
  "all_zeros bv = list_all (\<lambda>byte. byte = 0) (bv_inner bv)"

text \<open>\<open>u8::count_ones\<close> and \<open>u8::trailing_zeros\<close>.\<close>

definition u8_count_ones :: "u8 \<Rightarrow> nat" where
  "u8_count_ones b = length (filter (bit b) [0..<8])"

definition u8_trailing_zeros :: "u8 \<Rightarrow> nat" where
  "u8_trailing_zeros b = (case find (bit b) [0..<8] of Some n \<Rightarrow> n | None \<Rightarrow> 8)"

definition count_ones :: "bit_vec \<Rightarrow> nat" where
  "count_ones bv = sum_list (map u8_count_ones (bv_inner bv))"

definition last_set_bit :: "bit_vec \<Rightarrow> u16 option" where
  "last_set_bit bv =
     map_option
       (\<lambda>(i, byte). word_of_nat (8 * (length (bv_inner bv) - i) - u8_trailing_zeros byte - 1))
       (find (\<lambda>(_, byte). byte \<noteq> 0) (List.enumerate 0 (rev (bv_inner bv))))"

definition iter_ones :: "bit_vec \<Rightarrow> nat list" where
  "iter_ones bv = filter (\<lambda>idx. is_set bv (word_of_nat idx)) [0..<length (bv_inner bv) * BUCKET_SIZE]"

definition num_buckets :: "bit_vec \<Rightarrow> nat" where
  "num_buckets bv = length (bv_inner bv)"

definition bitvec_bitand :: "bit_vec \<Rightarrow> bit_vec \<Rightarrow> bit_vec" where
  "bitvec_bitand a b =
     (let len = min (length (bv_inner a)) (length (bv_inner b))
      in \<lparr>bv_inner = map (\<lambda>i. (bv_inner a ! i) AND (bv_inner b ! i)) [0..<len]\<rparr>)"

definition byte_or_zero :: "u8 list \<Rightarrow> nat \<Rightarrow> u8" where
  "byte_or_zero bytes i = (if i < length bytes then bytes ! i else 0)"

definition bitvec_bitor :: "bit_vec \<Rightarrow> bit_vec \<Rightarrow> bit_vec" where
  "bitvec_bitor a b =
     (let len = max (length (bv_inner a)) (length (bv_inner b))
      in \<lparr>bv_inner = map (\<lambda>i. byte_or_zero (bv_inner a) i OR byte_or_zero (bv_inner b) i) [0..<len]\<rparr>)"

text \<open>\<open>None\<close> is the failed assertion on the length.\<close>

definition bitvec_from_bytes :: "u8 list \<Rightarrow> bit_vec option" where
  "bitvec_from_bytes raw_bytes =
     (if length raw_bytes \<le> MAX_BUCKETS then Some \<lparr>bv_inner = raw_bytes\<rparr> else None)"

definition bitvec_into_bytes :: "bit_vec \<Rightarrow> u8 list" where
  "bitvec_into_bytes bv = bv_inner bv"

definition set_if :: "bit_vec \<Rightarrow> nat \<times> bool \<Rightarrow> bit_vec" where
  "set_if bv ib = (if snd ib then bitvec_set bv (word_of_nat (fst ib)) else bv)"

definition bitvec_from_bools :: "bool list \<Rightarrow> bit_vec option" where
  "bitvec_from_bools bits =
     (if length bits \<le> MAX_BUCKETS * BUCKET_SIZE
      then Some (foldl set_if (with_num_bits (word_of_nat (length bits))) (List.enumerate 0 bits))
      else None)"

text \<open>The two \<open>FromIterator\<close> implementations: of positions, and of booleans.\<close>

definition bitvec_from_iter :: "u8 list \<Rightarrow> bit_vec" where
  "bitvec_from_iter positions = foldl (\<lambda>bv pos. bitvec_set bv (ucast pos)) bitvec_default positions"

definition bitvec_from_iter_bools :: "bool list \<Rightarrow> bit_vec" where
  "bitvec_from_iter_bools bits = foldl set_if bitvec_default (List.enumerate 0 bits)"

definition bitvec_deserialize :: "u8 list \<Rightarrow> string + bit_vec" where
  "bitvec_deserialize v =
     (if length v > MAX_BUCKETS then Inl ''BitVec too long'' else Inr \<lparr>bv_inner = v\<rparr>)"

text \<open>The position a bit vector denotes, and the length every constructor keeps.\<close>

definition bitvec_bit :: "bit_vec \<Rightarrow> nat \<Rightarrow> bool" where
  "bitvec_bit bv i \<longleftrightarrow> i < 8 * length (bv_inner bv) \<and> bit (bv_inner bv ! (i div 8)) (7 - i mod 8)"

definition bitvec_positions :: "bit_vec \<Rightarrow> nat set" where
  "bitvec_positions bv = {i. bitvec_bit bv i}"

definition bitvec_wf :: "bit_vec \<Rightarrow> bool" where
  "bitvec_wf bv \<longleftrightarrow> length (bv_inner bv) \<le> MAX_BUCKETS"

section \<open>Bits of a bucket\<close>

lemma drop_bit_0x80: "k < 8 \<Longrightarrow> drop_bit k (0x80 :: u8) = 2 ^ (7 - k)"
proof -
  assume "k < 8"
  then have "k \<in> {0, 1, 2, 3, 4, 5, 6, 7}" by auto
  then show ?thesis by (elim insertE emptyE) simp_all
qed

lemma and_0x80_iff: "k < 8 \<Longrightarrow> (x :: u8) AND drop_bit k 0x80 \<noteq> 0 \<longleftrightarrow> bit x (7 - k)"
  by (simp add: drop_bit_0x80 and_exp_eq_0_iff_not_bit)

lemma bit_or_0x80_iff:
  "k < 8 \<Longrightarrow> bit ((x :: u8) OR drop_bit k 0x80) j \<longleftrightarrow> bit x j \<or> j = 7 - k"
  by (auto simp: drop_bit_0x80 bit_or_iff bit_exp_iff bit_simps)

lemma minus_times_div: "n - n div 8 * 8 = n mod (8 :: nat)"
  by (simp add: minus_div_mult_eq_mod)


lemma nat_pos_split: "i = j \<longleftrightarrow> i div 8 = j div 8 \<and> 7 - i mod 8 = 7 - j mod (8 :: nat)"
proof
  assume "i div 8 = j div 8 \<and> 7 - i mod 8 = 7 - j mod 8"
  moreover have "i mod 8 < 8" "j mod 8 < 8" by simp_all
  ultimately have "i div 8 = j div 8" "i mod 8 = j mod 8" by linarith+
  then show "i = j" by (metis div_mult_mod_eq)
qed simp

lemma u8_eq_0_iff: "(b :: u8) = 0 \<longleftrightarrow> (\<forall>j < 8. \<not> bit b j)"
  by (auto simp: bit_eq_iff intro: bit_eqI dest: bit_imp_le_length)

section \<open>Membership\<close>

lemma is_set_iff: "is_set bv pos \<longleftrightarrow> bitvec_bit bv (unat pos)"
proof -
  have "unat pos < 8 * length (bv_inner bv) \<longleftrightarrow> unat pos div 8 < length (bv_inner bv)"
    by (simp add: div_less_iff_less_mult mult.commute)
  then show ?thesis
    by (simp add: is_set_def bitvec_bit_def BUCKET_SIZE_def Let_def minus_times_div and_0x80_iff not_le)
qed

lemma bitvec_bit_bounded: "bitvec_bit bv i \<Longrightarrow> bitvec_wf bv \<Longrightarrow> i < 65536"
  by (simp add: bitvec_bit_def bitvec_wf_def MAX_BUCKETS_def)

lemma finite_bitvec_positions [simp]: "finite (bitvec_positions bv)"
  by (rule finite_subset [of _ "{..<8 * length (bv_inner bv)}"])
    (auto simp: bitvec_positions_def bitvec_bit_def)

lemma bitvec_positions_default [simp]: "bitvec_positions bitvec_default = {}"
  by (simp add: bitvec_positions_def bitvec_bit_def bitvec_default_def)

lemma bitvec_positions_with_num_bits [simp]: "bitvec_positions (with_num_bits n) = {}"
  by (auto simp: bitvec_positions_def bitvec_bit_def with_num_bits_def)

lemma bitvec_bit_bytes:
  "bitvec_bit \<lparr>bv_inner = bs\<rparr> i \<longleftrightarrow> bit (byte_or_zero bs (i div 8)) (7 - i mod 8)"
  by (auto simp: bitvec_bit_def byte_or_zero_def)

lemma bitvec_bit_alt:
  "bitvec_bit bv i \<longleftrightarrow> bit (byte_or_zero (bv_inner bv) (i div 8)) (7 - i mod 8)"
  by (auto simp: bitvec_bit_def byte_or_zero_def)

lemma byte_or_zero_append_zeros: "byte_or_zero (bs @ replicate n 0) i = byte_or_zero bs i"
  by (auto simp: byte_or_zero_def nth_append)

lemma byte_or_zero_update:
  "k < length bs \<Longrightarrow> byte_or_zero (bs[k := v]) i = (if i = k then v else byte_or_zero bs i)"
  by (auto simp: byte_or_zero_def)

lemma bitvec_bit_set: "bitvec_bit (bitvec_set bv pos) i \<longleftrightarrow> i = unat pos \<or> bitvec_bit bv i"
proof -
  define bucket where "bucket = unat pos div 8"
  define inner where "inner = (if length (bv_inner bv) \<le> bucket
    then bv_inner bv @ replicate (bucket + 1 - length (bv_inner bv)) 0 else bv_inner bv)"
  have len: "bucket < length inner" by (simp add: inner_def)
  have same: "byte_or_zero inner j = byte_or_zero (bv_inner bv) j" for j
    by (simp add: inner_def byte_or_zero_append_zeros)
  have "bitvec_bit (bitvec_set bv pos) i \<longleftrightarrow>
    bit (byte_or_zero (inner[bucket := inner ! bucket OR drop_bit (unat pos mod 8) 0x80]) (i div 8)) (7 - i mod 8)"
    by (simp add: bitvec_bit_alt bitvec_set_def Let_def BUCKET_SIZE_def inner_def bucket_def minus_times_div)
  also have "\<dots> \<longleftrightarrow> (i div 8 = bucket \<and> 7 - i mod 8 = 7 - unat pos mod 8) \<or>
    bit (byte_or_zero inner (i div 8)) (7 - i mod 8)"
    unfolding byte_or_zero_update [OF len]
    using len by (auto simp: bit_or_0x80_iff byte_or_zero_def [of inner bucket])
  also have "\<dots> \<longleftrightarrow> i = unat pos \<or> bitvec_bit bv i"
    by (simp only: same bitvec_bit_alt bucket_def nat_pos_split [of i "unat pos"])
  finally show ?thesis .
qed

lemma bitvec_positions_set: "bitvec_positions (bitvec_set bv pos) = insert (unat pos) (bitvec_positions bv)"
  by (auto simp: bitvec_positions_def bitvec_bit_set)

lemma required_buckets_bits: "8 * required_buckets n \<ge> unat n \<and> required_buckets n \<le> MAX_BUCKETS"
proof (cases "1 \<le> n")
  case True
  then have "unat (n - 1) = unat n - 1" "0 < unat n"
    by (simp_all add: unat_sub word_le_nat_alt)
  moreover have "unat n < 65536" using unsigned_less [of n] by simp
  ultimately show ?thesis using True
    by (simp add: required_buckets_def checked_sub_def BUCKET_SIZE_def MAX_BUCKETS_def) linarith
next
  case False
  then have "unat n = 0" by (simp add: word_le_nat_alt)
  then show ?thesis using False by (simp add: required_buckets_def checked_sub_def)
qed

lemma bitvec_wf_with_num_bits [simp]: "bitvec_wf (with_num_bits n)"
  using required_buckets_bits [of n] by (simp add: bitvec_wf_def with_num_bits_def)

lemma bitvec_wf_default [simp]: "bitvec_wf bitvec_default"
  by (simp add: bitvec_wf_def bitvec_default_def)

lemma bitvec_wf_set: "bitvec_wf bv \<Longrightarrow> bitvec_wf (bitvec_set bv pos)"
proof -
  assume "bitvec_wf bv"
  moreover have "unat pos < 65536" using unsigned_less [of pos] by simp
  then have "unat pos div 8 + 1 \<le> 8192" by linarith
  ultimately show ?thesis by (auto simp: bitvec_wf_def bitvec_set_def Let_def BUCKET_SIZE_def MAX_BUCKETS_def)
qed


section \<open>Enumeration and counting\<close>

lemma iter_ones_filter: "bitvec_wf bv \<Longrightarrow> iter_ones bv = filter (bitvec_bit bv) [0..<8 * length (bv_inner bv)]"
proof -
  assume "bitvec_wf bv"
  then have "unat (word_of_nat i :: u16) = i" if "i < 8 * length (bv_inner bv)" for i
    using that by (simp add: unat_of_nat bitvec_wf_def MAX_BUCKETS_def)
  then show ?thesis
    by (auto simp: iter_ones_def is_set_iff BUCKET_SIZE_def mult.commute intro!: filter_cong)
qed

lemma set_iter_ones: "bitvec_wf bv \<Longrightarrow> set (iter_ones bv) = bitvec_positions bv"
  by (auto simp: iter_ones_filter bitvec_positions_def bitvec_bit_def)

lemma distinct_iter_ones [simp]: "distinct (iter_ones bv)"
  by (simp add: iter_ones_def)

lemma sorted_iter_ones [simp]: "sorted (iter_ones bv)"
  by (simp add: iter_ones_def sorted_filter [of "\<lambda>x. x", simplified])

lemma length_filter_rev_bits: "length (filter (\<lambda>j. bit (b :: u8) (7 - j)) [0..<8]) = u8_count_ones b"
proof -
  have "map (\<lambda>j. 7 - j) [0..<8] = rev [0..<8 :: nat]" by (simp add: upt_rec)
  then have "length (filter (bit b) (map (\<lambda>j. 7 - j) [0..<8])) = length (filter (bit b) (rev [0..<8]))"
    by simp
  then show ?thesis by (simp add: filter_map comp_def u8_count_ones_def rev_filter [symmetric])
qed

lemma filter_upt_shift: "filter P [n + m..<k + m] = map (\<lambda>i. i + m) (filter (\<lambda>i. P (i + m)) [n..<k])"
proof -
  have "[n + m..<k + m] = map (\<lambda>i. i + m) [n..<k]"
    by (rule nth_equalityI) auto
  then show ?thesis by (simp add: filter_map comp_def)
qed

lemma count_ones_length: "count_ones bv = length (filter (bitvec_bit bv) [0..<8 * length (bv_inner bv)])"
proof (induction "bv_inner bv" arbitrary: bv)
  case Nil
  then show ?case by (simp add: count_ones_def)
next
  case (Cons b bs)
  have bv: "bv_inner bv = b # bs" using Cons by simp
  have low: "filter (bitvec_bit bv) [0..<8] = filter (\<lambda>j. bit b (7 - j)) [0..<8]"
    by (rule filter_cong) (auto simp: bitvec_bit_def bv)
  have high: "bitvec_bit bv (i + 8) = bitvec_bit \<lparr>bv_inner = bs\<rparr> i" for i
    by (simp add: bitvec_bit_alt bv byte_or_zero_def div_add_self2)
  have "filter (bitvec_bit bv) [8..<8 * length bs + 8] =
    map (\<lambda>i. i + 8) (filter (bitvec_bit \<lparr>bv_inner = bs\<rparr>) [0..<8 * length bs])"
    using filter_upt_shift [of "bitvec_bit bv" 0 8 "8 * length bs"] by (simp add: high)
  moreover have "[0..<8 * length (bv_inner bv)] = [0..<8] @ [8..<8 * length bs + 8]"
    using upt_add_eq_append [of 0 8 "8 * length bs"] by (simp add: bv add.commute)
  ultimately show ?case using Cons.hyps(1) [of "\<lparr>bv_inner = bs\<rparr>"]
    by (simp add: low length_filter_rev_bits count_ones_def bv)
qed

lemma count_ones_card: "count_ones bv = card (bitvec_positions bv)"
proof -
  have "bitvec_positions bv = set (filter (bitvec_bit bv) [0..<8 * length (bv_inner bv)])"
    by (auto simp: bitvec_positions_def bitvec_bit_def)
  then show ?thesis by (simp add: count_ones_length distinct_card del: set_filter)
qed

lemma all_zeros_iff: "all_zeros bv \<longleftrightarrow> bitvec_positions bv = {}"
proof
  assume "all_zeros bv"
  then show "bitvec_positions bv = {}"
    by (auto simp: all_zeros_def bitvec_positions_def bitvec_bit_def list_all_length)
next
  assume none: "bitvec_positions bv = {}"
  have "bv_inner bv ! k = 0" if "k < length (bv_inner bv)" for k
  proof -
    have "\<not> bit (bv_inner bv ! k) j" if j: "j < 8" for j
    proof -
      define m where "m = 7 - j"
      have m: "m < 8" "7 - m = j" using j by (simp_all add: m_def)
      have "\<not> bitvec_bit bv (8 * k + m)" using none by (auto simp: bitvec_positions_def)
      then show ?thesis using m \<open>k < length (bv_inner bv)\<close> by (simp add: bitvec_bit_def)
    qed
    then show ?thesis by (simp add: u8_eq_0_iff)
  qed
  then show "all_zeros bv" by (simp add: all_zeros_def list_all_length)
qed


lemma u8_trailing_zeros_lowest:
  assumes "b \<noteq> 0"
  shows "u8_trailing_zeros b < 8" "bit b (u8_trailing_zeros b)" "\<And>j. j < u8_trailing_zeros b \<Longrightarrow> \<not> bit b j"
proof -
  obtain j where "j < 8" "bit b j" using assms u8_eq_0_iff by blast
  then obtain n where n: "find (bit b) [0..<8] = Some n"
    by (cases "find (bit b) [0..<8]") (auto simp: find_None_iff)
  then have tz: "u8_trailing_zeros b = n" by (simp add: u8_trailing_zeros_def)
  from n obtain i where "i < 8" "bit b ([0..<8] ! i)" "n = [0..<8] ! i" "\<forall>j < i. \<not> bit b ([0..<8] ! j)"
    by (auto simp: find_Some_iff)
  then show "u8_trailing_zeros b < 8" "bit b (u8_trailing_zeros b)"
    "\<And>j. j < u8_trailing_zeros b \<Longrightarrow> \<not> bit b j"
    unfolding tz by auto
qed

text \<open>The last set bit is found from the right: everything behind the last nonzero byte is clear.\<close>

lemma bitvec_bit_snoc:
  "bitvec_bit \<lparr>bv_inner = bs @ [b]\<rparr> i \<longleftrightarrow>
     bitvec_bit \<lparr>bv_inner = bs\<rparr> i \<or> i div 8 = length bs \<and> bit b (7 - i mod 8)"
  by (auto simp: bitvec_bit_def nth_append less_Suc_eq div_less_iff_less_mult)

lemma find_enumerate_Suc:
  "find (\<lambda>(_, y). P y) (List.enumerate (Suc n) xs) =
     map_option (\<lambda>(i, y). (Suc i, y)) (find (\<lambda>(_, y). P y) (List.enumerate n xs))"
  by (induction xs arbitrary: n) simp_all

lemma last_set_bit_snoc:
  "last_set_bit \<lparr>bv_inner = bs @ [b]\<rparr> =
     (if b \<noteq> 0 then Some (word_of_nat (8 * length bs + (7 - u8_trailing_zeros b)))
      else last_set_bit \<lparr>bv_inner = bs\<rparr>)"
proof (cases "b = 0")
  case True
  then show ?thesis
    unfolding last_set_bit_def
    by (simp add: find_enumerate_Suc option.map_comp comp_def) (simp add: case_prod_beta')
next
  case False
  then have "u8_trailing_zeros b < 8" by (rule u8_trailing_zeros_lowest)
  then have "8 * Suc (length bs) - u8_trailing_zeros b - 1 = 8 * length bs + (7 - u8_trailing_zeros b)"
    by simp
  then show ?thesis using False by (simp add: last_set_bit_def)
qed

lemma last_set_bit_aux:
  "length bs \<le> MAX_BUCKETS \<Longrightarrow>
   (case last_set_bit \<lparr>bv_inner = bs\<rparr> of
      None \<Rightarrow> bitvec_positions \<lparr>bv_inner = bs\<rparr> = {}
    | Some p \<Rightarrow> bitvec_bit \<lparr>bv_inner = bs\<rparr> (unat p) \<and> (\<forall>i. bitvec_bit \<lparr>bv_inner = bs\<rparr> i \<longrightarrow> i \<le> unat p))"
proof (induction bs rule: rev_induct)
  case Nil
  then show ?case by (simp add: last_set_bit_def bitvec_positions_def bitvec_bit_def)
next
  case (snoc b bs)
  show ?case
  proof (cases "b = 0")
    case True
    then have "bitvec_bit \<lparr>bv_inner = bs @ [b]\<rparr> = bitvec_bit \<lparr>bv_inner = bs\<rparr>"
      by (simp add: bitvec_bit_snoc fun_eq_iff)
    then show ?thesis using snoc True by (simp add: last_set_bit_snoc bitvec_positions_def split: option.splits)
  next
    case False
    define t where "t = u8_trailing_zeros b"
    note low = u8_trailing_zeros_lowest [OF False, folded t_def]
    define m where "m = 8 * length bs + (7 - t)"
    have m_split: "m div 8 = length bs" "m mod 8 = 7 - t"
      unfolding m_def by (simp_all only: mod_mult_self4 div_mult_self4) simp_all
    have last: "last_set_bit \<lparr>bv_inner = bs @ [b]\<rparr> = Some (word_of_nat m)"
      using False by (simp only: last_set_bit_snoc m_def t_def if_True not_False_eq_True)
    have "m < 2 ^ 16" using snoc.prems by (simp add: MAX_BUCKETS_def m_def)
    then have p: "unat (word_of_nat m :: u16) = m"
      by (intro unat_of_nat_less) simp
    have "i \<le> m" if "i div 8 = length bs" "bit b (7 - i mod 8)" for i
    proof -
      have "t \<le> 7 - i mod 8" using low(3) that(2) not_le by blast
      moreover have "i = 8 * length bs + i mod 8" using that(1) by (metis mult_div_mod_eq)
      ultimately show ?thesis unfolding m_def using low(1) by linarith
    qed
    moreover have "i \<le> m" if "bitvec_bit \<lparr>bv_inner = bs\<rparr> i" for i
      using that by (simp add: bitvec_bit_def m_def)
    moreover have "bit b (7 - (7 - t))" using low(1,2) by simp
    ultimately show ?thesis by (auto simp: last p bitvec_bit_snoc m_split)
  qed
qed


lemma last_set_bit_spec:
  "bitvec_wf bv \<Longrightarrow>
   (case last_set_bit bv of
      None \<Rightarrow> bitvec_positions bv = {}
    | Some p \<Rightarrow> bitvec_bit bv (unat p) \<and> (\<forall>i. bitvec_bit bv i \<longrightarrow> i \<le> unat p))"
proof -
  have "\<lparr>bv_inner = bv_inner bv\<rparr> = bv" by simp
  then show "bitvec_wf bv \<Longrightarrow> ?thesis"
    using last_set_bit_aux [of "bv_inner bv"] by (simp only: bitvec_wf_def)
qed

lemma last_set_bit_None: "bitvec_wf bv \<Longrightarrow> last_set_bit bv = None \<Longrightarrow> bitvec_positions bv = {}"
  using last_set_bit_spec [of bv] by simp

lemma last_set_bit_Some:
  assumes "bitvec_wf bv" "last_set_bit bv = Some p"
  shows "unat p = Max (bitvec_positions bv)" "bitvec_positions bv \<noteq> {}"
proof -
  have "bitvec_bit bv (unat p)" "\<And>i. bitvec_bit bv i \<Longrightarrow> i \<le> unat p"
    using assms last_set_bit_spec [of bv] by simp_all
  then show "unat p = Max (bitvec_positions bv)" "bitvec_positions bv \<noteq> {}"
    by (auto simp: bitvec_positions_def intro!: Max_eqI [symmetric]
        finite_bitvec_positions [unfolded bitvec_positions_def])
qed

lemma last_set_bit_lt_num_buckets:
  assumes "bitvec_wf bv" "last_set_bit bv = Some p"
  shows "unat p < 8 * num_buckets bv"
  using assms last_set_bit_spec [of bv] by (simp add: bitvec_bit_def num_buckets_def)

section \<open>Bitwise combination\<close>

lemma bitvec_positions_bitand:
  "bitvec_positions (bitvec_bitand a b) = bitvec_positions a \<inter> bitvec_positions b"
proof -
  have "bitvec_bit (bitvec_bitand a b) i \<longleftrightarrow> bitvec_bit a i \<and> bitvec_bit b i" for i
  proof (cases "i div 8 < min (length (bv_inner a)) (length (bv_inner b))")
    case True
    then show ?thesis by (auto simp: bitvec_bitand_def Let_def bitvec_bit_def bit_and_iff)
  qed (auto simp: bitvec_bitand_def Let_def bitvec_bit_def min_def split: if_splits)
  then show ?thesis by (auto simp: bitvec_positions_def)
qed

lemma bitvec_positions_bitor:
  "bitvec_positions (bitvec_bitor a b) = bitvec_positions a \<union> bitvec_positions b"
proof -
  have "byte_or_zero (bv_inner (bitvec_bitor a b)) k = byte_or_zero (bv_inner a) k OR byte_or_zero (bv_inner b) k" for k
    by (auto simp: bitvec_bitor_def Let_def byte_or_zero_def less_max_iff_disj)
  then show ?thesis by (auto simp: bitvec_positions_def bitvec_bit_alt bit_or_iff)
qed

section \<open>The interface of the signer masks\<close>

text \<open>
  What the code that collects signatures relies on: a mask that starts empty, a position
  added to it, and the positions it denotes.
\<close>

locale position_set =
  fixes ok :: "'b \<Rightarrow> bool"
    and add_pos :: "'b \<Rightarrow> 'p \<Rightarrow> 'b"
    and has_pos :: "'b \<Rightarrow> 'p \<Rightarrow> bool"
    and positions :: "'b \<Rightarrow> nat set"
    and pos_nat :: "'p \<Rightarrow> nat"
  assumes ok_add: "ok b \<Longrightarrow> ok (add_pos b p)"
    and positions_add: "positions (add_pos b p) = insert (pos_nat p) (positions b)"
    and has_pos_iff: "has_pos b p \<longleftrightarrow> pos_nat p \<in> positions b"
begin

lemma fold_add_positions: "positions (foldl add_pos b ps) = positions b \<union> pos_nat ` set ps"
  by (induction ps arbitrary: b) (auto simp: positions_add)

lemma fold_add_ok: "ok b \<Longrightarrow> ok (foldl add_pos b ps)"
  by (induction ps arbitrary: b) (auto simp: ok_add)

lemma has_pos_fold: "has_pos (foldl add_pos b ps) p \<longleftrightarrow> has_pos b p \<or> pos_nat p \<in> pos_nat ` set ps"
  by (simp add: has_pos_iff fold_add_positions)

end

interpretation signer_mask: position_set bitvec_wf bitvec_set is_set bitvec_positions unat
  by unfold_locales (simp_all add: bitvec_wf_set bitvec_positions_set, simp add: is_set_iff bitvec_positions_def)

section \<open>Conversions\<close>

lemma foldl_set_if:
  "foldl set_if bv ibs = foldl bitvec_set bv (map (\<lambda>(i, _). word_of_nat i) (filter snd ibs))"
  by (induction ibs arbitrary: bv) (auto simp: set_if_def)

lemma bitvec_from_iter_positions:
  "bitvec_wf (bitvec_from_iter ps) \<and> bitvec_positions (bitvec_from_iter ps) = unat ` set ps"
proof (induction ps rule: rev_induct)
  case (snoc p ps)
  have "unat p < 2 ^ 8" using unsigned_less [where ?'a = nat and w = p] by simp
  then have "unat (ucast p :: u16) = unat p" by (simp add: unsigned_ucast_eq take_bit_nat_eq_self)
  then show ?case using snoc by (simp add: bitvec_from_iter_def bitvec_wf_set bitvec_positions_set)
qed (simp add: bitvec_from_iter_def)

lemma bitvec_from_bools_positions:
  assumes "bitvec_from_bools bits = Some bv"
  shows "bitvec_wf bv" "bitvec_positions bv = {i. i < length bits \<and> bits ! i}"
proof -
  let ?ps = "map (\<lambda>(i, _). word_of_nat i :: u16) (filter snd (List.enumerate 0 bits))"
  have len: "length bits \<le> 65536"
    and bv: "bv = foldl bitvec_set (with_num_bits (word_of_nat (length bits))) ?ps"
    using assms by (auto simp: bitvec_from_bools_def MAX_BUCKETS_def BUCKET_SIZE_def foldl_set_if split: if_splits)
  show "bitvec_wf bv" unfolding bv by (rule signer_mask.fold_add_ok) simp
  have "unat (word_of_nat i :: u16) = i" if "i < length bits" for i
    by (rule unat_of_nat_less) (use that len in simp)
  then have "unat ` set ?ps = {i. i < length bits \<and> bits ! i}"
    by (force simp: in_set_enumerate_eq image_iff)
  then show "bitvec_positions bv = {i. i < length bits \<and> bits ! i}"
    unfolding bv signer_mask.fold_add_positions by simp
qed

lemma bitvec_deserialize_into_bytes: "bitvec_wf bv \<Longrightarrow> bitvec_deserialize (bitvec_into_bytes bv) = Inr bv"
  by (simp add: bitvec_deserialize_def bitvec_into_bytes_def bitvec_wf_def)

lemma bitvec_deserialize_wf: "bitvec_deserialize v = Inr bv \<Longrightarrow> bitvec_wf bv"
  by (auto simp: bitvec_deserialize_def bitvec_wf_def split: if_splits)

section \<open>Properties\<close>

text \<open>C28. \<open>last_set_bit\<close> is the greatest position that is set, \<open>count_ones\<close> the number of
  positions that are set, and \<open>all_zeros\<close> says that there is none.\<close>

theorem last_set_bit_is_max:
  assumes "bitvec_wf bv"
  shows "map_option unat (last_set_bit bv) = (if bitvec_positions bv = {} then None else Some (Max (bitvec_positions bv))) \<and>
    count_ones bv = card (bitvec_positions bv) \<and> (all_zeros bv \<longleftrightarrow> last_set_bit bv = None)"
proof -
  have *: "map_option unat (last_set_bit bv) = (if bitvec_positions bv = {} then None else Some (Max (bitvec_positions bv)))"
    using last_set_bit_None [OF assms] last_set_bit_Some [OF assms]
    by (cases "last_set_bit bv") (auto split: if_splits)
  moreover have "all_zeros bv \<longleftrightarrow> last_set_bit bv = None"
    using * by (cases "last_set_bit bv") (auto simp: all_zeros_iff split: if_splits)
  ultimately show ?thesis by (simp add: count_ones_card)
qed

theorem last_set_bit_is_max_witness:
  "map_option unat (last_set_bit \<lparr>bv_inner = [0x90, 0]\<rparr>) =
     (if bitvec_positions \<lparr>bv_inner = [0x90, 0]\<rparr> = {} then None else Some (Max (bitvec_positions \<lparr>bv_inner = [0x90, 0]\<rparr>))) \<and>
   count_ones \<lparr>bv_inner = [0x90, 0]\<rparr> = card (bitvec_positions \<lparr>bv_inner = [0x90, 0]\<rparr>) \<and>
   (all_zeros \<lparr>bv_inner = [0x90, 0]\<rparr> \<longleftrightarrow> last_set_bit \<lparr>bv_inner = [0x90, 0]\<rparr> = None)"
  by (rule last_set_bit_is_max) (simp add: bitvec_wf_def MAX_BUCKETS_def)

text \<open>C27. A vector of at most 65536 booleans becomes a bit vector that returns each of them, counts
  the true ones, and survives serialization.\<close>

theorem bitvec_from_bools_roundtrip:
  assumes "length bits \<le> 65536"
  shows "\<exists>bv. bitvec_from_bools bits = Some bv \<and> (\<forall>pos. is_set bv pos = (unat pos < length bits \<and> bits ! unat pos)) \<and>
    iter_ones bv = filter ((!) bits) [0..<length bits] \<and> bitvec_deserialize (bitvec_into_bytes bv) = Inr bv"
proof -
  obtain bv where bv: "bitvec_from_bools bits = Some bv"
    using assms by (simp add: bitvec_from_bools_def MAX_BUCKETS_def BUCKET_SIZE_def)
  note facts = bitvec_from_bools_positions [OF bv]
  have "set (iter_ones bv) = set (filter ((!) bits) [0..<length bits])"
    using facts by (auto simp: set_iter_ones)
  then have "iter_ones bv = filter ((!) bits) [0..<length bits]"
    by (intro sorted_distinct_set_unique) (simp_all add: sorted_wrt_filter iter_ones_def)
  then show ?thesis using bv facts bitvec_deserialize_into_bytes [OF facts(1)]
    by (auto simp: is_set_iff bitvec_positions_def)
qed

theorem bitvec_from_bools_roundtrip_witness:
  "\<exists>bv. bitvec_from_bools [True, False, True] = Some bv \<and>
     (\<forall>pos. is_set bv pos = (unat pos < length [True, False, True] \<and> [True, False, True] ! unat pos)) \<and>
     iter_ones bv = filter ((!) [True, False, True]) [0..<length [True, False, True]] \<and>
     bitvec_deserialize (bitvec_into_bytes bv) = Inr bv"
  by (rule bitvec_from_bools_roundtrip) simp

end
