(* ===== verification/Validator_Verifier.thy ===== *)
theory Validator_Verifier
  imports Bitvec "HOL-Library.Multiset"
begin

text \<open>
  Voting power, quorums and aggregate signatures: \<open>types/src/validator_verifier.rs\<close>,
  \<open>types/src/aggregate_signature.rs\<close> and the compressed signatures of
  \<open>types/src/lazy_bls.rs\<close>. The BLS scheme is a parameter, the record \<open>bls\<close>, at
  the type of the message it signs. The locale \<open>quorum_system\<close> is the contract of a
  quorum; it is interpreted on \<open>ValidatorVerifier\<close>.
\<close>

section \<open>Keys, signatures and the BLS scheme\<close>

text \<open>
  Keys and signatures are their canonical byte encodings. A compressed signature may fail to
  decompress; \<open>bls_decompresses\<close> says which byte strings are points.
\<close>

type_synonym public_key = "u8 list"
type_synonym private_key = "u8 list"
type_synonym bls_signature = "u8 list"

record 'm bls =
  bls_verify_struct_signature :: "public_key \<Rightarrow> 'm \<Rightarrow> bls_signature \<Rightarrow> bool"
  bls_aggregate_signatures :: "bls_signature list \<Rightarrow> bls_signature option"
  bls_aggregate_public_keys :: "public_key list \<Rightarrow> public_key option"
  bls_verify_aggregate :: "bls_signature \<Rightarrow> 'm list \<Rightarrow> public_key list \<Rightarrow> bool"
  bls_decompresses :: "u8 list \<Rightarrow> bool"
  bls_sign :: "private_key \<Rightarrow> 'm \<Rightarrow> bls_signature option"

record lazy_bls_signature =
  lazy_bytes :: "u8 list"

definition lazy_from_signature :: "bls_signature \<Rightarrow> lazy_bls_signature" where
  "lazy_from_signature sig = \<lparr>lazy_bytes = sig\<rparr>"

datatype crypto_material_error = DeserializationError

definition lazy_decompress :: "'m bls \<Rightarrow> lazy_bls_signature \<Rightarrow> crypto_material_error + bls_signature" where
  "lazy_decompress bls s =
     (if bls_decompresses bls (lazy_bytes s) then Inr (lazy_bytes s) else Inl DeserializationError)"

section \<open>Aggregate and partial signatures\<close>

record aggregate_signature =
  validator_bitmask :: bit_vec
  agg_sig :: "lazy_bls_signature option"

definition aggregate_signature_new :: "bit_vec \<Rightarrow> bls_signature option \<Rightarrow> aggregate_signature" where
  "aggregate_signature_new bitmask aggregated_signature =
     \<lparr>validator_bitmask = bitmask, agg_sig = map_option lazy_from_signature aggregated_signature\<rparr>"

definition aggregate_signature_empty :: aggregate_signature where
  "aggregate_signature_empty = \<lparr>validator_bitmask = bitvec_default, agg_sig = None\<rparr>"

definition get_signers_bitvec :: "aggregate_signature \<Rightarrow> bit_vec" where
  "get_signers_bitvec s = validator_bitmask s"

definition get_signers_addresses :: "aggregate_signature \<Rightarrow> account_address list \<Rightarrow> account_address list" where
  "get_signers_addresses s validator_addresses =
     List.map_filter
       (\<lambda>(index, addr). if is_set (validator_bitmask s) (word_of_nat index) then Some addr else None)
       (List.enumerate 0 validator_addresses)"

definition get_num_voters :: "aggregate_signature \<Rightarrow> nat" where
  "get_num_voters s = count_ones (validator_bitmask s)"

definition decompressed_sig ::
    "'m bls \<Rightarrow> aggregate_signature \<Rightarrow> crypto_material_error + bls_signature option" where
  "decompressed_sig bls s =
     (case agg_sig s of None \<Rightarrow> Inr None | Some l \<Rightarrow> rbind (lazy_decompress bls l) (\<lambda>sig. Inr (Some sig)))"

record partial_signatures =
  ps_signatures :: "(account_address, bls_signature) btree_map"

definition partial_signatures_new :: "(account_address, bls_signature) btree_map \<Rightarrow> partial_signatures" where
  "partial_signatures_new sigs = \<lparr>ps_signatures = sigs\<rparr>"

definition partial_signatures_empty :: partial_signatures where
  "partial_signatures_empty = partial_signatures_new []"

definition ps_is_empty :: "partial_signatures \<Rightarrow> bool" where
  "ps_is_empty ps \<longleftrightarrow> ps_signatures ps = []"

definition ps_remove_signature ::
    "partial_signatures \<Rightarrow> account_address \<Rightarrow> bls_signature option \<times> partial_signatures" where
  "ps_remove_signature ps validator =
     (btree_get (ps_signatures ps) validator, ps\<lparr>ps_signatures := btree_remove validator (ps_signatures ps)\<rparr>)"

definition ps_add_signature ::
    "partial_signatures \<Rightarrow> account_address \<Rightarrow> bls_signature \<Rightarrow> partial_signatures" where
  "ps_add_signature ps validator signature =
     ps\<lparr>ps_signatures := btree_insert validator signature (ps_signatures ps)\<rparr>"

definition ps_contains_voter :: "partial_signatures \<Rightarrow> account_address \<Rightarrow> bool" where
  "ps_contains_voter ps voter \<longleftrightarrow> btree_get (ps_signatures ps) voter \<noteq> None"

section \<open>The validator set\<close>

text \<open>\<open>VerifyPanic\<close> is a failed overflow check.\<close>

datatype verify_error =
    UnknownAuthor
  | TooLittleVotingPower (voting_power_found: u128) (expected_voting_power: u128)
  | EmptySignature
  | InvalidMultiSignature
  | InvalidAggregatedSignature
  | InconsistentBlockInfo
  | FailedToAggregatePubKey
  | FailedToAggregateSignature
  | FailedToVerifyMultiSignature
  | InvalidBitVec
  | FailedToVerifyAggregatedSignature
  | VerifyPanic

record validator_consensus_info =
  vci_address :: account_address
  vci_public_key :: public_key
  vci_voting_power :: u64

record validator_verifier =
  validator_infos :: "validator_consensus_info list"
  quorum_voting_power :: u128
  total_voting_power :: u128
  address_to_validator_index :: "account_address \<rightharpoonup> nat"

text \<open>
  The two fields that equality of validators ignores: who is verified eagerly, and whether
  anybody else is verified lazily.
\<close>

record verify_mode =
  pessimistic_verify_set :: "account_address set"
  optimistic_sig_verification :: bool

definition verify_mode_default :: verify_mode where
  "verify_mode_default = \<lparr>pessimistic_verify_set = {}, optimistic_sig_verification = False\<rparr>"

definition sum_voting_power_infos :: "validator_consensus_info list \<Rightarrow> u128 option" where
  "sum_voting_power_infos infos =
     fold (\<lambda>x sum. Option.bind sum (\<lambda>s. checked_add s (ucast (vci_voting_power x)))) infos (Some 0)"

definition insert_index ::
    "nat \<times> validator_consensus_info \<Rightarrow> (account_address \<rightharpoonup> nat) \<Rightarrow> (account_address \<rightharpoonup> nat)" where
  "insert_index entry m = m(vci_address (snd entry) \<mapsto> fst entry)"

definition build_index :: "validator_consensus_info list \<Rightarrow> u128 \<Rightarrow> u128 \<Rightarrow> validator_verifier" where
  "build_index infos quorum total_power =
     \<lparr>validator_infos = infos, quorum_voting_power = quorum, total_voting_power = total_power,
      address_to_validator_index =
        fold insert_index (List.enumerate 0 infos) Map.empty\<rparr>"

definition validator_verifier_new :: "validator_consensus_info list \<Rightarrow> validator_verifier option" where
  "validator_verifier_new infos =
     Option.bind (sum_voting_power_infos infos) (\<lambda>total.
     Option.bind
       (if infos = [] then Some 0
        else Option.bind (checked_mul total 2) (\<lambda>d. checked_add (d div 3) 1)) (\<lambda>quorum.
     Some (build_index infos quorum total)))"

definition new_with_quorum_voting_power ::
    "validator_consensus_info list \<Rightarrow> u128 \<Rightarrow> (string + validator_verifier) option" where
  "new_with_quorum_voting_power infos quorum =
     map_option
       (\<lambda>total. if quorum \<le> total then Inr (build_index infos quorum total)
                else Inl ''Quorum voting power is greater than the sum of all voting power of authors'')
       (sum_voting_power_infos infos)"

definition new_single :: "account_address \<Rightarrow> public_key \<Rightarrow> validator_verifier option" where
  "new_single author key =
     validator_verifier_new [\<lparr>vci_address = author, vci_public_key = key, vci_voting_power = 1\<rparr>]"

definition set_optimistic_sig_verification_flag :: "verify_mode \<Rightarrow> bool \<Rightarrow> verify_mode" where
  "set_optimistic_sig_verification_flag mode flag = mode\<lparr>optimistic_sig_verification := flag\<rparr>"

definition add_pessimistic_verify_set :: "verify_mode \<Rightarrow> account_address \<Rightarrow> verify_mode" where
  "add_pessimistic_verify_set mode author =
     mode\<lparr>pessimistic_verify_set := insert author (pessimistic_verify_set mode)\<rparr>"

definition verifier_len :: "validator_verifier \<Rightarrow> nat" where
  "verifier_len vv = length (validator_infos vv)"

definition get_ordered_account_addresses :: "validator_verifier \<Rightarrow> account_address list" where
  "get_ordered_account_addresses vv = map vci_address (validator_infos vv)"

definition get_public_key :: "validator_verifier \<Rightarrow> account_address \<Rightarrow> public_key option" where
  "get_public_key vv author =
     map_option (\<lambda>index. vci_public_key (validator_infos vv ! index)) (address_to_validator_index vv author)"

definition get_voting_power :: "validator_verifier \<Rightarrow> account_address \<Rightarrow> u64 option" where
  "get_voting_power vv author =
     map_option (\<lambda>index. vci_voting_power (validator_infos vv ! index)) (address_to_validator_index vv author)"

section \<open>Verification\<close>

definition vv_verify ::
    "'m bls \<Rightarrow> validator_verifier \<Rightarrow> account_address \<Rightarrow> 'm \<Rightarrow> bls_signature \<Rightarrow> verify_error + unit" where
  "vv_verify bls vv author message signature =
     (case get_public_key vv author of
        Some public_key \<Rightarrow>
          if bls_verify_struct_signature bls public_key message signature then Inr ()
          else Inl InvalidMultiSignature
      | None \<Rightarrow> Inl UnknownAuthor)"

record signature_with_status =
  sws_signature :: lazy_bls_signature
  verification_status :: bool

definition sws_from :: "bls_signature \<Rightarrow> signature_with_status" where
  "sws_from signature = \<lparr>sws_signature = lazy_from_signature signature, verification_status = False\<rparr>"

definition set_verified :: "signature_with_status \<Rightarrow> signature_with_status" where
  "set_verified s = s\<lparr>verification_status := True\<rparr>"

definition decompressed_signature ::
    "'m bls \<Rightarrow> signature_with_status \<Rightarrow> crypto_material_error + bls_signature" where
  "decompressed_signature bls s = lazy_decompress bls (sws_signature s)"

text \<open>\<open>optimistic_verify\<close> may set the status flag of the signature, which it returns.\<close>

definition optimistic_verify ::
    "'m bls \<Rightarrow> validator_verifier \<Rightarrow> verify_mode \<Rightarrow> account_address \<Rightarrow> 'm \<Rightarrow>
     (signature_with_status, verify_error, unit) method_result" where
  "optimistic_verify bls vv mode author message s =
     (if get_public_key vv author = None then (Inl UnknownAuthor, s)
      else if (\<not> optimistic_sig_verification mode \<or> author \<in> pessimistic_verify_set mode)
              \<and> \<not> verification_status s
      then (case rbind (map_err (\<lambda>_. InvalidMultiSignature) (decompressed_signature bls s))
                   (vv_verify bls vv author message) of
              Inl e \<Rightarrow> (Inl e, s)
            | Inr _ \<Rightarrow> (Inr (), set_verified s))
      else (Inr (), s))"

definition signature_holds ::
    "'m bls \<Rightarrow> validator_verifier \<Rightarrow> 'm \<Rightarrow> account_address \<Rightarrow> signature_with_status \<Rightarrow> bool" where
  "signature_holds bls vv message author s =
     (case decompressed_signature bls s of
        Inl _ \<Rightarrow> False
      | Inr sig \<Rightarrow> vv_verify bls vv author message sig = Inr ())"

definition filter_invalid_signatures ::
    "'m bls \<Rightarrow> validator_verifier \<Rightarrow> verify_mode \<Rightarrow> 'm \<Rightarrow>
     (account_address, signature_with_status) btree_map \<Rightarrow>
     (account_address, signature_with_status) btree_map \<times> verify_mode" where
  "filter_invalid_signatures bls vv mode message signatures =
     (map (\<lambda>(a, s). (a, set_verified s)) (filter (\<lambda>(a, s). signature_holds bls vv message a s) signatures),
      foldl add_pessimistic_verify_set mode
        (map fst (filter (\<lambda>(a, s). \<not> signature_holds bls vv message a s) signatures)))"

fun collect_masks ::
    "validator_verifier \<Rightarrow> (account_address \<times> bls_signature) list \<Rightarrow> bit_vec \<Rightarrow> bls_signature list \<Rightarrow>
     verify_error + bit_vec \<times> bls_signature list" where
  "collect_masks vv [] masks sigs = Inr (masks, sigs)"
| "collect_masks vv ((addr, sig) # rest) masks sigs =
     rbind (ok_or UnknownAuthor (address_to_validator_index vv addr)) (\<lambda>index.
     collect_masks vv rest (bitvec_set masks (word_of_nat index)) (sigs @ [sig]))"

definition aggregate_signatures ::
    "'m bls \<Rightarrow> validator_verifier \<Rightarrow> (account_address \<times> bls_signature) list \<Rightarrow> verify_error + aggregate_signature" where
  "aggregate_signatures bls vv signatures =
     rbind (collect_masks vv signatures (with_num_bits (word_of_nat (verifier_len vv))) []) (\<lambda>(masks, sigs).
     rbind (ok_or FailedToAggregateSignature (bls_aggregate_signatures bls sigs)) (\<lambda>aggregated_sig.
     Inr (aggregate_signature_new masks (Some aggregated_sig))))"

fun sum_voting_power_from :: "validator_verifier \<Rightarrow> account_address list \<Rightarrow> u128 \<Rightarrow> verify_error + u128" where
  "sum_voting_power_from vv [] aggregated = Inr aggregated"
| "sum_voting_power_from vv (a # authors) aggregated =
     (case get_voting_power vv a of
        Some voting_power \<Rightarrow>
          rbind (ok_or VerifyPanic (checked_add aggregated (ucast voting_power)))
            (sum_voting_power_from vv authors)
      | None \<Rightarrow> Inl UnknownAuthor)"

definition sum_voting_power :: "validator_verifier \<Rightarrow> account_address list \<Rightarrow> verify_error + u128" where
  "sum_voting_power vv authors = sum_voting_power_from vv authors 0"

definition check_aggregated_voting_power ::
    "validator_verifier \<Rightarrow> u128 \<Rightarrow> bool \<Rightarrow> verify_error + u128" where
  "check_aggregated_voting_power vv aggregated check_super_majority =
     rbind (ok_or VerifyPanic
              (if check_super_majority then Some (quorum_voting_power vv)
               else Option.bind (checked_sub (total_voting_power vv) (quorum_voting_power vv))
                      (\<lambda>d. checked_add d 1))) (\<lambda>target.
     if aggregated < target then Inl (TooLittleVotingPower aggregated target) else Inr aggregated)"

definition check_voting_power ::
    "validator_verifier \<Rightarrow> account_address list \<Rightarrow> bool \<Rightarrow> verify_error + u128" where
  "check_voting_power vv authors check_super_majority =
     rbind (sum_voting_power vv authors) (\<lambda>aggregated.
     check_aggregated_voting_power vv aggregated check_super_majority)"

definition check_num_of_voters :: "u16 \<Rightarrow> bit_vec \<Rightarrow> verify_error + unit" where
  "check_num_of_voters num_validators bitvec =
     (if num_buckets bitvec \<noteq> required_buckets num_validators then Inl InvalidBitVec
      else case last_set_bit bitvec of
             Some last_bit \<Rightarrow> if last_bit \<ge> num_validators then Inl InvalidBitVec else Inr ()
           | None \<Rightarrow> Inr ())"

fun push_signers ::
    "validator_verifier \<Rightarrow> nat list \<Rightarrow> account_address list \<Rightarrow> public_key list \<Rightarrow>
     verify_error + account_address list \<times> public_key list" where
  "push_signers vv [] authors pub_keys = Inr (authors, pub_keys)"
| "push_signers vv (index # rest) authors pub_keys =
     (if index < length (validator_infos vv)
      then push_signers vv rest (authors @ [vci_address (validator_infos vv ! index)])
             (pub_keys @ [vci_public_key (validator_infos vv ! index)])
      else Inl UnknownAuthor)"

definition verify_multi_signatures ::
    "'m bls \<Rightarrow> validator_verifier \<Rightarrow> 'm \<Rightarrow> aggregate_signature \<Rightarrow> verify_error + unit" where
  "verify_multi_signatures bls vv message multi_signature =
     rbind (check_num_of_voters (word_of_nat (verifier_len vv)) (get_signers_bitvec multi_signature)) (\<lambda>_.
     rbind (push_signers vv (iter_ones (get_signers_bitvec multi_signature)) [] []) (\<lambda>(authors, pub_keys).
     rbind (check_voting_power vv authors True) (\<lambda>_.
     rbind (map_err (\<lambda>_. InvalidMultiSignature) (decompressed_sig bls multi_signature)) (\<lambda>sig_opt.
     rbind (ok_or EmptySignature sig_opt) (\<lambda>multi_sig.
     rbind (ok_or FailedToAggregatePubKey (bls_aggregate_public_keys bls pub_keys)) (\<lambda>aggregated_key.
     ensure (bls_verify_struct_signature bls aggregated_key message multi_sig) InvalidMultiSignature))))))"

definition verify_aggregate_signatures ::
    "'m bls \<Rightarrow> validator_verifier \<Rightarrow> 'm list \<Rightarrow> aggregate_signature \<Rightarrow> verify_error + unit" where
  "verify_aggregate_signatures bls vv messages aggregated_signature =
     rbind (check_num_of_voters (word_of_nat (verifier_len vv)) (get_signers_bitvec aggregated_signature)) (\<lambda>_.
     rbind (push_signers vv (iter_ones (get_signers_bitvec aggregated_signature)) [] []) (\<lambda>(authors, pub_keys).
     rbind (check_voting_power vv authors True) (\<lambda>_.
     rbind (map_err (\<lambda>_. InvalidAggregatedSignature) (decompressed_sig bls aggregated_signature)) (\<lambda>sig_opt.
     rbind (ok_or EmptySignature sig_opt) (\<lambda>aggregated_sig.
     ensure (bls_verify_aggregate bls aggregated_sig messages pub_keys) InvalidAggregatedSignature)))))"

definition aggregate_signature_authors :: "validator_verifier \<Rightarrow> aggregate_signature \<Rightarrow> account_address list" where
  "aggregate_signature_authors vv aggregated_signature =
     List.map_filter
       (\<lambda>index. if index < length (validator_infos vv) then Some (vci_address (validator_infos vv ! index)) else None)
       (iter_ones (get_signers_bitvec aggregated_signature))"

section \<open>The validator set of the chain\<close>

record validator_info =
  vi_account_address :: account_address
  vi_consensus_voting_power :: u64
  vi_consensus_public_key :: public_key
  vi_validator_index :: u64

record validator_set =
  active_validators :: "validator_info list"
  pending_inactive :: "validator_info list"
  pending_active :: "validator_info list"
  vs_total_voting_power :: u128
  vs_total_joining_power :: u128

definition validator_set_payload :: "validator_set \<Rightarrow> validator_info list" where
  "validator_set_payload vs = active_validators vs @ pending_inactive vs"

definition validator_set_num_validators :: "validator_set \<Rightarrow> nat" where
  "validator_set_num_validators vs = length (active_validators vs) + length (pending_inactive vs)"

text \<open>\<open>None\<close> is the failed assertion (or the index out of bounds) on the validator indices.\<close>

definition verifier_from_validator_set :: "validator_set \<Rightarrow> validator_verifier option" where
  "verifier_from_validator_set vs =
     (let sorted_infos = fold (\<lambda>info m. btree_insert (vi_validator_index info)
                           \<lparr>vci_address = vi_account_address info,
                            vci_public_key = vi_consensus_public_key info,
                            vci_voting_power = vi_consensus_voting_power info\<rparr> m)
                         (validator_set_payload vs) [];
          infos = map snd sorted_infos
      in if list_all (\<lambda>info. unat (vi_validator_index info) < length infos \<and>
               vci_address (infos ! unat (vi_validator_index info)) = vi_account_address info)
             (validator_set_payload vs)
         then validator_verifier_new infos else None)"

section \<open>The index and the voting power\<close>

definition members :: "validator_verifier \<Rightarrow> account_address set" where
  "members vv = vci_address ` set (validator_infos vv)"

definition power_of :: "validator_verifier \<Rightarrow> account_address \<Rightarrow> nat" where
  "power_of vv a = (case get_voting_power vv a of None \<Rightarrow> 0 | Some p \<Rightarrow> unat p)"

definition vv_quorum :: "validator_verifier \<Rightarrow> account_address set \<Rightarrow> bool" where
  "vv_quorum vv S \<longleftrightarrow> S \<subseteq> members vv \<and> unat (quorum_voting_power vv) \<le> sum (power_of vv) S"

text \<open>
  A well-formed verifier is one that \<open>new\<close> builds for a validator set with distinct
  addresses whose size fits the 16 bits of the signer masks.
\<close>

definition verifier_wf :: "validator_verifier \<Rightarrow> bool" where
  "verifier_wf vv \<longleftrightarrow>
     validator_infos vv \<noteq> [] \<and> length (validator_infos vv) < 2 ^ 16 \<and>
     distinct (map vci_address (validator_infos vv)) \<and>
     validator_verifier_new (validator_infos vv) = Some vv"

lemma finite_members [simp]: "finite (members vv)"
  by (simp add: members_def)

lemma insert_index_apply:
  "insert_index (index, info) m a = (if a = vci_address info then Some index else m a)"
  by (simp add: insert_index_def)

lemma fold_index:
  "fold insert_index (List.enumerate n infos) m0 a = Some i \<Longrightarrow>
     m0 a = Some i \<or> n \<le> i \<and> i < n + length infos \<and> vci_address (infos ! (i - n)) = a"
proof (induction infos arbitrary: n m0)
  case (Cons info infos)
  have "insert_index (n, info) m0 a = Some i \<or>
    Suc n \<le> i \<and> i < Suc n + length infos \<and> vci_address (infos ! (i - Suc n)) = a"
    by (rule Cons.IH) (use Cons.prems in simp)
  then show ?case
    by (auto split: if_splits simp: insert_index_apply Suc_diff_le nth_Cons' dest: Suc_leD)
qed simp

lemma fold_index_other:
  "a \<notin> vci_address ` set infos \<Longrightarrow>
     fold insert_index (List.enumerate n infos) m0 a = m0 a"
  by (induction infos arbitrary: n m0) (auto simp: insert_index_apply)

lemma fold_index_distinct:
  "distinct (map vci_address infos) \<Longrightarrow> i < length infos \<Longrightarrow>
     fold insert_index (List.enumerate n infos) m0 (vci_address (infos ! i)) = Some (n + i)"
proof (induction infos arbitrary: n m0 i)
  case (Cons info infos)
  then show ?case by (cases i) (auto simp: fold_index_other insert_index_apply)
qed simp

lemma verifier_index:
  assumes "verifier_wf vv"
  shows "address_to_validator_index vv a = Some i \<longleftrightarrow>
    i < length (validator_infos vv) \<and> vci_address (validator_infos vv ! i) = a"
proof -
  obtain t q where vv: "vv = build_index (validator_infos vv) q t"
    using assms by (auto simp: verifier_wf_def validator_verifier_new_def bind_eq_Some_conv dest: sym)
  have idx: "address_to_validator_index vv = fold insert_index
    (List.enumerate 0 (validator_infos vv)) Map.empty"
    by (subst vv) (simp add: build_index_def)
  then show ?thesis
    using fold_index [of 0 "validator_infos vv" Map.empty a i]
      fold_index_distinct [of "validator_infos vv" i 0 Map.empty] assms
    by (auto simp: verifier_wf_def)
qed

lemma verifier_index_None:
  assumes "verifier_wf vv"
  shows "address_to_validator_index vv a = None \<longleftrightarrow> a \<notin> members vv"
proof -
  have "a \<in> members vv \<longleftrightarrow> (\<exists>i. address_to_validator_index vv a = Some i)"
    unfolding verifier_index [OF assms] by (fastforce simp: members_def in_set_conv_nth)
  then show ?thesis by auto
qed

lemma get_voting_power_None: "verifier_wf vv \<Longrightarrow> get_voting_power vv a = None \<longleftrightarrow> a \<notin> members vv"
  by (simp add: get_voting_power_def verifier_index_None)

lemma get_public_key_None: "verifier_wf vv \<Longrightarrow> get_public_key vv a = None \<longleftrightarrow> a \<notin> members vv"
  by (simp add: get_public_key_def verifier_index_None)

lemma power_of_nth:
  "verifier_wf vv \<Longrightarrow> i < length (validator_infos vv) \<Longrightarrow>
     power_of vv (vci_address (validator_infos vv ! i)) = unat (vci_voting_power (validator_infos vv ! i))"
  using verifier_index [of vv "vci_address (validator_infos vv ! i)" i]
  by (simp add: power_of_def get_voting_power_def)

lemma unat_ucast_u64: "unat (ucast (x :: u64) :: u128) = unat x"
proof -
  have "unat x < 2 ^ 64" using unsigned_less [of x] by simp
  then have "unat x < 2 ^ 128" by simp
  then show ?thesis by (simp add: unsigned_ucast_eq take_bit_nat_eq_self)
qed

lemma sum_voting_power_infos_Some:
  assumes "sum_voting_power_infos infos = Some t"
  shows "unat t = sum_list (map (unat \<circ> vci_voting_power) infos)"
proof -
  have none: "fold (\<lambda>x sum. Option.bind sum (\<lambda>s. checked_add s (ucast (vci_voting_power x)))) xs None = (None :: u128 option)" for xs
    by (induction xs) simp_all
  have "fold (\<lambda>x sum. Option.bind sum (\<lambda>s. checked_add s (ucast (vci_voting_power x)))) infos (Some acc) = Some t \<Longrightarrow>
    unat t = unat acc + sum_list (map (unat \<circ> vci_voting_power) infos)" for acc :: u128
  proof (induction infos arbitrary: acc)
    case (Cons x xs)
    then obtain c where c: "checked_add acc (ucast (vci_voting_power x)) = Some c"
      by (cases "checked_add acc (ucast (vci_voting_power x) :: u128)") (simp_all add: none)
    then show ?case using Cons checked_add_Some_unat [OF c] by (simp add: unat_ucast_u64)
  qed simp
  from this [of 0] show ?thesis using assms by (simp add: sum_voting_power_infos_def)
qed

lemma verifier_totals:
  assumes "verifier_wf vv"
  shows "unat (total_voting_power vv) = sum (power_of vv) (members vv)"
    and "unat (quorum_voting_power vv) = unat (total_voting_power vv) * 2 div 3 + 1"
proof -
  obtain t d q where t: "sum_voting_power_infos (validator_infos vv) = Some t"
    and d: "checked_mul t 2 = Some d" and q: "checked_add (d div 3) 1 = Some q"
    and vv: "vv = build_index (validator_infos vv) q t"
    using assms by (auto simp: verifier_wf_def validator_verifier_new_def bind_eq_Some_conv dest: sym)
  have tq: "total_voting_power vv = t" "quorum_voting_power vv = q"
    by (subst vv, simp add: build_index_def)+
  have "sum_list (map (power_of vv) (map vci_address (validator_infos vv))) =
    sum_list (map (unat \<circ> vci_voting_power) (validator_infos vv))"
    by (rule arg_cong [of _ _ sum_list], rule nth_equalityI) (simp_all add: power_of_nth assms)
  moreover have "sum_list (map (power_of vv) (map vci_address (validator_infos vv))) =
    sum (power_of vv) (set (map vci_address (validator_infos vv)))"
    by (rule sum_list_distinct_conv_sum_set) (use assms in \<open>simp add: verifier_wf_def\<close>)
  ultimately show "unat (total_voting_power vv) = sum (power_of vv) (members vv)"
    using sum_voting_power_infos_Some [OF t] tq by (simp only: members_def set_map)
  show "unat (quorum_voting_power vv) = unat (total_voting_power vv) * 2 div 3 + 1"
    using checked_mul_Some_unat [OF d] checked_add_Some_unat [OF q] tq
    by (simp add: unat_div)
qed

section \<open>Quorums\<close>

text \<open>
  What the protocol relies on: a quorum consists of members and has more than two thirds of
  their weight. Two quorums then share more weight than the faulty members have.
\<close>

locale quorum_system =
  fixes ok :: "'q \<Rightarrow> bool"
    and participants :: "'q \<Rightarrow> 'v set"
    and weight :: "'q \<Rightarrow> 'v \<Rightarrow> nat"
    and is_quorum :: "'q \<Rightarrow> 'v set \<Rightarrow> bool"
  assumes finite_participants: "ok q \<Longrightarrow> finite (participants q)"
    and quorum_participants: "ok q \<Longrightarrow> is_quorum q S \<Longrightarrow> S \<subseteq> participants q"
    and quorum_weight: "ok q \<Longrightarrow> is_quorum q S \<Longrightarrow> 2 * sum (weight q) (participants q) < 3 * sum (weight q) S"
begin

lemma quorum_intersection_weight:
  assumes "ok q" "is_quorum q S" "is_quorum q T"
  shows "sum (weight q) (participants q) < 3 * sum (weight q) (S \<inter> T)"
proof -
  note sub = quorum_participants [OF assms(1,2)] quorum_participants [OF assms(1,3)]
  have fin: "finite S" "finite T" using sub finite_participants [OF assms(1)] finite_subset by auto
  have "sum (weight q) S + sum (weight q) T = sum (weight q) (S \<union> T) + sum (weight q) (S \<inter> T)"
    using sum.union_inter [OF fin, of "weight q"] by simp
  moreover have "sum (weight q) (S \<union> T) \<le> sum (weight q) (participants q)"
    by (rule sum_mono2) (use sub finite_participants [OF assms(1)] in auto)
  ultimately show ?thesis
    using quorum_weight [OF assms(1,2)] quorum_weight [OF assms(1,3)] by linarith
qed

lemma quorum_intersection_honest:
  assumes "ok q" "is_quorum q S" "is_quorum q T"
    and faulty: "B \<subseteq> participants q" "3 * sum (weight q) B \<le> sum (weight q) (participants q)"
  shows "\<exists>v \<in> S \<inter> T. v \<notin> B"
proof (rule ccontr)
  assume "\<not> ?thesis"
  then have "sum (weight q) (S \<inter> T) \<le> sum (weight q) B"
    by (intro sum_mono2) (use faulty finite_participants [OF assms(1)] finite_subset in auto)
  then show False using quorum_intersection_weight [OF assms(1-3)] faulty(2) by linarith
qed

lemma quorum_honest:
  assumes "ok q" "is_quorum q S" "B \<subseteq> participants q" "3 * sum (weight q) B \<le> sum (weight q) (participants q)"
  shows "\<exists>v \<in> S. v \<notin> B"
  using quorum_intersection_honest [OF assms(1,2,2) assms(3,4)] by simp

end

interpretation vvq: quorum_system verifier_wf members power_of vv_quorum
proof unfold_locales
  fix vv S assume wf: "verifier_wf vv" and S: "vv_quorum vv S"
  have "2 * t < 3 * (t * 2 div 3 + 1)" for t :: nat
  proof -
    define q r where "q = t * 2 div 3" "r = t * 2 mod 3"
    then have "r < 3" "q * 3 + r = t * 2" by simp_all
    then show ?thesis unfolding q_r_def(1) [symmetric] by simp
  qed
  then have "2 * unat (total_voting_power vv) < 3 * unat (quorum_voting_power vv)"
    unfolding verifier_totals(2) [OF wf] .
  then show "2 * sum (power_of vv) (members vv) < 3 * sum (power_of vv) S"
    using S verifier_totals(1) [OF wf] by (simp add: vv_quorum_def)
qed (simp_all add: vv_quorum_def)

lemma sum_voting_power_from_Inr:
  assumes "verifier_wf vv"
  shows "sum_voting_power_from vv authors acc = Inr t \<Longrightarrow>
    unat t = unat acc + sum_list (map (power_of vv) authors) \<and> set authors \<subseteq> members vv"
proof (induction authors arbitrary: acc)
  case (Cons a authors)
  then obtain p c where p: "get_voting_power vv a = Some p"
    and c: "checked_add acc (ucast p) = Some c" and rest: "sum_voting_power_from vv authors c = Inr t"
    by (auto simp: result_simps split: option.splits)
  have "a \<in> members vv" using p get_voting_power_None [OF assms, of a] by auto
  then show ?case using Cons.IH [OF rest] p checked_add_Some_unat [OF c]
    by (simp add: power_of_def unat_ucast_u64)
qed simp

text \<open>The sum of the power of distinct members never overflows: it is at most the total.\<close>

lemma sum_voting_power_from_total:
  assumes "verifier_wf vv"
  shows "set authors \<subseteq> members vv \<Longrightarrow> unat acc + sum_list (map (power_of vv) authors) < 2 ^ 128 \<Longrightarrow>
    \<exists>t. sum_voting_power_from vv authors acc = Inr t"
proof (induction authors arbitrary: acc)
  case (Cons a authors)
  obtain p where p: "get_voting_power vv a = Some p"
    using Cons.prems(1) get_voting_power_None [OF assms, of a] by auto
  have "unat acc + unat (ucast p :: u128) < 2 ^ LENGTH(128)"
    using Cons.prems(2) p by (simp add: power_of_def unat_ucast_u64)
  then obtain c where c: "checked_add acc (ucast p) = Some c" by (simp add: checked_add_def)
  then show ?case using Cons.IH [of c] Cons.prems p checked_add_Some_unat [OF c]
    by (simp add: power_of_def unat_ucast_u64)
qed simp

lemma check_voting_power_quorum:
  assumes "verifier_wf vv" "distinct authors"
  shows "(\<exists>p. check_voting_power vv authors True = Inr p) \<longleftrightarrow> vv_quorum vv (set authors)"
proof
  assume "\<exists>p. check_voting_power vv authors True = Inr p"
  then obtain t where "sum_voting_power_from vv authors 0 = Inr t" "quorum_voting_power vv \<le> t"
    by (auto simp: check_voting_power_def sum_voting_power_def check_aggregated_voting_power_def
        result_simps not_less split: if_splits)
  then show "vv_quorum vv (set authors)"
    using sum_voting_power_from_Inr [OF assms(1)] sum_list_distinct_conv_sum_set [OF assms(2), of "power_of vv"]
    by (simp add: vv_quorum_def word_le_nat_alt)
next
  assume q: "vv_quorum vv (set authors)"
  have "sum (power_of vv) (set authors) \<le> unat (total_voting_power vv)"
    unfolding verifier_totals(1) [OF assms(1)] by (rule sum_mono2) (use q in \<open>auto simp: vv_quorum_def\<close>)
  also have "\<dots> < 2 ^ 128" using unsigned_less [of "total_voting_power vv"] by simp
  finally obtain t where t: "sum_voting_power_from vv authors 0 = Inr t"
    using sum_voting_power_from_total [OF assms(1), of authors 0] q
      sum_list_distinct_conv_sum_set [OF assms(2), of "power_of vv"] by (auto simp: vv_quorum_def)
  then have "quorum_voting_power vv \<le> t"
    using sum_voting_power_from_Inr [OF assms(1) t] q
      sum_list_distinct_conv_sum_set [OF assms(2), of "power_of vv"]
    by (simp add: vv_quorum_def word_le_nat_alt)
  with t show "\<exists>p. check_voting_power vv authors True = Inr p"
    by (simp add: check_voting_power_def sum_voting_power_def check_aggregated_voting_power_def not_less)
qed

text \<open>No sum over distinct authors overflows, whether they are members or not.\<close>

lemma sum_voting_power_from_no_panic:
  assumes "verifier_wf vv"
  shows "distinct authors \<Longrightarrow> unat acc + sum (power_of vv) (set authors \<inter> members vv) < 2 ^ 128 \<Longrightarrow>
    sum_voting_power_from vv authors acc \<noteq> Inl VerifyPanic"
proof (induction authors arbitrary: acc)
  case (Cons a authors)
  show ?case
  proof (cases "get_voting_power vv a")
    case (Some p)
    then have a: "a \<in> members vv" "power_of vv a = unat p"
      using get_voting_power_None [OF assms, of a] by (auto simp: power_of_def)
    then have sum: "sum (power_of vv) (set (a # authors) \<inter> members vv) = unat p + sum (power_of vv) (set authors \<inter> members vv)"
      using Cons.prems(1) by simp
    then have "unat acc + unat (ucast p :: u128) < 2 ^ LENGTH(128)" using Cons.prems(2) by (simp add: unat_ucast_u64)
    then obtain c where c: "checked_add acc (ucast p) = Some c" by (simp add: checked_add_def)
    then show ?thesis using Cons.IH [of c] Cons.prems sum Some checked_add_Some_unat [OF c] by (simp add: unat_ucast_u64)
  qed simp
qed simp

lemma check_voting_power_no_panic:
  assumes "verifier_wf vv" "distinct authors"
  shows "check_voting_power vv authors True \<noteq> Inl VerifyPanic"
proof -
  have "sum (power_of vv) (set authors \<inter> members vv) \<le> unat (total_voting_power vv)"
    unfolding verifier_totals(1) [OF assms(1)] by (rule sum_mono2) auto
  also have "\<dots> < 2 ^ 128" using unsigned_less [of "total_voting_power vv"] by simp
  finally have "sum_voting_power_from vv authors 0 \<noteq> Inl VerifyPanic"
    using sum_voting_power_from_no_panic [OF assms, of 0] by simp
  then show ?thesis
    by (auto simp: check_voting_power_def sum_voting_power_def check_aggregated_voting_power_def error_simps split: if_splits)
qed

section \<open>The signers of an aggregate signature\<close>

lemma push_signers_Inr:
  "push_signers vv is authors pub_keys = Inr r \<longleftrightarrow>
     (\<forall>i \<in> set is. i < length (validator_infos vv)) \<and>
     r = (authors @ map (\<lambda>i. vci_address (validator_infos vv ! i)) is,
          pub_keys @ map (\<lambda>i. vci_public_key (validator_infos vv ! i)) is)"
  by (induction "is" arbitrary: authors pub_keys) auto

lemma aggregate_signature_authors_map:
  "\<forall>i \<in> set (iter_ones (validator_bitmask s)). i < length (validator_infos vv) \<Longrightarrow>
     aggregate_signature_authors vv s = map (\<lambda>i. vci_address (validator_infos vv ! i)) (iter_ones (validator_bitmask s))"
  by (auto simp: aggregate_signature_authors_def get_signers_bitvec_def map_filter_def
      filter_id_conv comp_def intro!: map_cong)

lemma distinct_signers:
  assumes "verifier_wf vv" "\<forall>i \<in> set is. i < length (validator_infos vv)" "distinct is"
  shows "distinct (map (\<lambda>i. vci_address (validator_infos vv ! i)) is)"
proof -
  have "inj_on (\<lambda>i. vci_address (validator_infos vv ! i)) (set is)"
    using assms(1,2) by (auto simp: verifier_wf_def distinct_conv_nth inj_on_def)
  then show ?thesis using assms(3) by (simp add: distinct_map)
qed

lemma distinct_aggregate_signature_authors:
  assumes "verifier_wf vv"
  shows "distinct (aggregate_signature_authors vv s)"
proof -
  let ?is = "filter (\<lambda>i. i < length (validator_infos vv)) (iter_ones (validator_bitmask s))"
  have "aggregate_signature_authors vv s = map (\<lambda>i. vci_address (validator_infos vv ! i)) ?is"
    by (simp add: aggregate_signature_authors_def get_signers_bitvec_def map_filter_def filter_map comp_def)
  then show ?thesis using distinct_signers [OF assms, of ?is] by simp
qed

text \<open>
  A multi-signature that verifies names distinct members with a quorum of voting power, and
  its signature holds for the aggregate of their public keys.
\<close>

lemma verify_multi_signatures_Inr:
  assumes "verify_multi_signatures bls vv m s = Inr u"
  obtains sig key where
    "\<forall>i \<in> set (iter_ones (validator_bitmask s)). i < length (validator_infos vv)"
    "agg_sig s = Some \<lparr>lazy_bytes = sig\<rparr>"
    "bls_aggregate_public_keys bls
       (map (\<lambda>i. vci_public_key (validator_infos vv ! i)) (iter_ones (validator_bitmask s))) = Some key"
    "bls_verify_struct_signature bls key m sig"
    "\<exists>p. check_voting_power vv (aggregate_signature_authors vv s) True = Inr p"
    "bitvec_wf (validator_bitmask s)"
proof -
  have w: "bitvec_wf (validator_bitmask s)"
    using assms required_buckets_bits [of "word_of_nat (verifier_len vv)"]
    by (auto simp: verify_multi_signatures_def check_num_of_voters_def bitvec_wf_def num_buckets_def
        get_signers_bitvec_def result_simps split: if_splits)
  show thesis using assms w
    by (auto simp: verify_multi_signatures_def result_simps push_signers_Inr get_signers_bitvec_def
        decompressed_sig_def lazy_decompress_def aggregate_signature_authors_map
        split: option.splits if_splits prod.splits intro!: that)
qed

lemma verify_multi_signatures_quorum:
  assumes "verify_multi_signatures bls vv m s = Inr u" "verifier_wf vv"
  shows "vv_quorum vv (set (aggregate_signature_authors vv s))"
  using assms by (elim verify_multi_signatures_Inr)
    (simp add: check_voting_power_quorum distinct_aggregate_signature_authors)

section \<open>Aggregation\<close>

text \<open>
  What aggregation relies on in the BLS scheme: signatures that hold one by one aggregate to
  one that holds for the aggregate of the keys, in whatever order the keys are taken.
\<close>

definition bls_complete :: "'m bls \<Rightarrow> 'm \<Rightarrow> bool" where
  "bls_complete bls m \<longleftrightarrow>
     (\<forall>ps. ps \<noteq> [] \<longrightarrow> (\<forall>(pk, s) \<in> set ps. bls_verify_struct_signature bls pk m s) \<longrightarrow>
        (\<exists>s. bls_aggregate_signatures bls (map snd ps) = Some s \<and> bls_decompresses bls s \<and>
           (\<forall>pks. mset pks = mset (map fst ps) \<longrightarrow>
              (\<exists>key. bls_aggregate_public_keys bls pks = Some key \<and> bls_verify_struct_signature bls key m s))))"

lemma push_signers_no_panic: "push_signers vv is authors pub_keys \<noteq> Inl VerifyPanic"
  by (induction "is" arbitrary: authors pub_keys) simp_all

lemma collect_masks_no_panic: "collect_masks vv sigs masks acc \<noteq> Inl VerifyPanic"
  by (induction vv sigs masks acc rule: collect_masks.induct) (auto simp: error_simps)

lemma aggregate_signatures_no_panic: "aggregate_signatures bls vv sigs \<noteq> Inl VerifyPanic"
  using collect_masks_no_panic by (auto simp: aggregate_signatures_def error_simps)

lemma verify_multi_signatures_no_panic:
  assumes "verifier_wf vv"
  shows "verify_multi_signatures bls vv m s \<noteq> Inl VerifyPanic"
proof -
  have "check_voting_power vv authors True \<noteq> Inl VerifyPanic"
    if "push_signers vv (iter_ones (get_signers_bitvec s)) [] [] = Inr (authors, keys)" for authors keys
    using that distinct_signers [OF assms _ distinct_iter_ones]
    by (intro check_voting_power_no_panic [OF assms]) (auto simp: push_signers_Inr)
  then show ?thesis
    using push_signers_no_panic
    by (auto simp: verify_multi_signatures_def check_num_of_voters_def error_simps ensure_eq_Inl_iff split: if_splits option.splits)
qed

definition index_of :: "validator_verifier \<Rightarrow> account_address \<Rightarrow> nat" where
  "index_of vv a = the (address_to_validator_index vv a)"

lemma index_of_member:
  assumes "verifier_wf vv" "a \<in> members vv"
  shows "address_to_validator_index vv a = Some (index_of vv a)"
    and "index_of vv a < length (validator_infos vv)"
    and "vci_address (validator_infos vv ! index_of vv a) = a"
    and "get_public_key vv a = Some (vci_public_key (validator_infos vv ! index_of vv a))"
proof -
  obtain i where i: "address_to_validator_index vv a = Some i"
    using assms verifier_index_None [OF assms(1), of a] by auto
  then show "address_to_validator_index vv a = Some (index_of vv a)"
    and "get_public_key vv a = Some (vci_public_key (validator_infos vv ! index_of vv a))"
    by (simp_all add: index_of_def get_public_key_def)
  show "index_of vv a < length (validator_infos vv)"
    and "vci_address (validator_infos vv ! index_of vv a) = a"
    using i verifier_index [OF assms(1), of a i] by (simp_all add: index_of_def)
qed

lemma unat_index_of:
  assumes "verifier_wf vv" "a \<in> members vv"
  shows "unat (word_of_nat (index_of vv a) :: u16) = index_of vv a"
  by (rule unat_of_nat_less) (use index_of_member [OF assms] assms(1) in \<open>simp add: verifier_wf_def\<close>)

lemma collect_masks_members:
  assumes "verifier_wf vv"
  shows "fst ` set sigs \<subseteq> members vv \<Longrightarrow>
    collect_masks vv sigs masks acc =
      Inr (foldl bitvec_set masks (map (\<lambda>(a, _). word_of_nat (index_of vv a)) sigs), acc @ map snd sigs)"
proof (induction sigs arbitrary: masks acc)
  case (Cons p sigs)
  then show ?case using index_of_member [OF assms] by (cases p) simp
qed simp

lemma foldl_bitvec_set_length:
  "\<forall>p \<in> set ps. unat p < 8 * length (bv_inner bv) \<Longrightarrow>
     length (bv_inner (foldl bitvec_set bv ps)) = length (bv_inner bv)"
proof (induction ps arbitrary: bv)
  case (Cons p ps)
  then have "unat p div 8 < length (bv_inner bv)" by auto
  then have "length (bv_inner (bitvec_set bv p)) = length (bv_inner bv)"
    by (simp add: bitvec_set_def Let_def BUCKET_SIZE_def)
  then show ?case using Cons by simp
qed simp

definition signer_mask_of :: "validator_verifier \<Rightarrow> account_address list \<Rightarrow> bit_vec" where
  "signer_mask_of vv as =
     foldl bitvec_set (with_num_bits (word_of_nat (verifier_len vv))) (map (\<lambda>a. word_of_nat (index_of vv a)) as)"

lemma signer_mask_of_facts:
  assumes "verifier_wf vv" "set as \<subseteq> members vv"
  shows "bitvec_wf (signer_mask_of vv as)"
    and "bitvec_positions (signer_mask_of vv as) = index_of vv ` set as"
    and "check_num_of_voters (word_of_nat (verifier_len vv)) (signer_mask_of vv as) = Inr ()"
proof -
  let ?n = "word_of_nat (verifier_len vv) :: u16"
  have n: "unat ?n = length (validator_infos vv)" unfolding verifier_len_def
    by (rule unat_of_nat_less) (use assms(1) in \<open>simp add: verifier_wf_def\<close>)
  note idx = unat_index_of [OF assms(1)] index_of_member(2) [OF assms(1)]
  show wf: "bitvec_wf (signer_mask_of vv as)"
    unfolding signer_mask_of_def by (rule signer_mask.fold_add_ok) simp
  show pos: "bitvec_positions (signer_mask_of vv as) = index_of vv ` set as"
    unfolding signer_mask_of_def signer_mask.fold_add_positions using assms(2) idx(1)
    by (force simp: image_image)
  have "num_buckets (signer_mask_of vv as) = required_buckets ?n"
    unfolding signer_mask_of_def num_buckets_def
    by (subst foldl_bitvec_set_length)
      (use required_buckets_bits [of ?n] n idx assms(2) in \<open>force simp: with_num_bits_def\<close>,
       simp add: with_num_bits_def)
  moreover have "p < ?n" if "last_set_bit (signer_mask_of vv as) = Some p" for p
  proof -
    have "unat p \<in> bitvec_positions (signer_mask_of vv as)"
      using last_set_bit_Some [OF wf that] Max_in finite_bitvec_positions by metis
    then show ?thesis using pos idx(2) assms(2) n by (auto simp: word_less_nat_alt)
  qed
  ultimately show "check_num_of_voters ?n (signer_mask_of vv as) = Inr ()"
    by (auto simp: check_num_of_voters_def not_le split: option.splits)
qed

lemma iter_ones_signer_mask:
  assumes "verifier_wf vv" "set as \<subseteq> members vv" "distinct as"
  shows "mset (iter_ones (signer_mask_of vv as)) = mset (map (index_of vv) as)"
proof -
  have "inj_on (index_of vv) (set as)"
    by (rule inj_on_inverseI [of _ "\<lambda>i. vci_address (validator_infos vv ! i)"])
      (use index_of_member(3) [OF assms(1)] assms(2) in auto)
  then have "distinct (map (index_of vv) as)" using assms(3) by (simp add: distinct_map)
  then show ?thesis
    by (subst set_eq_iff_mset_eq_distinct [symmetric])
      (simp_all add: set_iter_ones signer_mask_of_facts [OF assms(1,2)])
qed

lemma signer_mask_checks:
  assumes wf: "verifier_wf vv" and as: "distinct as" "vv_quorum vv (set as)"
    and agg: "validator_bitmask agg = signer_mask_of vv as"
  defines "ones \<equiv> iter_ones (signer_mask_of vv as)"
  shows "\<forall>i \<in> set ones. i < length (validator_infos vv)"
    and "aggregate_signature_authors vv agg = map (\<lambda>i. vci_address (validator_infos vv ! i)) ones"
    and "set (aggregate_signature_authors vv agg) = set as"
    and "push_signers vv ones [] [] =
      Inr (aggregate_signature_authors vv agg, map (\<lambda>i. vci_public_key (validator_infos vv ! i)) ones)"
    and "\<exists>p. check_voting_power vv (aggregate_signature_authors vv agg) True = Inr p"
proof -
  have mem: "set as \<subseteq> members vv" using as(2) by (simp add: vv_quorum_def)
  note idx = index_of_member [OF wf]
  have set_ones: "set ones = index_of vv ` set as"
    unfolding ones_def using signer_mask_of_facts [OF wf mem] by (simp add: set_iter_ones)
  then show bound: "\<forall>i \<in> set ones. i < length (validator_infos vv)" using idx(2) mem by auto
  then show authors: "aggregate_signature_authors vv agg = map (\<lambda>i. vci_address (validator_infos vv ! i)) ones"
    using aggregate_signature_authors_map [of agg vv] by (simp add: agg ones_def)
  have "(\<lambda>i. vci_address (validator_infos vv ! i)) ` index_of vv ` set as = (\<lambda>a. a) ` set as"
    unfolding image_image by (rule image_cong) (use idx(3) mem in auto)
  then show set_authors: "set (aggregate_signature_authors vv agg) = set as"
    by (simp add: authors set_ones)
  show "push_signers vv ones [] [] =
      Inr (aggregate_signature_authors vv agg, map (\<lambda>i. vci_public_key (validator_infos vv ! i)) ones)"
    using bound by (simp add: push_signers_Inr authors)
  show "\<exists>p. check_voting_power vv (aggregate_signature_authors vv agg) True = Inr p"
    using check_voting_power_quorum [OF wf distinct_aggregate_signature_authors [OF wf, of agg]] as(2) set_authors by simp
qed

lemma aggregate_signatures_mask:
  assumes "verifier_wf vv" "fst ` set sigs \<subseteq> members vv" "bls_aggregate_signatures bls (map snd sigs) = Some s"
  shows "aggregate_signatures bls vv sigs = Inr (aggregate_signature_new (signer_mask_of vv (map fst sigs)) (Some s))"
  using assms(3) collect_masks_members [OF assms(1), of sigs] assms(2)
  by (simp add: aggregate_signatures_def signer_mask_of_def case_prod_beta' comp_def)

lemma aggregate_signatures_verifies:
  assumes wf: "verifier_wf vv" and complete: "bls_complete bls m"
    and dist: "distinct (map fst sigs)" and quorum: "vv_quorum vv (fst ` set sigs)"
    and each: "\<forall>(a, s) \<in> set sigs. vv_verify bls vv a m s = Inr ()"
  shows "\<exists>agg. aggregate_signatures bls vv sigs = Inr agg \<and> verify_multi_signatures bls vv m agg = Inr () \<and>
    set (aggregate_signature_authors vv agg) = fst ` set sigs"
proof -
  let ?as = "map fst sigs" and ?info = "\<lambda>i. validator_infos vv ! i"
  let ?ps = "map (\<lambda>(a, s). (vci_public_key (?info (index_of vv a)), s)) sigs"
  let ?mask = "signer_mask_of vv ?as"
  have mem: "set ?as \<subseteq> members vv" using quorum by (simp add: vv_quorum_def)
  note idx = index_of_member [OF wf]
  have "bls_verify_struct_signature bls (vci_public_key (?info (index_of vv a))) m s" if "(a, s) \<in> set sigs" for a s
  proof -
    have "a \<in> members vv" using mem that by force
    moreover have "vv_verify bls vv a m s = Inr ()" using each that by blast
    ultimately show ?thesis using idx(4) by (simp add: vv_verify_def split: if_splits)
  qed
  then have "\<forall>(pk, s) \<in> set ?ps. bls_verify_struct_signature bls pk m s" by auto
  moreover have "?ps \<noteq> []" using vvq.quorum_weight [OF wf quorum] by auto
  ultimately obtain s where s: "bls_aggregate_signatures bls (map snd ?ps) = Some s" "bls_decompresses bls s"
    and keys: "\<And>pks. mset pks = mset (map fst ?ps) \<Longrightarrow>
      \<exists>key. bls_aggregate_public_keys bls pks = Some key \<and> bls_verify_struct_signature bls key m s"
    using spec [OF complete [unfolded bls_complete_def], of ?ps] by blast
  have "map snd ?ps = map snd sigs" by (simp add: case_prod_beta')
  then have agg: "aggregate_signatures bls vv sigs = Inr (aggregate_signature_new ?mask (Some s))"
    using s(1) aggregate_signatures_mask [OF wf] mem by (simp only: set_map)
  let ?agg = "aggregate_signature_new ?mask (Some s)"
  have "validator_bitmask ?agg = ?mask" by (simp add: aggregate_signature_new_def)
  note checks = signer_mask_checks [OF wf dist _ this]
  have "mset (map (\<lambda>i. vci_public_key (?info i)) (iter_ones ?mask)) = mset (map fst ?ps)"
    using arg_cong [OF iter_ones_signer_mask [OF wf mem dist], of "image_mset (\<lambda>i. vci_public_key (?info i))"]
    by (simp add: comp_def case_prod_beta' image_mset.compositionality)
  from keys [OF this] obtain key where
    "bls_aggregate_public_keys bls (map (\<lambda>i. vci_public_key (?info i)) (iter_ones ?mask)) = Some key"
    "bls_verify_struct_signature bls key m s" by blast
  then have "verify_multi_signatures bls vv m ?agg = Inr ()"
    using checks(4,5) quorum s(2) signer_mask_of_facts(3) [OF wf mem]
    by (auto simp: verify_multi_signatures_def get_signers_bitvec_def aggregate_signature_new_def
        decompressed_sig_def lazy_decompress_def lazy_from_signature_def)
  then show ?thesis using agg checks(3) quorum by auto
qed


section \<open>Concrete validators and signatures\<close>

text \<open>
  Concrete inputs for the statements of the development: a set of four validators with one vote
  each, and a signature scheme in which the byte string \<open>[1]\<close> is the only valid signature.
\<close>

definition toy_bls :: "'m bls" where
  "toy_bls =
     \<lparr>bls_verify_struct_signature = (\<lambda>_ _ s. s = [1]),
      bls_aggregate_signatures = (\<lambda>ss. Some (if list_all (\<lambda>s. s = [1]) ss then [1] else [0])),
      bls_aggregate_public_keys = (\<lambda>_. Some []),
      bls_verify_aggregate = (\<lambda>s ms pks. s = [1] \<and> length ms = length pks),
      bls_decompresses = (\<lambda>_. True),
      bls_sign = (\<lambda>_ _. Some [1])\<rparr>"

lemma toy_bls_simps [simp]:
  "bls_verify_struct_signature toy_bls pk m s \<longleftrightarrow> s = [1]"
  "bls_aggregate_signatures toy_bls ss = Some (if list_all (\<lambda>s. s = [1]) ss then [1] else [0])"
  "bls_aggregate_public_keys toy_bls pks = Some []"
  "bls_verify_aggregate toy_bls s ms pks \<longleftrightarrow> s = [1] \<and> length ms = length pks"
  "bls_decompresses toy_bls s"
  "bls_sign toy_bls sk m = Some [1]"
  by (simp_all add: toy_bls_def)

definition ex_info :: "account_address \<Rightarrow> validator_consensus_info" where
  "ex_info a = \<lparr>vci_address = a, vci_public_key = [], vci_voting_power = 1\<rparr>"

definition ex_verifier :: validator_verifier where
  "ex_verifier = build_index (map ex_info [1, 2, 3, 4]) 3 4"

definition ex_mask :: bit_vec where
  "ex_mask = \<lparr>bv_inner = [0xE0]\<rparr>"

definition ex_aggregate :: aggregate_signature where
  "ex_aggregate = \<lparr>validator_bitmask = ex_mask, agg_sig = Some \<lparr>lazy_bytes = [1]\<rparr>\<rparr>"

lemma ex_verifier_infos [simp]: "validator_infos ex_verifier = map ex_info [1, 2, 3, 4]"
  by (simp add: ex_verifier_def build_index_def)

lemma ex_verifier_powers [simp]: "quorum_voting_power ex_verifier = 3" "total_voting_power ex_verifier = 4"
  by (simp_all add: ex_verifier_def build_index_def)

lemma ex_verifier_wf: "verifier_wf ex_verifier"
  by (simp add: verifier_wf_def validator_verifier_new_def sum_voting_power_infos_def ex_info_def
      checked_add_def checked_mul_def ex_verifier_def build_index_def unat_arith_simps)

lemma ex_members: "members ex_verifier = {1, 2, 3, 4}"
  by (simp add: members_def ex_info_def)

lemma ex_index: "address_to_validator_index ex_verifier =
   [1 \<mapsto> 0, 2 \<mapsto> 1, 3 \<mapsto> 2, 4 \<mapsto> 3]"
  by (rule ext) (simp add: ex_verifier_def build_index_def insert_index_def ex_info_def)

lemma ex_power: "a \<in> {1, 2, 3, 4} \<Longrightarrow> power_of ex_verifier a = 1"
  by (auto simp: power_of_def get_voting_power_def ex_index ex_info_def)

lemma ex_quorum: "vv_quorum ex_verifier {1, 2, 3}"
  by (simp add: vv_quorum_def ex_members ex_power)

lemma toy_bls_complete: "bls_complete toy_bls m"
  by (auto simp: bls_complete_def list_all_iff)

lemma ex_mask_ones: "iter_ones ex_mask = [0, 1, 2]"
  by code_simp

lemma ex_mask_voters: "check_num_of_voters 4 ex_mask = Inr ()"
  by code_simp

lemma ex_voting_power: "check_voting_power ex_verifier [1, 2, 3] True = Inr 3"
  by (simp add: check_voting_power_def sum_voting_power_def get_voting_power_def ex_index ex_info_def
      checked_add_def check_aggregated_voting_power_def ok_or_def)

lemma ex_aggregate_verifies: "verify_multi_signatures toy_bls ex_verifier m ex_aggregate = Inr ()"
  by (simp add: verify_multi_signatures_def ex_aggregate_def get_signers_bitvec_def verifier_len_def
      ex_mask_ones ex_mask_voters ex_info_def ex_voting_power decompressed_sig_def lazy_decompress_def
      ensure_def)

lemma ex_aggregate_authors: "aggregate_signature_authors ex_verifier ex_aggregate = [1, 2, 3]"
  by (simp add: aggregate_signature_authors_def ex_aggregate_def get_signers_bitvec_def ex_mask_ones
      List.map_filter_def ex_info_def)


section \<open>Properties\<close>

text \<open>C14. Two multi-signatures that the same verifier accepts, on whatever messages, have a common
  signer outside every set of members that holds at most a third of the voting power.\<close>

theorem verified_signatures_share_honest_signer:
  assumes "verifier_wf vv"
    and "verify_multi_signatures bls vv m s = Inr ()" "verify_multi_signatures bls' vv m' s' = Inr ()"
    and "B \<subseteq> members vv" "3 * sum (power_of vv) B \<le> sum (power_of vv) (members vv)"
  shows "\<exists>v. v \<in> set (aggregate_signature_authors vv s) \<inter> set (aggregate_signature_authors vv s') \<and> v \<notin> B"
  using vvq.quorum_intersection_honest [OF assms(1) verify_multi_signatures_quorum [OF assms(2,1)]
      verify_multi_signatures_quorum [OF assms(3,1)] assms(4,5)] by blast

theorem verified_signatures_share_honest_signer_witness:
  "\<exists>v. v \<in> set (aggregate_signature_authors ex_verifier ex_aggregate) \<inter>
        set (aggregate_signature_authors ex_verifier ex_aggregate) \<and> v \<notin> {1}"
  by (rule verified_signatures_share_honest_signer [of ex_verifier toy_bls True _ toy_bls False])
    (simp_all add: ex_verifier_wf ex_aggregate_verifies ex_members ex_power)

text \<open>C25. For distinct authors \<open>check_voting_power\<close> succeeds exactly when they are members with a
  quorum of the voting power; no sum of voting powers overflows.\<close>

theorem check_voting_power_iff_quorum:
  assumes "verifier_wf vv" "distinct authors"
  shows "(\<exists>p. check_voting_power vv authors True = Inr p) \<longleftrightarrow>
    set authors \<subseteq> members vv \<and> unat (total_voting_power vv) * 2 div 3 + 1 \<le> sum (power_of vv) (set authors)"
  unfolding check_voting_power_quorum [OF assms] vv_quorum_def verifier_totals(2) [OF assms(1)] ..

theorem check_voting_power_iff_quorum_witness:
  "(\<exists>p. check_voting_power ex_verifier [1, 2] True = Inr p) \<longleftrightarrow>
     set [1, 2] \<subseteq> members ex_verifier \<and>
     unat (total_voting_power ex_verifier) * 2 div 3 + 1 \<le> sum (power_of ex_verifier) (set [1, 2])"
  by (rule check_voting_power_iff_quorum) (simp_all add: ex_verifier_wf)

text \<open>C24. Valid signatures of distinct members with a quorum aggregate to a multi-signature that
  verifies and whose bit mask names exactly these signers.\<close>

theorem aggregate_then_verify:
  assumes "verifier_wf vv" "bls_complete bls m" "distinct (map fst sigs)" "vv_quorum vv (fst ` set sigs)"
    and "\<forall>(a, s) \<in> set sigs. vv_verify bls vv a m s = Inr ()"
  shows "\<exists>agg. aggregate_signatures bls vv sigs = Inr agg \<and> verify_multi_signatures bls vv m agg = Inr () \<and>
    set (aggregate_signature_authors vv agg) = fst ` set sigs"
  using assms by (rule aggregate_signatures_verifies)

theorem aggregate_then_verify_witness:
  "\<exists>agg. aggregate_signatures (toy_bls :: bool bls) ex_verifier [(3, [1]), (1, [1]), (2, [1])] = Inr agg \<and>
     verify_multi_signatures toy_bls ex_verifier True agg = Inr () \<and>
     set (aggregate_signature_authors ex_verifier agg) = fst ` set [(3, [1 :: u8]), (1, [1]), (2, [1])]"
proof (rule aggregate_then_verify)
  show "vv_quorum ex_verifier (fst ` set [(3, [1 :: u8]), (1, [1]), (2, [1])])"
    using ex_quorum by (simp add: insert_commute)
qed (auto simp: ex_verifier_wf toy_bls_complete vv_verify_def get_public_key_def ex_index)

end
