(* ===== verification/Signature_Aggregator.thy ===== *)
theory Signature_Aggregator
  imports Validator_Verifier
begin

text \<open>
  \<open>SignatureAggregator\<close> of \<open>types/src/ledger_info.rs\<close>: signatures are collected
  without verifying them, aggregated once they carry a quorum, and verified one by one only
  when the aggregate does not hold. The state of its methods pairs the aggregator with the
  verifier's eagerly verified set, which the methods extend.
\<close>

section \<open>Definitions\<close>

record 'm signature_aggregator =
  sa_data :: 'm
  sa_signatures :: "(account_address, signature_with_status) btree_map"

definition signature_aggregator_new :: "'m \<Rightarrow> 'm signature_aggregator" where
  "signature_aggregator_new data = \<lparr>sa_data = data, sa_signatures = []\<rparr>"

definition sa_add_signature ::
    "'m signature_aggregator \<Rightarrow> account_address \<Rightarrow> signature_with_status \<Rightarrow> 'm signature_aggregator" where
  "sa_add_signature sa validator signature =
     sa\<lparr>sa_signatures := btree_insert validator signature (sa_signatures sa)\<rparr>"

definition sa_contains_voter :: "'m signature_aggregator \<Rightarrow> account_address \<Rightarrow> bool" where
  "sa_contains_voter sa validator \<longleftrightarrow> btree_get (sa_signatures sa) validator \<noteq> None"

definition verified_voters :: "'m signature_aggregator \<Rightarrow> account_address list" where
  "verified_voters sa = map fst (filter (\<lambda>(_, s). verification_status s) (sa_signatures sa))"

definition unverified_voters :: "'m signature_aggregator \<Rightarrow> account_address list" where
  "unverified_voters sa = map fst (filter (\<lambda>(_, s). \<not> verification_status s) (sa_signatures sa))"

definition all_voters :: "'m signature_aggregator \<Rightarrow> account_address list" where
  "all_voters sa = map fst (sa_signatures sa)"

definition sa_check_voting_power ::
    "validator_verifier \<Rightarrow> 'm signature_aggregator \<Rightarrow> bool \<Rightarrow> verify_error + u128" where
  "sa_check_voting_power vv sa check_super_majority = check_voting_power vv (all_voters sa) check_super_majority"

fun decompress_all ::
    "'m bls \<Rightarrow> (account_address \<times> signature_with_status) list \<Rightarrow>
     verify_error + (account_address \<times> bls_signature) list" where
  "decompress_all bls [] = Inr []"
| "decompress_all bls ((voter, s) # rest) =
     rbind (map_err (\<lambda>_. FailedToAggregateSignature) (decompressed_signature bls s)) (\<lambda>sig.
     rbind (decompress_all bls rest) (\<lambda>sigs. Inr ((voter, sig) # sigs)))"

definition try_aggregate ::
    "'m bls \<Rightarrow> validator_verifier \<Rightarrow> 'm signature_aggregator \<Rightarrow> verify_error + aggregate_signature" where
  "try_aggregate bls vv sa =
     rbind (sa_check_voting_power vv sa True) (\<lambda>_.
     rbind (decompress_all bls (sa_signatures sa)) (\<lambda>all_signatures.
     aggregate_signatures bls vv all_signatures))"

definition sa_filter_invalid_signatures ::
    "'m bls \<Rightarrow> validator_verifier \<Rightarrow> 'm signature_aggregator \<times> verify_mode \<Rightarrow>
     'm signature_aggregator \<times> verify_mode" where
  "sa_filter_invalid_signatures bls vv state =
     (case state of (sa, mode) \<Rightarrow>
        case filter_invalid_signatures bls vv mode (sa_data sa) (sa_signatures sa) of
          (signatures, mode') \<Rightarrow> (sa\<lparr>sa_signatures := signatures\<rparr>, mode'))"

definition try_aggregate_and_verify ::
    "'m bls \<Rightarrow> validator_verifier \<Rightarrow> 'm signature_aggregator \<Rightarrow> verify_error + aggregate_signature" where
  "try_aggregate_and_verify bls vv sa =
     rbind (try_aggregate bls vv sa) (\<lambda>aggregated_sig.
     rbind (verify_multi_signatures bls vv (sa_data sa) aggregated_sig) (\<lambda>_.
     Inr aggregated_sig))"

definition aggregate_and_verify ::
    "'m bls \<Rightarrow> validator_verifier \<Rightarrow>
     ('m signature_aggregator \<times> verify_mode, verify_error, 'm \<times> aggregate_signature) method_result" where
  "aggregate_and_verify bls vv =
     sbind (sread (\<lambda>(sa, _). sa_check_voting_power vv sa True)) (\<lambda>_ state.
       case try_aggregate_and_verify bls vv (fst state) of
         Inr aggregated_sig \<Rightarrow> (Inr (sa_data (fst state), aggregated_sig), state)
       | Inl VerifyPanic \<Rightarrow> (Inl VerifyPanic, state)
       | Inl _ \<Rightarrow>
           (let state' = sa_filter_invalid_signatures bls vv state
            in (rbind (try_aggregate_and_verify bls vv (fst state')) (\<lambda>aggregated_sig.
                Inr (sa_data (fst state'), aggregated_sig)), state')))"

text \<open>The invariant of an aggregator: one signature per voter.\<close>

definition sa_wf :: "'m signature_aggregator \<Rightarrow> bool" where
  "sa_wf sa \<longleftrightarrow> btree_wf (sa_signatures sa)"

definition valid_voters :: "'m bls \<Rightarrow> validator_verifier \<Rightarrow> 'm signature_aggregator \<Rightarrow> account_address set" where
  "valid_voters bls vv sa =
     {a. \<exists>s. (a, s) \<in> set (sa_signatures sa) \<and> signature_holds bls vv (sa_data sa) a s}"

section \<open>Lemmas\<close>

lemma sa_wf_new [simp]: "sa_wf (signature_aggregator_new data)"
  by (simp add: sa_wf_def signature_aggregator_new_def)

lemma sa_wf_add: "sa_wf sa \<Longrightarrow> sa_wf (sa_add_signature sa a s)"
  by (simp add: sa_wf_def sa_add_signature_def btree_simps)

lemma all_voters_distinct: "sa_wf sa \<Longrightarrow> distinct (all_voters sa)"
  by (simp add: sa_wf_def all_voters_def btree_wf_distinct)

lemma fst_sa_filter:
  "sa_signatures (fst (sa_filter_invalid_signatures bls vv (sa, mode))) =
     map (\<lambda>(a, s). (a, set_verified s)) (filter (\<lambda>(a, s). signature_holds bls vv (sa_data sa) a s) (sa_signatures sa))"
  "sa_data (fst (sa_filter_invalid_signatures bls vv (sa, mode))) = sa_data sa"
  by (simp_all add: sa_filter_invalid_signatures_def filter_invalid_signatures_def)

lemma map_fst_set_verified: "map fst (map (\<lambda>(a, s). (a, set_verified s)) xs) = map fst xs"
  by (induction xs) auto

lemma sa_wf_filter: "sa_wf sa \<Longrightarrow> sa_wf (fst (sa_filter_invalid_signatures bls vv (sa, mode)))"
  using btree_wf_filter [of "sa_signatures sa"]
  by (simp add: sa_wf_def fst_sa_filter btree_wf_def map_fst_set_verified del: map_map)

lemma signature_holds_set_verified [simp]:
  "signature_holds bls vv m a (set_verified s) = signature_holds bls vv m a s"
  by (simp add: signature_holds_def decompressed_signature_def set_verified_def)

lemma all_voters_filter:
  "set (all_voters (fst (sa_filter_invalid_signatures bls vv (sa, mode)))) = valid_voters bls vv sa"
  by (force simp: all_voters_def fst_sa_filter valid_voters_def)



lemma decompress_all_holds:
  "\<forall>(a, s) \<in> set xs. signature_holds bls vv m a s \<Longrightarrow>
     \<exists>sigs. decompress_all bls xs = Inr sigs \<and> map fst sigs = map fst xs \<and>
       (\<forall>(a, s) \<in> set sigs. vv_verify bls vv a m s = Inr ())"
proof (induction xs)
  case (Cons x xs)
  obtain a s where x: "x = (a, s)" by (cases x)
  then obtain sig where "decompressed_signature bls s = Inr sig" "vv_verify bls vv a m sig = Inr ()"
    using Cons.prems by (auto simp: signature_holds_def split: sum.splits)
  then show ?case using Cons x by fastforce
qed simp

lemma try_aggregate_and_verify_Inr:
  "try_aggregate_and_verify bls vv sa = Inr agg \<Longrightarrow> verify_multi_signatures bls vv (sa_data sa) agg = Inr ()"
  by (auto simp: try_aggregate_and_verify_def result_simps)

text \<open>Signatures that hold one by one and carry a quorum aggregate to one that verifies.\<close>

lemma try_aggregate_and_verify_complete:
  assumes "verifier_wf vv" "bls_complete bls (sa_data sa)" "sa_wf sa"
    and holds: "\<forall>(a, s) \<in> set (sa_signatures sa). signature_holds bls vv (sa_data sa) a s"
    and quorum: "vv_quorum vv (set (all_voters sa))"
  shows "\<exists>agg. try_aggregate_and_verify bls vv sa = Inr agg"
proof -
  obtain sigs where sigs: "decompress_all bls (sa_signatures sa) = Inr sigs"
    "map fst sigs = all_voters sa" "\<forall>(a, s) \<in> set sigs. vv_verify bls vv a (sa_data sa) s = Inr ()"
    using decompress_all_holds [OF holds] by (auto simp: all_voters_def)
  obtain p where "check_voting_power vv (all_voters sa) True = Inr p"
    using check_voting_power_quorum [OF assms(1) all_voters_distinct [OF assms(3)]] quorum by blast
  moreover have "distinct (map fst sigs)" using sigs(2) all_voters_distinct [OF assms(3)] by simp
  moreover have "vv_quorum vv (fst ` set sigs)" using quorum by (simp flip: sigs(2))
  ultimately obtain agg where "check_voting_power vv (all_voters sa) True = Inr p"
    "aggregate_signatures bls vv sigs = Inr agg" "verify_multi_signatures bls vv (sa_data sa) agg = Inr ()"
    using aggregate_signatures_verifies [OF assms(1,2) _ _ sigs(3)] by blast
  then show ?thesis using sigs(1)
    by (simp add: try_aggregate_and_verify_def try_aggregate_def sa_check_voting_power_def)
qed

lemma decompress_all_no_panic: "decompress_all bls xs \<noteq> Inl VerifyPanic"
  by (induction bls xs rule: decompress_all.induct) (auto simp: error_simps)

lemma try_aggregate_and_verify_no_panic:
  assumes "verifier_wf vv" "sa_wf sa"
  shows "try_aggregate_and_verify bls vv sa \<noteq> Inl VerifyPanic"
  by (auto simp: try_aggregate_and_verify_def try_aggregate_def sa_check_voting_power_def error_simps
      check_voting_power_no_panic [OF assms(1) all_voters_distinct [OF assms(2)]] decompress_all_no_panic
      aggregate_signatures_no_panic verify_multi_signatures_no_panic [OF assms(1)])

text \<open>Below a quorum nothing is tried; otherwise only a failure of the first attempt changes the state.\<close>

lemma aggregate_and_verify_eq:
  assumes "verifier_wf vv" "sa_wf sa"
  shows "aggregate_and_verify bls vv (sa, mode) =
    (case sa_check_voting_power vv sa True of
       Inl e \<Rightarrow> (Inl e, sa, mode)
     | Inr _ \<Rightarrow>
         (case try_aggregate_and_verify bls vv sa of
            Inr agg \<Rightarrow> (Inr (sa_data sa, agg), sa, mode)
          | Inl _ \<Rightarrow>
              let state' = sa_filter_invalid_signatures bls vv (sa, mode)
              in (rbind (try_aggregate_and_verify bls vv (fst state')) (\<lambda>agg. Inr (sa_data sa, agg)), state')))"
  using try_aggregate_and_verify_no_panic [OF assms, of bls]
  by (simp add: aggregate_and_verify_def sbind_def sread_def fst_sa_filter Let_def split: sum.split verify_error.split)

lemma aggregate_and_verify_no_panic:
  assumes "verifier_wf vv" "sa_wf sa"
  shows "fst (aggregate_and_verify bls vv (sa, mode)) \<noteq> Inl VerifyPanic"
  using check_voting_power_no_panic [OF assms(1) all_voters_distinct [OF assms(2)]]
    try_aggregate_and_verify_no_panic [OF assms(1) sa_wf_filter [OF assms(2)]]
  by (auto simp: aggregate_and_verify_eq [OF assms] sa_check_voting_power_def Let_def error_simps split: sum.split)

lemma aggregate_and_verify_Inr:
  assumes "aggregate_and_verify bls vv (sa, mode) = (Inr (data, agg), state')"
  shows "data = sa_data sa" "verify_multi_signatures bls vv (sa_data sa) agg = Inr ()"
  using assms
  by (auto simp: aggregate_and_verify_def result_simps fst_sa_filter Let_def
      dest!: try_aggregate_and_verify_Inr split: sum.splits verify_error.splits)

lemma aggregate_and_verify_live:
  assumes "verifier_wf vv" "bls_complete bls (sa_data sa)" "sa_wf sa"
    and known: "set (all_voters sa) \<subseteq> members vv"
    and quorum: "vv_quorum vv (valid_voters bls vv sa)"
  shows "\<exists>agg state'. aggregate_and_verify bls vv (sa, mode) = (Inr (sa_data sa, agg), state')"
proof -
  let ?state = "sa_filter_invalid_signatures bls vv (sa, mode)"
  have sub: "valid_voters bls vv sa \<subseteq> set (all_voters sa)"
    by (force simp: valid_voters_def all_voters_def)
  have "sum (power_of vv) (valid_voters bls vv sa) \<le> sum (power_of vv) (set (all_voters sa))"
    by (rule sum_mono2 [OF _ sub]) auto
  then have "vv_quorum vv (set (all_voters sa))" using quorum known by (simp add: vv_quorum_def)
  then obtain p where p: "sa_check_voting_power vv sa True = Inr p"
    using check_voting_power_quorum [OF assms(1) all_voters_distinct [OF assms(3)]]
    by (auto simp: sa_check_voting_power_def)
  have "\<exists>agg. try_aggregate_and_verify bls vv (fst ?state) = Inr agg"
    by (rule try_aggregate_and_verify_complete)
      (use assms sa_wf_filter [of sa bls vv mode] in \<open>auto simp: fst_sa_filter all_voters_filter\<close>)
  then show ?thesis using p
    by (auto simp: aggregate_and_verify_eq [OF assms(1,3)] Let_def split: sum.splits)
qed



section \<open>Properties\<close>

text \<open>C21. An aggregator never returns a certificate that does not verify, and it returns one as soon
  as the voters with a valid signature are a quorum, whatever the other voters have sent.\<close>

theorem aggregate_and_verify_correct:
  assumes "verifier_wf vv" "bls_complete bls (sa_data sa)" "sa_wf sa" "set (all_voters sa) \<subseteq> members vv"
    and "vv_quorum vv (valid_voters bls vv sa)"
  shows "\<exists>agg state'. aggregate_and_verify bls vv (sa, mode) = (Inr (sa_data sa, agg), state') \<and>
    verify_multi_signatures bls vv (sa_data sa) agg = Inr ()"
  using aggregate_and_verify_live [OF assms] aggregate_and_verify_Inr by metis

definition ex_aggregator :: "bool signature_aggregator" where
  "ex_aggregator =
     \<lparr>sa_data = True, sa_signatures = map (\<lambda>(a, s). (a, sws_from s)) [(1, [1]), (2, [1]), (3, [1]), (4, [0])]\<rparr>"

lemma ex_aggregator_voters:
  "sa_wf ex_aggregator" "set (all_voters ex_aggregator) = {1, 2, 3, 4}" "valid_voters toy_bls ex_verifier ex_aggregator = {1, 2, 3}"
  by (auto simp: ex_aggregator_def sa_wf_def btree_wf_def all_voters_def valid_voters_def signature_holds_def
      decompressed_signature_def lazy_decompress_def sws_from_def lazy_from_signature_def vv_verify_def
      get_public_key_def ex_index)


theorem aggregate_and_verify_correct_witness:
  "\<exists>agg state'. aggregate_and_verify toy_bls ex_verifier (ex_aggregator, verify_mode_default) =
       (Inr (sa_data ex_aggregator, agg), state') \<and>
     verify_multi_signatures toy_bls ex_verifier (sa_data ex_aggregator) agg = Inr ()"
  by (rule aggregate_and_verify_correct)
    (simp_all add: ex_verifier_wf toy_bls_complete ex_aggregator_voters ex_members ex_quorum)



end
