(* ===== verification/Ledger_Info.thy ===== *)
theory Ledger_Info
  imports Signature_Aggregator
begin

text \<open>
  Block infos, epoch states and ledger infos with their signatures:
  \<open>types/src/block_info.rs\<close>, \<open>types/src/epoch_state.rs\<close> and
  \<open>types/src/ledger_info.rs\<close>.
\<close>

section \<open>Errors\<close>

text \<open>
  The errors of the functions that return \<open>anyhow::Result\<close>: a message, a verification
  error converted by \<open>?\<close>, a context put around an error, and a panic.
\<close>

datatype anyhow_error =
    Msg string
  | FromVerifyError verify_error
  | WithContext string anyhow_error
  | Panicked string

definition with_context :: "string \<Rightarrow> anyhow_error + 'a \<Rightarrow> anyhow_error + 'a" where
  "with_context c m = map_err (WithContext c) m"

definition into_anyhow :: "verify_error + 'a \<Rightarrow> anyhow_error + 'a" where
  "into_anyhow m = map_err FromVerifyError m"

fun is_panic :: "anyhow_error \<Rightarrow> bool" where
  "is_panic (Panicked _) = True"
| "is_panic (FromVerifyError e) \<longleftrightarrow> e = VerifyPanic"
| "is_panic (WithContext _ e) = is_panic e"
| "is_panic (Msg _) = False"

text \<open>
  The results of the two closures of a \<open>rayon::join\<close>, both propagated with \<open>?\<close>, the first
  one first. A panic of either closure is a panic of the join.
\<close>

definition rayon_join :: "anyhow_error + unit \<Rightarrow> anyhow_error + unit \<Rightarrow> anyhow_error + unit" where
  "rayon_join r1 r2 =
     (case (r1, r2) of
        (Inl e1, Inl e2) \<Rightarrow> if is_panic e2 \<and> \<not> is_panic e1 then Inl e2 else Inl e1
      | _ \<Rightarrow> rbind r1 (\<lambda>_. r2))"

lemma rayon_join_eq_Inr_iff [result_simps]: "rayon_join r1 r2 = Inr u \<longleftrightarrow> r1 = Inr () \<and> r2 = Inr ()"
  by (auto simp: rayon_join_def result_simps split: sum.splits)

lemma rayon_join_Inr [simp]: "rayon_join (Inr ()) r2 = r2"
  by (cases r2) (simp_all add: rayon_join_def rbind_def)

lemma with_context_eq_Inr_iff [result_simps]: "with_context c m = Inr a \<longleftrightarrow> m = Inr a"
  by (simp add: with_context_def result_simps)

lemma into_anyhow_eq_Inr_iff [result_simps]: "into_anyhow m = Inr a \<longleftrightarrow> m = Inr a"
  by (simp add: into_anyhow_def result_simps)

lemma with_context_Inr [simp]: "with_context c (Inr a) = Inr a"
  by (simp add: with_context_def)

lemma into_anyhow_Inr [simp]: "into_anyhow (Inr a) = Inr a"
  by (simp add: into_anyhow_def)

section \<open>Literal hashes\<close>

definition create_literal_hash :: "string \<Rightarrow> hash_value" where
  "create_literal_hash s =
     foldl (\<lambda>acc b. acc * 256 + b) 0
       (map (\<lambda>c. word_of_nat (of_char c)) s @ replicate (32 - length s) 0)"

definition ACCUMULATOR_PLACEHOLDER_HASH :: hash_value where
  "ACCUMULATOR_PLACEHOLDER_HASH = create_literal_hash ''ACCUMULATOR_PLACEHOLDER_HASH''"

section \<open>Epoch state and block info\<close>

type_synonym round_t = u64
type_synonym version = u64

record epoch_state =
  es_epoch :: u64
  es_verifier :: validator_verifier

definition epoch_state_new :: "u64 \<Rightarrow> validator_verifier \<Rightarrow> epoch_state" where
  "epoch_state_new epoch verifier = \<lparr>es_epoch = epoch, es_verifier = verifier\<rparr>"

definition epoch_state_empty :: epoch_state where
  "epoch_state_empty = \<lparr>es_epoch = 0, es_verifier = build_index [] 0 0\<rparr>"

record block_info =
  bi_epoch :: u64
  bi_round :: round_t
  bi_id :: hash_value
  bi_executed_state_id :: hash_value
  bi_version :: version
  bi_timestamp_usecs :: u64
  bi_next_epoch_state :: "epoch_state option"

definition GENESIS_EPOCH :: u64 where "GENESIS_EPOCH = 0"
definition GENESIS_ROUND :: round_t where "GENESIS_ROUND = 0"
definition GENESIS_VERSION :: version where "GENESIS_VERSION = 0"
definition GENESIS_TIMESTAMP_USECS :: u64 where "GENESIS_TIMESTAMP_USECS = 0"

definition block_info_new ::
    "u64 \<Rightarrow> round_t \<Rightarrow> hash_value \<Rightarrow> hash_value \<Rightarrow> version \<Rightarrow> u64 \<Rightarrow> epoch_state option \<Rightarrow> block_info" where
  "block_info_new epoch rnd bid executed_state_id vers timestamp_usecs next_epoch_state =
     \<lparr>bi_epoch = epoch, bi_round = rnd, bi_id = bid, bi_executed_state_id = executed_state_id,
      bi_version = vers, bi_timestamp_usecs = timestamp_usecs, bi_next_epoch_state = next_epoch_state\<rparr>"

definition block_info_empty :: block_info where
  "block_info_empty =
     \<lparr>bi_epoch = 0, bi_round = 0, bi_id = 0, bi_executed_state_id = 0, bi_version = 0,
      bi_timestamp_usecs = 0, bi_next_epoch_state = None\<rparr>"

definition block_info_is_empty :: "block_info \<Rightarrow> bool" where
  "block_info_is_empty bi \<longleftrightarrow> bi = block_info_empty"

definition block_info_genesis :: "hash_value \<Rightarrow> validator_set \<Rightarrow> block_info option" where
  "block_info_genesis genesis_state_root_hash vs =
     map_option
       (\<lambda>verifier.
          \<lparr>bi_epoch = GENESIS_EPOCH, bi_round = GENESIS_ROUND, bi_id = 0,
           bi_executed_state_id = genesis_state_root_hash, bi_version = GENESIS_VERSION,
           bi_timestamp_usecs = GENESIS_TIMESTAMP_USECS,
           bi_next_epoch_state = Some \<lparr>es_epoch = 1, es_verifier = verifier\<rparr>\<rparr>)
       (verifier_from_validator_set vs)"

definition bi_next_block_epoch :: "block_info \<Rightarrow> u64" where
  "bi_next_block_epoch bi = (case bi_next_epoch_state bi of None \<Rightarrow> bi_epoch bi | Some e \<Rightarrow> es_epoch e)"

definition has_reconfiguration :: "block_info \<Rightarrow> bool" where
  "has_reconfiguration bi \<longleftrightarrow> bi_next_epoch_state bi \<noteq> None"

definition allow_timestamp_change :: "block_info \<Rightarrow> u64 \<Rightarrow> bool" where
  "allow_timestamp_change bi timestamp \<longleftrightarrow> has_reconfiguration bi \<and> bi_timestamp_usecs bi \<ge> timestamp"

text \<open>\<open>None\<close> is the failed assertion.\<close>

definition change_timestamp :: "block_info \<Rightarrow> u64 \<Rightarrow> block_info option" where
  "change_timestamp bi timestamp =
     (if allow_timestamp_change bi timestamp then Some (bi\<lparr>bi_timestamp_usecs := timestamp\<rparr>) else None)"

definition match_ordered_only :: "block_info \<Rightarrow> block_info \<Rightarrow> bool" where
  "match_ordered_only bi executed \<longleftrightarrow>
     bi_epoch bi = bi_epoch executed \<and> bi_round bi = bi_round executed \<and> bi_id bi = bi_id executed \<and>
     (bi_timestamp_usecs bi = bi_timestamp_usecs executed \<or>
      bi_timestamp_usecs bi > bi_timestamp_usecs executed \<and> has_reconfiguration executed)"

definition is_ordered_only :: "block_info \<Rightarrow> bool" where
  "is_ordered_only bi \<longleftrightarrow>
     bi \<noteq> block_info_empty \<and> bi_next_epoch_state bi = None \<and>
     bi_executed_state_id bi = ACCUMULATOR_PLACEHOLDER_HASH \<and> bi_version bi = 0"

section \<open>Ledger info\<close>

record ledger_info =
  li_commit_info :: block_info
  li_consensus_data_hash :: hash_value

definition ledger_info_new :: "block_info \<Rightarrow> hash_value \<Rightarrow> ledger_info" where
  "ledger_info_new commit_info consensus_data_hash =
     \<lparr>li_commit_info = commit_info, li_consensus_data_hash = consensus_data_hash\<rparr>"

definition ledger_info_dummy :: ledger_info where
  "ledger_info_dummy = \<lparr>li_commit_info = block_info_empty, li_consensus_data_hash = 0\<rparr>"

definition ledger_info_is_dummy :: "ledger_info \<Rightarrow> bool" where
  "ledger_info_is_dummy li \<longleftrightarrow> block_info_is_empty (li_commit_info li) \<and> li_consensus_data_hash li = 0"

definition ledger_info_genesis :: "hash_value \<Rightarrow> validator_set \<Rightarrow> ledger_info option" where
  "ledger_info_genesis genesis_state_root_hash vs =
     map_option (\<lambda>bi. ledger_info_new bi 0) (block_info_genesis genesis_state_root_hash vs)"

definition li_epoch :: "ledger_info \<Rightarrow> u64" where "li_epoch li = bi_epoch (li_commit_info li)"
definition li_next_block_epoch :: "ledger_info \<Rightarrow> u64" where "li_next_block_epoch li = bi_next_block_epoch (li_commit_info li)"
definition li_round :: "ledger_info \<Rightarrow> round_t" where "li_round li = bi_round (li_commit_info li)"
definition consensus_block_id :: "ledger_info \<Rightarrow> hash_value" where "consensus_block_id li = bi_id (li_commit_info li)"
definition transaction_accumulator_hash :: "ledger_info \<Rightarrow> hash_value" where
  "transaction_accumulator_hash li = bi_executed_state_id (li_commit_info li)"
definition li_version :: "ledger_info \<Rightarrow> version" where "li_version li = bi_version (li_commit_info li)"
definition li_timestamp_usecs :: "ledger_info \<Rightarrow> u64" where "li_timestamp_usecs li = bi_timestamp_usecs (li_commit_info li)"
definition li_next_epoch_state :: "ledger_info \<Rightarrow> epoch_state option" where
  "li_next_epoch_state li = bi_next_epoch_state (li_commit_info li)"
definition ends_epoch :: "ledger_info \<Rightarrow> bool" where "ends_epoch li \<longleftrightarrow> li_next_epoch_state li \<noteq> None"

definition set_consensus_data_hash :: "ledger_info \<Rightarrow> hash_value \<Rightarrow> ledger_info" where
  "set_consensus_data_hash li h = li\<lparr>li_consensus_data_hash := h\<rparr>"

section \<open>Ledger info with signatures\<close>

text \<open>The wrapper \<open>LedgerInfoWithSignatures\<close> has the one variant \<open>V0\<close>.\<close>

record ledger_info_with_signatures =
  lis_ledger_info :: ledger_info
  lis_signatures :: aggregate_signature

definition lis_new :: "ledger_info \<Rightarrow> aggregate_signature \<Rightarrow> ledger_info_with_signatures" where
  "lis_new li signatures = \<lparr>lis_ledger_info = li, lis_signatures = signatures\<rparr>"

definition lis_dummy :: ledger_info_with_signatures where
  "lis_dummy = \<lparr>lis_ledger_info = ledger_info_dummy, lis_signatures = aggregate_signature_empty\<rparr>"

definition lis_genesis :: "hash_value \<Rightarrow> validator_set \<Rightarrow> ledger_info_with_signatures option" where
  "lis_genesis genesis_state_root_hash vs =
     map_option (\<lambda>li. lis_new li aggregate_signature_empty) (ledger_info_genesis genesis_state_root_hash vs)"

definition lis_commit_info :: "ledger_info_with_signatures \<Rightarrow> block_info" where
  "lis_commit_info s = li_commit_info (lis_ledger_info s)"

definition get_voters :: "ledger_info_with_signatures \<Rightarrow> account_address list \<Rightarrow> account_address list" where
  "get_voters s validator_addresses = get_signers_addresses (lis_signatures s) validator_addresses"

definition lis_get_num_voters :: "ledger_info_with_signatures \<Rightarrow> nat" where
  "lis_get_num_voters s = get_num_voters (lis_signatures s)"

definition verify_signatures ::
    "ledger_info bls \<Rightarrow> validator_verifier \<Rightarrow> ledger_info_with_signatures \<Rightarrow> verify_error + unit" where
  "verify_signatures bls validator s = verify_multi_signatures bls validator (lis_ledger_info s) (lis_signatures s)"

definition lis_check_voting_power ::
    "validator_verifier \<Rightarrow> ledger_info_with_signatures \<Rightarrow> verify_error + u128" where
  "lis_check_voting_power validator s =
     check_voting_power validator (get_voters s (get_ordered_account_addresses validator)) True"

record ledger_info_with_verified_signatures =
  livs_ledger_info :: ledger_info
  livs_partial_sigs :: partial_signatures

definition livs_new :: "ledger_info \<Rightarrow> partial_signatures \<Rightarrow> ledger_info_with_verified_signatures" where
  "livs_new li signatures = \<lparr>livs_ledger_info = li, livs_partial_sigs = signatures\<rparr>"

definition livs_remove_signature ::
    "ledger_info_with_verified_signatures \<Rightarrow> account_address \<Rightarrow> ledger_info_with_verified_signatures" where
  "livs_remove_signature s validator =
     s\<lparr>livs_partial_sigs := snd (ps_remove_signature (livs_partial_sigs s) validator)\<rparr>"

definition livs_add_signature ::
    "ledger_info_with_verified_signatures \<Rightarrow> account_address \<Rightarrow> bls_signature \<Rightarrow>
     ledger_info_with_verified_signatures" where
  "livs_add_signature s validator signature =
     s\<lparr>livs_partial_sigs := ps_add_signature (livs_partial_sigs s) validator signature\<rparr>"

definition livs_aggregate_signatures ::
    "ledger_info bls \<Rightarrow> validator_verifier \<Rightarrow> ledger_info_with_verified_signatures \<Rightarrow>
     verify_error + ledger_info_with_signatures" where
  "livs_aggregate_signatures bls verifier s =
     rbind (aggregate_signatures bls verifier (ps_signatures (livs_partial_sigs s))) (\<lambda>aggregated_sig.
     Inr (lis_new (livs_ledger_info s) aggregated_sig))"

section \<open>Lemmas\<close>

text \<open>
  \<open>get_voters\<close> and \<open>aggregate_signature_authors\<close> read the same signers off a mask whose
  positions are all taken.
\<close>

lemma get_signers_addresses_nth:
  assumes "length as < 2 ^ 16"
  shows "set (get_signers_addresses s as) = {as ! i | i. i < length as \<and> i \<in> bitvec_positions (validator_bitmask s)}"
proof -
  have "unat (word_of_nat i :: u16) = i" if "i < length as" for i
    by (rule unat_of_nat_less) (use that assms in simp)
  then show ?thesis
    by (fastforce simp: get_signers_addresses_def map_filter_def is_set_iff bitvec_positions_def
        in_set_enumerate_eq image_iff split: if_splits)
qed

lemma match_ordered_only_change_timestamp:
  "change_timestamp bi t = Some bi' \<Longrightarrow> match_ordered_only bi bi'"
  by (auto simp: change_timestamp_def allow_timestamp_change_def match_ordered_only_def
      has_reconfiguration_def split: if_splits)

lemma verify_signatures_quorum:
  assumes "verify_signatures bls vv s = Inr u" "verifier_wf vv"
  shows "vv_quorum vv (set (aggregate_signature_authors vv (lis_signatures s)))"
  using assms unfolding verify_signatures_def by (rule verify_multi_signatures_quorum)

end
