(* ===== verification/Quorum_Cert.thy ===== *)
theory Quorum_Cert
  imports Ledger_Info
begin

text \<open>
  Vote data, quorum certificates and wrapped ledger infos:
  \<open>consensus/consensus-types/src/vote_data.rs\<close>, \<open>quorum_cert.rs\<close> and
  \<open>wrapped_ledger_info.rs\<close>, with the signer of \<open>types/src/validator_signer.rs\<close>. The
  hash of vote data is a parameter.
\<close>

section \<open>Vote data\<close>

record vote_data =
  vd_proposed :: block_info
  vd_parent :: block_info

definition vote_data_new :: "block_info \<Rightarrow> block_info \<Rightarrow> vote_data" where
  "vote_data_new proposed parent = \<lparr>vd_proposed = proposed, vd_parent = parent\<rparr>"

definition vote_data_dummy :: vote_data where
  "vote_data_dummy = \<lparr>vd_proposed = block_info_empty, vd_parent = block_info_empty\<rparr>"

definition vote_data_verify :: "vote_data \<Rightarrow> anyhow_error + unit" where
  "vote_data_verify vd =
     rbind (ensure (bi_epoch (vd_parent vd) = bi_epoch (vd_proposed vd))
              (Msg ''Parent and proposed epochs do not match'')) (\<lambda>_.
     rbind (ensure (bi_round (vd_parent vd) < bi_round (vd_proposed vd))
              (Msg ''Proposed round is less than parent round'')) (\<lambda>_.
     rbind (ensure (bi_timestamp_usecs (vd_parent vd) \<le> bi_timestamp_usecs (vd_proposed vd))
              (Msg ''Proposed happened before parent'')) (\<lambda>_.
     ensure (bi_version (vd_proposed vd) = 0 \<or> bi_version (vd_parent vd) \<le> bi_version (vd_proposed vd))
       (Msg ''Proposed version is less than parent version''))))"

definition is_for_nil :: "vote_data \<Rightarrow> bool" where
  "is_for_nil vd \<longleftrightarrow> bi_timestamp_usecs (vd_proposed vd) = bi_timestamp_usecs (vd_parent vd)"

section \<open>Messages, hashes and signers\<close>

record timeout_signing_repr =
  tsr_epoch :: u64
  tsr_round :: round_t
  tsr_hqc_round :: round_t

text \<open>
  The cryptography a validator uses: BLS at the types of message that quorums sign, and the
  hash of vote data.
\<close>

record crypto =
  cr_ledger_info :: "ledger_info bls"
  cr_timeout :: "timeout_signing_repr bls"
  cr_vote_data_hash :: "vote_data \<Rightarrow> hash_value"

record validator_signer =
  vs_author :: account_address
  vs_private_key :: private_key

datatype signing_error = SigningError

definition signer_sign :: "'m bls \<Rightarrow> validator_signer \<Rightarrow> 'm \<Rightarrow> signing_error + bls_signature" where
  "signer_sign bls signer message = ok_or SigningError (bls_sign bls (vs_private_key signer) message)"

section \<open>Quorum certificates\<close>

record quorum_cert =
  qc_vote_data :: vote_data
  qc_signed_ledger_info :: ledger_info_with_signatures

definition quorum_cert_new :: "vote_data \<Rightarrow> ledger_info_with_signatures \<Rightarrow> quorum_cert" where
  "quorum_cert_new vd signed_li = \<lparr>qc_vote_data = vd, qc_signed_ledger_info = signed_li\<rparr>"

definition certified_block :: "quorum_cert \<Rightarrow> block_info" where
  "certified_block qc = vd_proposed (qc_vote_data qc)"

definition parent_block :: "quorum_cert \<Rightarrow> block_info" where
  "parent_block qc = vd_parent (qc_vote_data qc)"

definition qc_ledger_info :: "quorum_cert \<Rightarrow> ledger_info" where
  "qc_ledger_info qc = lis_ledger_info (qc_signed_ledger_info qc)"

definition qc_commit_info :: "quorum_cert \<Rightarrow> block_info" where
  "qc_commit_info qc = li_commit_info (qc_ledger_info qc)"

definition qc_ends_epoch :: "quorum_cert \<Rightarrow> bool" where
  "qc_ends_epoch qc \<longleftrightarrow> ends_epoch (qc_ledger_info qc)"

text \<open>\<open>None\<close> is one of the two \<open>expect\<close> panics.\<close>

definition certificate_for_genesis_from_ledger_info ::
    "crypto \<Rightarrow> ledger_info \<Rightarrow> hash_value \<Rightarrow> quorum_cert option" where
  "certificate_for_genesis_from_ledger_info cr li genesis_id =
     Option.bind (checked_add (li_epoch li) 1) (\<lambda>epoch.
     let ancestor = block_info_new epoch 0 genesis_id (transaction_accumulator_hash li)
                      (li_version li) (li_timestamp_usecs li) None;
         vd = vote_data_new ancestor ancestor
     in Option.bind (li_next_epoch_state li) (\<lambda>es.
        Some (quorum_cert_new vd
                (lis_new (ledger_info_new ancestor (cr_vote_data_hash cr vd))
                   (aggregate_signature_new (with_num_bits (word_of_nat (verifier_len (es_verifier es)))) None)))))"

definition quorum_cert_verify :: "crypto \<Rightarrow> validator_verifier \<Rightarrow> quorum_cert \<Rightarrow> anyhow_error + unit" where
  "quorum_cert_verify cr validator qc =
     rbind (ensure (li_consensus_data_hash (qc_ledger_info qc) = cr_vote_data_hash cr (qc_vote_data qc))
              (Msg ''Quorum Cert's hash mismatch LedgerInfo'')) (\<lambda>_.
     if bi_round (certified_block qc) = 0 then
       rbind (ensure (parent_block qc = certified_block qc)
                (Msg ''Genesis QC has inconsistent parent block with certified block'')) (\<lambda>_.
       rbind (ensure (certified_block qc = li_commit_info (qc_ledger_info qc))
                (Msg ''Genesis QC has inconsistent commit block with certified block'')) (\<lambda>_.
       ensure (lis_get_num_voters (qc_signed_ledger_info qc) = 0)
         (Msg ''Genesis QC should not carry signatures'')))
     else
       rbind (with_context ''Fail to verify QuorumCert''
                (into_anyhow (verify_signatures (cr_ledger_info cr) validator (qc_signed_ledger_info qc)))) (\<lambda>_.
       vote_data_verify (qc_vote_data qc)))"

definition create_merged_with_executed_state ::
    "quorum_cert \<Rightarrow> ledger_info_with_signatures \<Rightarrow> anyhow_error + quorum_cert" where
  "create_merged_with_executed_state qc executed_ledger_info =
     rbind (ensure (match_ordered_only (qc_commit_info qc) (lis_commit_info executed_ledger_info))
              (Msg ''Block info from QC and executed LI need to match'')) (\<lambda>_.
     Inr (quorum_cert_new (qc_vote_data qc) executed_ledger_info))"

section \<open>Wrapped ledger infos\<close>

record wrapped_ledger_info =
  wli_vote_data :: vote_data
  wli_signed_ledger_info :: ledger_info_with_signatures

definition wrapped_ledger_info_new :: "vote_data \<Rightarrow> ledger_info_with_signatures \<Rightarrow> wrapped_ledger_info" where
  "wrapped_ledger_info_new vd signed_li = \<lparr>wli_vote_data = vd, wli_signed_ledger_info = signed_li\<rparr>"

definition into_wrapped_ledger_info :: "quorum_cert \<Rightarrow> wrapped_ledger_info" where
  "into_wrapped_ledger_info qc = wrapped_ledger_info_new (qc_vote_data qc) (qc_signed_ledger_info qc)"

definition wli_epoch :: "wrapped_ledger_info \<Rightarrow> u64" where
  "wli_epoch w = li_epoch (lis_ledger_info (wli_signed_ledger_info w))"

definition wli_commit_info :: "wrapped_ledger_info \<Rightarrow> block_info" where
  "wli_commit_info w = li_commit_info (lis_ledger_info (wli_signed_ledger_info w))"

definition wli_ends_epoch :: "wrapped_ledger_info \<Rightarrow> bool" where
  "wli_ends_epoch w \<longleftrightarrow> ends_epoch (lis_ledger_info (wli_signed_ledger_info w))"

definition verify_consensus_data_hash :: "crypto \<Rightarrow> wrapped_ledger_info \<Rightarrow> anyhow_error + unit" where
  "verify_consensus_data_hash cr w =
     ensure (li_consensus_data_hash (lis_ledger_info (wli_signed_ledger_info w)) =
               cr_vote_data_hash cr (wli_vote_data w))
       (Msg ''WrappedLedgerInfo's vote data hash mismatch LedgerInfo'')"

definition wli_certified_block :: "crypto \<Rightarrow> wrapped_ledger_info \<Rightarrow> bool \<Rightarrow> anyhow_error + block_info" where
  "wli_certified_block cr w order_vote_enabled =
     rbind (ensure (\<not> order_vote_enabled)
              (Msg ''wrapped_ledger_info.certified_block should not be called when order votes are enabled'')) (\<lambda>_.
     rbind (verify_consensus_data_hash cr w) (\<lambda>_.
     Inr (vd_proposed (wli_vote_data w))))"

definition wrapped_ledger_info_verify ::
    "crypto \<Rightarrow> validator_verifier \<Rightarrow> wrapped_ledger_info \<Rightarrow> anyhow_error + unit" where
  "wrapped_ledger_info_verify cr validator w =
     (if li_round (lis_ledger_info (wli_signed_ledger_info w)) = 0 then
        ensure (lis_get_num_voters (wli_signed_ledger_info w) = 0)
          (Msg ''Genesis QC should not carry signatures'')
      else
        with_context ''Fail to verify WrappedLedgerInfo''
          (into_anyhow (verify_signatures (cr_ledger_info cr) validator (wli_signed_ledger_info w))))"

definition wli_create_merged_with_executed_state ::
    "wrapped_ledger_info \<Rightarrow> ledger_info_with_signatures \<Rightarrow> anyhow_error + wrapped_ledger_info" where
  "wli_create_merged_with_executed_state w executed_ledger_info =
     rbind (ensure (match_ordered_only (wli_commit_info w) (lis_commit_info executed_ledger_info))
              (Msg ''Block info from QC and executed LI need to match'')) (\<lambda>_.
     Inr (wrapped_ledger_info_new (wli_vote_data w) executed_ledger_info))"

definition into_quorum_cert :: "crypto \<Rightarrow> wrapped_ledger_info \<Rightarrow> bool \<Rightarrow> anyhow_error + quorum_cert" where
  "into_quorum_cert cr w order_vote_enabled =
     rbind (ensure (\<not> order_vote_enabled)
              (Msg ''wrapped_ledger_info.into_quorum_cert should not be called when order votes are enabled'')) (\<lambda>_.
     rbind (verify_consensus_data_hash cr w) (\<lambda>_.
     Inr (quorum_cert_new (wli_vote_data w) (wli_signed_ledger_info w))))"

section \<open>Lemmas\<close>

lemma vote_data_verify_Inr [result_simps]:
  "vote_data_verify vd = Inr u \<longleftrightarrow>
     bi_epoch (vd_parent vd) = bi_epoch (vd_proposed vd) \<and> bi_round (vd_parent vd) < bi_round (vd_proposed vd) \<and>
     bi_timestamp_usecs (vd_parent vd) \<le> bi_timestamp_usecs (vd_proposed vd) \<and>
     (bi_version (vd_proposed vd) = 0 \<or> bi_version (vd_parent vd) \<le> bi_version (vd_proposed vd))"
  by (simp add: vote_data_verify_def result_simps)

lemma quorum_cert_verify_hash:
  "quorum_cert_verify cr vv qc = Inr u \<Longrightarrow>
     li_consensus_data_hash (qc_ledger_info qc) = cr_vote_data_hash cr (qc_vote_data qc)"
  by (simp add: quorum_cert_verify_def result_simps split: if_splits)

text \<open>Above round 0 a verified certificate has the signatures of a quorum, and its parent is older.\<close>

lemma quorum_cert_verify_signed:
  assumes "quorum_cert_verify cr vv qc = Inr u" "bi_round (certified_block qc) \<noteq> 0"
  shows "verify_signatures (cr_ledger_info cr) vv (qc_signed_ledger_info qc) = Inr ()"
    and "bi_round (parent_block qc) < bi_round (certified_block qc)"
    and "bi_epoch (parent_block qc) = bi_epoch (certified_block qc)"
  using assms by (auto simp: quorum_cert_verify_def parent_block_def certified_block_def result_simps)

lemma quorum_cert_verify_genesis:
  assumes "quorum_cert_verify cr vv qc = Inr u" "bi_round (certified_block qc) = 0"
  shows "parent_block qc = certified_block qc" "qc_commit_info qc = certified_block qc"
  using assms by (auto simp: quorum_cert_verify_def qc_commit_info_def result_simps)

lemma with_num_bits_count_ones [simp]: "count_ones (with_num_bits n) = 0"
  by (simp add: count_ones_card)

text \<open>The certificate generated for a genesis block passes its own verification.\<close>

lemma certificate_for_genesis_verifies:
  "certificate_for_genesis_from_ledger_info cr li gid = Some qc \<Longrightarrow> quorum_cert_verify cr vv qc = Inr ()"
  by (auto simp: certificate_for_genesis_from_ledger_info_def bind_eq_Some_conv Let_def
      quorum_cert_verify_def quorum_cert_new_def certified_block_def parent_block_def qc_ledger_info_def
      vote_data_new_def block_info_new_def ledger_info_new_def lis_new_def lis_get_num_voters_def
      get_num_voters_def aggregate_signature_new_def)

text \<open>Wrapping a certificate and reading it back gives the certificate, if it is consistent.\<close>

lemma into_quorum_cert_into_wrapped:
  "quorum_cert_verify cr vv qc = Inr u \<Longrightarrow> into_quorum_cert cr (into_wrapped_ledger_info qc) False = Inr qc"
  by (frule quorum_cert_verify_hash)
    (simp add: into_quorum_cert_def into_wrapped_ledger_info_def wrapped_ledger_info_new_def
      verify_consensus_data_hash_def quorum_cert_new_def qc_ledger_info_def)

end
