(* ===== verification/Timeouts.thy ===== *)
theory Timeouts
  imports Quorum_Cert
begin

text \<open>
  Timeouts and timeout certificates of \<open>consensus/consensus-types/src/timeout_2chain.rs\<close>.
  A timeout certificate carries the highest quorum certificate of its signers, and the round of
  the certificate each of them signed.
\<close>

section \<open>Timeouts\<close>

record two_chain_timeout =
  tct_epoch :: u64
  tct_round :: round_t
  tct_quorum_cert :: quorum_cert

definition two_chain_timeout_new :: "u64 \<Rightarrow> round_t \<Rightarrow> quorum_cert \<Rightarrow> two_chain_timeout" where
  "two_chain_timeout_new epoch rnd qc = \<lparr>tct_epoch = epoch, tct_round = rnd, tct_quorum_cert = qc\<rparr>"

definition hqc_round :: "two_chain_timeout \<Rightarrow> round_t" where
  "hqc_round t = bi_round (certified_block (tct_quorum_cert t))"

definition signing_format :: "two_chain_timeout \<Rightarrow> timeout_signing_repr" where
  "signing_format t = \<lparr>tsr_epoch = tct_epoch t, tsr_round = tct_round t, tsr_hqc_round = hqc_round t\<rparr>"

definition two_chain_timeout_sign ::
    "crypto \<Rightarrow> two_chain_timeout \<Rightarrow> validator_signer \<Rightarrow> signing_error + bls_signature" where
  "two_chain_timeout_sign cr t signer = signer_sign (cr_timeout cr) signer (signing_format t)"

definition two_chain_timeout_verify ::
    "crypto \<Rightarrow> validator_verifier \<Rightarrow> two_chain_timeout \<Rightarrow> anyhow_error + unit" where
  "two_chain_timeout_verify cr validators t =
     rbind (ensure (hqc_round t < tct_round t) (Msg ''Timeout round should be larger than the QC round'')) (\<lambda>_.
     quorum_cert_verify cr validators (tct_quorum_cert t))"

section \<open>Aggregate signatures with rounds\<close>

record aggregate_signature_with_rounds =
  aswr_sig :: aggregate_signature
  aswr_rounds :: "round_t list"

text \<open>\<open>None\<close> is the failed assertion.\<close>

definition aggregate_signature_with_rounds_new ::
    "aggregate_signature \<Rightarrow> round_t list \<Rightarrow> aggregate_signature_with_rounds option" where
  "aggregate_signature_with_rounds_new s rounds =
     (if get_num_voters s = length rounds then Some \<lparr>aswr_sig = s, aswr_rounds = rounds\<rparr> else None)"

definition aggregate_signature_with_rounds_empty :: aggregate_signature_with_rounds where
  "aggregate_signature_with_rounds_empty = \<lparr>aswr_sig = aggregate_signature_empty, aswr_rounds = []\<rparr>"

definition aswr_get_voters ::
    "aggregate_signature_with_rounds \<Rightarrow> account_address list \<Rightarrow> account_address list" where
  "aswr_get_voters s ordered_validator_addresses = get_signers_addresses (aswr_sig s) ordered_validator_addresses"

definition get_voters_and_rounds ::
    "aggregate_signature_with_rounds \<Rightarrow> account_address list \<Rightarrow> (account_address \<times> round_t) list" where
  "get_voters_and_rounds s ordered_validator_addresses =
     zip (get_signers_addresses (aswr_sig s) ordered_validator_addresses) (aswr_rounds s)"

section \<open>Timeout certificates\<close>

record two_chain_timeout_certificate =
  tc_timeout :: two_chain_timeout
  tc_signatures_with_rounds :: aggregate_signature_with_rounds

definition two_chain_timeout_certificate_new :: "two_chain_timeout \<Rightarrow> two_chain_timeout_certificate" where
  "two_chain_timeout_certificate_new t =
     \<lparr>tc_timeout = t, tc_signatures_with_rounds = aggregate_signature_with_rounds_empty\<rparr>"

definition tc_epoch :: "two_chain_timeout_certificate \<Rightarrow> u64" where
  "tc_epoch tc = tct_epoch (tc_timeout tc)"

definition tc_round :: "two_chain_timeout_certificate \<Rightarrow> round_t" where
  "tc_round tc = tct_round (tc_timeout tc)"

definition highest_hqc_round :: "two_chain_timeout_certificate \<Rightarrow> round_t" where
  "highest_hqc_round tc = hqc_round (tc_timeout tc)"

definition tc_messages :: "validator_verifier \<Rightarrow> two_chain_timeout_certificate \<Rightarrow> timeout_signing_repr list" where
  "tc_messages validators tc =
     map (\<lambda>(_, rnd). \<lparr>tsr_epoch = tct_epoch (tc_timeout tc), tsr_round = tct_round (tc_timeout tc),
                       tsr_hqc_round = rnd\<rparr>)
       (get_voters_and_rounds (tc_signatures_with_rounds tc) (get_ordered_account_addresses validators))"

definition iter_max :: "round_t list \<Rightarrow> round_t option" where
  "iter_max rs = (if rs = [] then None else Some (Max (set rs)))"

definition timeout_certificate_verify ::
    "crypto \<Rightarrow> validator_verifier \<Rightarrow> two_chain_timeout_certificate \<Rightarrow> anyhow_error + unit" where
  "timeout_certificate_verify cr validators tc =
     (let hqc = hqc_round (tc_timeout tc);
          timeout_result = two_chain_timeout_verify cr validators (tc_timeout tc);
          sig_result = verify_aggregate_signatures (cr_timeout cr) validators (tc_messages validators tc)
                         (aswr_sig (tc_signatures_with_rounds tc))
      in rbind (rayon_join timeout_result (into_anyhow sig_result)) (\<lambda>_.
         rbind (ok_or (Msg ''Empty rounds'') (iter_max (aswr_rounds (tc_signatures_with_rounds tc)))) (\<lambda>signed_hqc.
         ensure (hqc = signed_hqc) (Msg ''Inconsistent hqc round''))))"

section \<open>Collecting timeouts\<close>

record partial_signatures_with_round =
  pswr_signatures :: "(account_address, round_t \<times> bls_signature) btree_map"

definition partial_signatures_with_round_empty :: partial_signatures_with_round where
  "partial_signatures_with_round_empty = \<lparr>pswr_signatures = []\<rparr>"

definition pswr_add_signature ::
    "partial_signatures_with_round \<Rightarrow> account_address \<Rightarrow> round_t \<Rightarrow> bls_signature \<Rightarrow>
     partial_signatures_with_round" where
  "pswr_add_signature p validator rnd signature =
     (case btree_get (pswr_signatures p) validator of
        Some _ \<Rightarrow> p
      | None \<Rightarrow> p\<lparr>pswr_signatures := btree_insert validator (rnd, signature) (pswr_signatures p)\<rparr>)"

definition take_partial_sig ::
    "(account_address \<rightharpoonup> nat) \<Rightarrow> account_address \<times> round_t \<times> bls_signature \<Rightarrow>
     partial_signatures \<times> (nat, round_t) btree_map \<Rightarrow> partial_signatures \<times> (nat, round_t) btree_map" where
  "take_partial_sig index_map entry acc =
     (case entry of (address, rnd, sig) \<Rightarrow>
        case index_map address of
          Some index \<Rightarrow> (ps_add_signature (fst acc) address sig, btree_insert index rnd (snd acc))
        | None \<Rightarrow> acc)"

definition get_partial_sig_with_rounds ::
    "partial_signatures_with_round \<Rightarrow> (account_address \<rightharpoonup> nat) \<Rightarrow> partial_signatures \<times> round_t list" where
  "get_partial_sig_with_rounds p index_map =
     (let acc = fold (take_partial_sig index_map) (pswr_signatures p) (partial_signatures_empty, [])
      in (fst acc, map snd (snd acc)))"

record two_chain_timeout_with_partial_signatures =
  ptc_timeout :: two_chain_timeout
  ptc_signatures :: partial_signatures_with_round

definition partial_timeout_new :: "two_chain_timeout \<Rightarrow> two_chain_timeout_with_partial_signatures" where
  "partial_timeout_new t = \<lparr>ptc_timeout = t, ptc_signatures = partial_signatures_with_round_empty\<rparr>"

definition ptc_signers :: "two_chain_timeout_with_partial_signatures \<Rightarrow> account_address list" where
  "ptc_signers p = map fst (pswr_signatures (ptc_signatures p))"

definition partial_timeout_add ::
    "two_chain_timeout_with_partial_signatures \<Rightarrow> account_address \<Rightarrow> two_chain_timeout \<Rightarrow> bls_signature \<Rightarrow>
     two_chain_timeout_with_partial_signatures" where
  "partial_timeout_add p author t signature =
     (let p' = (if hqc_round t > hqc_round (ptc_timeout p) then p\<lparr>ptc_timeout := t\<rparr> else p)
      in p'\<lparr>ptc_signatures := pswr_add_signature (ptc_signatures p') author (hqc_round t) signature\<rparr>)"

definition partial_timeout_aggregate_signatures ::
    "crypto \<Rightarrow> validator_verifier \<Rightarrow> two_chain_timeout_with_partial_signatures \<Rightarrow>
     verify_error + two_chain_timeout_certificate" where
  "partial_timeout_aggregate_signatures cr verifier p =
     (case get_partial_sig_with_rounds (ptc_signatures p) (address_to_validator_index verifier) of
        (partial_sig, ordered_rounds) \<Rightarrow>
          rbind (aggregate_signatures (cr_timeout cr) verifier (ps_signatures partial_sig)) (\<lambda>aggregated_sig.
          rbind (ok_or VerifyPanic (aggregate_signature_with_rounds_new aggregated_sig ordered_rounds)) (\<lambda>swr.
          Inr \<lparr>tc_timeout = ptc_timeout p, tc_signatures_with_rounds = swr\<rparr>)))"

section \<open>The signers of a timeout certificate\<close>

lemma iter_max_ge: "iter_max rs = Some m \<Longrightarrow> r \<in> set rs \<Longrightarrow> r \<le> m"
  by (auto simp: iter_max_def split: if_splits)

lemma iter_max_in: "iter_max rs = Some m \<Longrightarrow> m \<in> set rs"
  using Max_in [of "set rs"] by (auto simp: iter_max_def split: if_splits)

lemma get_signers_addresses_authors:
  assumes wf: "verifier_wf vv" and bw: "bitvec_wf (validator_bitmask s)"
    and bound: "\<forall>i \<in> set (iter_ones (validator_bitmask s)). i < length (validator_infos vv)"
  shows "get_signers_addresses s (get_ordered_account_addresses vv) = aggregate_signature_authors vv s"
proof -
  let ?n = "length (validator_infos vv)" and ?m = "validator_bitmask s"
  let ?is = "filter (bitvec_bit ?m) [0..<?n]"
  have u: "unat (word_of_nat i :: u16) = i" if "i < ?n" for i
    by (rule unat_of_nat_less) (use that wf in \<open>simp add: verifier_wf_def\<close>)
  have enum: "List.enumerate 0 (map vci_address (validator_infos vv)) =
    map (\<lambda>i. (i, vci_address (validator_infos vv ! i))) [0..<?n]"
    by (rule nth_equalityI) (simp_all add: nth_enumerate_eq)
  have "get_signers_addresses s (get_ordered_account_addresses vv) =
    map (\<lambda>i. vci_address (validator_infos vv ! i)) (filter (\<lambda>i. is_set ?m (word_of_nat i)) [0..<?n])"
    unfolding get_signers_addresses_def get_ordered_account_addresses_def map_filter_def enum
    by (auto simp: filter_map comp_def intro!: map_cong)
  also have "filter (\<lambda>i. is_set ?m (word_of_nat i)) [0..<?n] = ?is"
    by (rule filter_cong) (auto simp: is_set_iff u)
  also have "?is = iter_ones ?m"
    by (rule sorted_distinct_set_unique)
      (use bound in \<open>auto simp: sorted_filter [of "\<lambda>x. x", simplified] set_iter_ones [OF bw] bitvec_positions_def\<close>)
  finally show ?thesis using aggregate_signature_authors_map [OF bound] by simp
qed

lemma verify_aggregate_signatures_Inr:
  assumes "verify_aggregate_signatures bls vv ms s = Inr u" "verifier_wf vv"
  obtains sig where
    "\<forall>i \<in> set (iter_ones (validator_bitmask s)). i < length (validator_infos vv)"
    "bls_verify_aggregate bls sig ms
       (map (\<lambda>i. vci_public_key (validator_infos vv ! i)) (iter_ones (validator_bitmask s)))"
    "vv_quorum vv (set (aggregate_signature_authors vv s))"
    "bitvec_wf (validator_bitmask s)"
proof -
  have w: "bitvec_wf (validator_bitmask s)"
    using assms required_buckets_bits [of "word_of_nat (verifier_len vv)"]
    by (auto simp: verify_aggregate_signatures_def check_num_of_voters_def bitvec_wf_def num_buckets_def
        get_signers_bitvec_def result_simps split: if_splits)
  obtain sig where *: "\<forall>i \<in> set (iter_ones (validator_bitmask s)). i < length (validator_infos vv)"
    "bls_verify_aggregate bls sig ms
       (map (\<lambda>i. vci_public_key (validator_infos vv ! i)) (iter_ones (validator_bitmask s)))"
    "\<exists>p. check_voting_power vv (aggregate_signature_authors vv s) True = Inr p"
    using assms(1)
    by (auto simp: verify_aggregate_signatures_def result_simps push_signers_Inr get_signers_bitvec_def
        decompressed_sig_def lazy_decompress_def aggregate_signature_authors_map split: option.splits prod.splits)
  show thesis
    by (rule that [OF *(1,2) _ w])
      (use *(3) check_voting_power_quorum [OF assms(2) distinct_aggregate_signature_authors [OF assms(2)]] in blast)
qed

text \<open>
  What an aggregate over distinct messages certifies: every key is paired with a message.
\<close>

definition tc_signed :: "validator_verifier \<Rightarrow> two_chain_timeout_certificate \<Rightarrow> (account_address \<times> timeout_signing_repr) list" where
  "tc_signed vv tc =
     zip (aggregate_signature_authors vv (aswr_sig (tc_signatures_with_rounds tc))) (tc_messages vv tc)"

lemma timeout_certificate_verify_timeout:
  "timeout_certificate_verify cr vv tc = Inr u \<Longrightarrow> two_chain_timeout_verify cr vv (tc_timeout tc) = Inr ()"
  by (auto simp: timeout_certificate_verify_def Let_def result_simps)

lemma timeout_certificate_verify_bounds:
  assumes "timeout_certificate_verify cr vv tc = Inr u" "(a, m) \<in> set (tc_signed vv tc)"
  shows "tsr_epoch m = tc_epoch tc" "tsr_round m = tc_round tc" "tsr_hqc_round m \<le> highest_hqc_round tc"
proof -
  obtain b r where m: "m = \<lparr>tsr_epoch = tct_epoch (tc_timeout tc), tsr_round = tct_round (tc_timeout tc), tsr_hqc_round = r\<rparr>"
    and "(b, r) \<in> set (get_voters_and_rounds (tc_signatures_with_rounds tc) (get_ordered_account_addresses vv))"
    using assms(2) by (auto simp: tc_signed_def tc_messages_def dest!: set_zip_rightD)
  then have "r \<in> set (aswr_rounds (tc_signatures_with_rounds tc))"
    by (auto simp: get_voters_and_rounds_def dest: set_zip_rightD)
  moreover have "highest_hqc_round tc = Max (set (aswr_rounds (tc_signatures_with_rounds tc)))"
    using assms(1) by (auto simp: timeout_certificate_verify_def Let_def result_simps iter_max_def
        highest_hqc_round_def split: if_splits)
  ultimately show "tsr_epoch m = tc_epoch tc" "tsr_round m = tc_round tc" "tsr_hqc_round m \<le> highest_hqc_round tc"
    by (simp_all add: m tc_epoch_def tc_round_def)
qed

lemma two_chain_timeout_verify_Inr:
  "two_chain_timeout_verify cr vv t = Inr u \<longleftrightarrow>
     hqc_round t < tct_round t \<and> quorum_cert_verify cr vv (tct_quorum_cert t) = Inr ()"
  by (auto simp: two_chain_timeout_verify_def result_simps)

section \<open>From collected timeouts to a certificate\<close>

text \<open>
  What aggregation relies on: signatures that hold one by one, each for its own message,
  aggregate in any order to one that holds for the lists of messages and keys.
\<close>

definition bls_aggregate_complete :: "'m bls \<Rightarrow> bool" where
  "bls_aggregate_complete bls \<longleftrightarrow>
     (\<forall>ps sigs. ps \<noteq> [] \<longrightarrow> (\<forall>(pk, m, s) \<in> set ps. bls_verify_struct_signature bls pk m s) \<longrightarrow>
        mset sigs = mset (map (\<lambda>(_, _, s). s) ps) \<longrightarrow>
        (\<exists>s. bls_aggregate_signatures bls sigs = Some s \<and> bls_decompresses bls s \<and>
           bls_verify_aggregate bls s (map (\<lambda>(_, m, _). m) ps) (map (\<lambda>(pk, _, _). pk) ps)))"

text \<open>The timeout a collector holds has the highest round among those its signers signed.\<close>

definition ptc_consistent :: "two_chain_timeout_with_partial_signatures \<Rightarrow> bool" where
  "ptc_consistent p \<longleftrightarrow>
     btree_wf (pswr_signatures (ptc_signatures p)) \<and>
     iter_max (map (fst \<circ> snd) (pswr_signatures (ptc_signatures p))) = Some (hqc_round (ptc_timeout p))"

lemma btree_eqI:
  assumes "btree_wf m" "btree_wf m'" "set m = set m'"
  shows "m = m'"
proof (rule map_sorted_distinct_set_unique)
  show "inj_on fst (set m \<union> set m')" using assms(3) btree_wf_distinct [OF assms(1)] by (simp add: distinct_map)
qed (use assms in \<open>simp_all add: btree_wf_def strict_sorted_iff\<close>)

lemma set_btree_insert_fresh:
  "k \<notin> fst ` set m \<Longrightarrow> set (btree_insert k v m) = insert (k, v) (set m)"
  by (induction k v m rule: btree_insert.induct) auto

lemma index_of_inj:
  "verifier_wf vv \<Longrightarrow> a \<in> members vv \<Longrightarrow> b \<in> members vv \<Longrightarrow> index_of vv a = index_of vv b \<Longrightarrow> a = b"
  by (metis index_of_member(3))

lemma take_partial_sigs:
  assumes wf: "verifier_wf vv"
  shows "distinct (map fst entries) \<Longrightarrow> fst ` set entries \<subseteq> members vv \<Longrightarrow>
    fst ` set entries \<inter> fst ` set (ps_signatures ps) = {} \<Longrightarrow>
    index_of vv ` fst ` set entries \<inter> fst ` set rs = {} \<Longrightarrow> btree_wf (ps_signatures ps) \<Longrightarrow> btree_wf rs \<Longrightarrow>
    \<exists>ps' rs'. fold (take_partial_sig (address_to_validator_index vv)) entries (ps, rs) = (ps', rs') \<and>
      btree_wf (ps_signatures ps') \<and> btree_wf rs' \<and>
      set (ps_signatures ps') = set (ps_signatures ps) \<union> (\<lambda>(a, r, s). (a, s)) ` set entries \<and>
      set rs' = set rs \<union> (\<lambda>(a, r, s). (index_of vv a, r)) ` set entries"
proof (induction entries arbitrary: ps rs)
  case (Cons e entries)
  obtain a r s where e: "e = (a, r, s)" by (cases e)
  have a: "a \<in> members vv" "a \<notin> fst ` set entries" "a \<notin> fst ` set (ps_signatures ps)" "index_of vv a \<notin> fst ` set rs"
    and rest: "distinct (map fst entries)" "fst ` set entries \<subseteq> members vv"
      "fst ` set entries \<inter> fst ` set (ps_signatures ps) = {}" "index_of vv ` fst ` set entries \<inter> fst ` set rs = {}"
    using Cons.prems(1-4) unfolding e by auto
  have "index_of vv a \<noteq> index_of vv b" if "b \<in> fst ` set entries" for b
    using index_of_inj [OF wf a(1), of b] a(2) rest(2) that by blast
  then have idx: "index_of vv a \<notin> index_of vv ` fst ` set entries" by auto
  have step: "take_partial_sig (address_to_validator_index vv) e (ps, rs) =
    (ps_add_signature ps a s, btree_insert (index_of vv a) r rs)"
    using index_of_member(1) [OF wf a(1)] e by (simp add: take_partial_sig_def)
  have "\<exists>ps' rs'. fold (take_partial_sig (address_to_validator_index vv)) entries
        (ps_add_signature ps a s, btree_insert (index_of vv a) r rs) = (ps', rs') \<and>
      btree_wf (ps_signatures ps') \<and> btree_wf rs' \<and>
      set (ps_signatures ps') = set (ps_signatures (ps_add_signature ps a s)) \<union> (\<lambda>(a, r, s). (a, s)) ` set entries \<and>
      set rs' = set (btree_insert (index_of vv a) r rs) \<union> (\<lambda>(a, r, s). (index_of vv a, r)) ` set entries"
    by (rule Cons.IH)
      (use a rest idx Cons.prems(5,6) in \<open>simp_all add: btree_simps ps_add_signature_def\<close>)
  then show ?case
    using a by (simp add: step) (simp add: e ps_add_signature_def set_btree_insert_fresh)
qed auto

lemma get_partial_sig_with_rounds_facts:
  assumes wf: "verifier_wf vv" and p: "btree_wf (pswr_signatures p)" "fst ` set (pswr_signatures p) \<subseteq> members vv"
  obtains rs where
    "get_partial_sig_with_rounds p (address_to_validator_index vv) =
       (\<lparr>ps_signatures = map (\<lambda>(a, r, s). (a, s)) (pswr_signatures p)\<rparr>, map snd rs)"
    "btree_wf rs" "set rs = (\<lambda>(a, r, s). (index_of vv a, r)) ` set (pswr_signatures p)"
proof -
  let ?es = "pswr_signatures p"
  obtain ps rs where acc: "fold (take_partial_sig (address_to_validator_index vv)) ?es (partial_signatures_empty, []) = (ps, rs)"
    and rs: "btree_wf rs" "set rs = (\<lambda>(a, r, s). (index_of vv a, r)) ` set ?es"
    and ps: "btree_wf (ps_signatures ps)" "set (ps_signatures ps) = (\<lambda>(a, r, s). (a, s)) ` set ?es"
    using take_partial_sigs [OF wf btree_wf_distinct [OF p(1)] p(2), of partial_signatures_empty "[]"]
    by (auto simp: partial_signatures_empty_def partial_signatures_new_def)
  have "map fst (map (\<lambda>(a, r, s). (a, s)) ?es) = map fst ?es" by (induction ?es) auto
  then have "btree_wf (map (\<lambda>(a, r, s). (a, s)) ?es)" using p(1) by (simp only: btree_wf_def)
  then have "ps_signatures ps = map (\<lambda>(a, r, s). (a, s)) ?es"
    by (rule btree_eqI [OF ps(1)]) (simp add: ps(2))
  then have "ps = \<lparr>ps_signatures = map (\<lambda>(a, r, s). (a, s)) ?es\<rparr>" by simp
  then show thesis using that [OF _ rs] acc by (simp add: get_partial_sig_with_rounds_def)
qed

lemma iter_ones_rounds:
  assumes wf: "verifier_wf vv" and p: "btree_wf es" "fst ` set es \<subseteq> members vv"
    and rs: "btree_wf rs" "set rs = (\<lambda>(a, r, s). (index_of vv a, r)) ` set es"
  shows "iter_ones (signer_mask_of vv (map fst es)) = map fst rs"
proof (rule sorted_distinct_set_unique)
  have "set (iter_ones (signer_mask_of vv (map fst es))) = index_of vv ` fst ` set es"
    using signer_mask_of_facts [OF wf, of "map fst es"] p(2) by (simp add: set_iter_ones)
  also have "\<dots> = set (map fst rs)" by (force simp: rs(2))
  finally show "set (iter_ones (signer_mask_of vv (map fst es))) = set (map fst rs)" .
qed (use rs(1) in \<open>simp_all add: btree_wf_def strict_sorted_iff\<close>)

lemma timeout_signatures_aggregate:
  assumes wf: "verifier_wf vv" and complete: "bls_aggregate_complete bls"
    and es: "distinct (map fst es)" "fst ` set es \<subseteq> members vv" "es \<noteq> []"
    and rs: "btree_wf rs" "set rs = (\<lambda>(a, r, s). (index_of vv a, r)) ` set es"
    and each: "\<And>a r s. (a, r, s) \<in> set es \<Longrightarrow> vv_verify bls vv a (msg r) s = Inr ()"
  shows "\<exists>s. bls_aggregate_signatures bls (map snd (map (\<lambda>(a, r, s). (a, s)) es)) = Some s \<and> bls_decompresses bls s \<and>
    bls_verify_aggregate bls s (map (\<lambda>(i, r). msg r) rs) (map (\<lambda>(i, r). vci_public_key (validator_infos vv ! i)) rs)"
proof -
  let ?info = "\<lambda>i. validator_infos vv ! i"
  define sg where "sg i = snd (the (map_of es (vci_address (?info i))))" for i
  have sg: "sg (index_of vv a) = s" if "(a, r, s) \<in> set es" for a r s
    using that es(1,2) index_of_member(3) [OF wf, of a] by (force simp: sg_def)
  let ?ps = "map (\<lambda>(i, r). (vci_public_key (?info i), msg r, sg i)) rs"
  have "inj_on (\<lambda>(a, r, s). (index_of vv a, r)) (set es)"
  proof -
    have "a = b \<and> s = s'" if "(a, r, s) \<in> set es" "(b, r, s') \<in> set es" "index_of vv a = index_of vv b" for a b r s s'
    proof -
      have "a \<in> members vv" "b \<in> members vv" using that(1,2) es(2) by force+
      then have "a = b" using index_of_inj [OF wf] that(3) by blast
      then show ?thesis using eq_key_imp_eq_value [OF es(1)] that(1,2) by blast
    qed
    then show ?thesis by (auto simp: inj_on_def)
  qed
  then have "distinct (map (\<lambda>(a, r, s). (index_of vv a, r)) es)"
    using es(1) by (simp add: distinct_map)
  moreover have "distinct rs" using btree_wf_distinct [OF rs(1)] by (simp add: distinct_map)
  ultimately have "mset rs = mset (map (\<lambda>(a, r, s). (index_of vv a, r)) es)"
    by (subst set_eq_iff_mset_eq_distinct [symmetric]) (simp_all add: rs(2))
  from arg_cong [OF this, of "image_mset (\<lambda>(i, r). sg i)"]
  have "mset (map (\<lambda>(_, _, s). s) ?ps) = mset (map (\<lambda>(a, r, s). sg (index_of vv a)) es)"
    by (simp add: case_prod_beta' comp_def image_mset.compositionality)
  also have "map (\<lambda>(a, r, s). sg (index_of vv a)) es = map snd (map (\<lambda>(a, r, s). (a, s)) es)"
    using sg by (auto intro!: map_cong)
  finally have "mset (map snd (map (\<lambda>(a, r, s). (a, s)) es)) = mset (map (\<lambda>(_, _, s). s) ?ps)" by simp
  moreover have "\<forall>(pk, m, s) \<in> set ?ps. bls_verify_struct_signature bls pk m s"
  proof -
    have "bls_verify_struct_signature bls (vci_public_key (?info (index_of vv a))) (msg r) s" if "(a, r, s) \<in> set es" for a r s
    proof -
      have "a \<in> members vv" using that es(2) by force
      then show ?thesis using each [OF that] index_of_member(4) [OF wf] by (simp add: vv_verify_def split: if_splits)
    qed
    then show ?thesis using sg by (auto simp: rs(2))
  qed
  moreover have "?ps \<noteq> []" using es(3) rs(2) by auto
  ultimately show ?thesis
    using complete [unfolded bls_aggregate_complete_def, THEN spec, of ?ps, THEN spec, of "map snd (map (\<lambda>(a, r, s). (a, s)) es)"]
    by (auto simp: case_prod_beta' comp_def)
qed

text \<open>What is aggregated from timeouts of members: a mask of the signers and their rounds in order.\<close>

lemma partial_timeout_aggregates:
  assumes wf: "verifier_wf vv" and es: "btree_wf (pswr_signatures (ptc_signatures p))" "set (ptc_signers p) \<subseteq> members vv"
  obtains rs where "btree_wf rs" "set rs = (\<lambda>(a, r, s). (index_of vv a, r)) ` set (pswr_signatures (ptc_signatures p))"
    "iter_ones (signer_mask_of vv (ptc_signers p)) = map fst rs"
    "\<And>s. bls_aggregate_signatures (cr_timeout cr) (map snd (map (\<lambda>(a, r, s). (a, s)) (pswr_signatures (ptc_signatures p)))) = Some s \<Longrightarrow>
       partial_timeout_aggregate_signatures cr vv p =
       Inr \<lparr>tc_timeout = ptc_timeout p, tc_signatures_with_rounds =
         \<lparr>aswr_sig = aggregate_signature_new (signer_mask_of vv (ptc_signers p)) (Some s), aswr_rounds = map snd rs\<rparr>\<rparr>"
proof -
  let ?es = "pswr_signatures (ptc_signatures p)"
  have members: "fst ` set ?es \<subseteq> members vv" using es(2) by (simp add: ptc_signers_def)
  obtain rs where part: "get_partial_sig_with_rounds (ptc_signatures p) (address_to_validator_index vv) =
       (\<lparr>ps_signatures = map (\<lambda>(a, r, s). (a, s)) ?es\<rparr>, map snd rs)"
    and rs: "btree_wf rs" "set rs = (\<lambda>(a, r, s). (index_of vv a, r)) ` set ?es"
    by (rule get_partial_sig_with_rounds_facts [OF wf es(1) members])
  let ?sigs = "map (\<lambda>(a, r, s). (a, s)) ?es" and ?mask = "signer_mask_of vv (map fst ?es)"
  have fst_sigs: "map fst ?sigs = map fst ?es" by (simp add: case_prod_beta')
  have ones: "iter_ones ?mask = map fst rs" by (rule iter_ones_rounds [OF wf es(1) members rs])
  have "get_num_voters (aggregate_signature_new ?mask s) = card (set (iter_ones ?mask))" for s
    using signer_mask_of_facts(1) [OF wf members [folded set_map]]
    by (simp add: get_num_voters_def aggregate_signature_new_def count_ones_card set_iter_ones)
  then have num: "get_num_voters (aggregate_signature_new ?mask s) = length rs" for s
    using distinct_card [OF distinct_iter_ones [of ?mask]] by (simp add: ones)
  have agg: "aggregate_signatures (cr_timeout cr) vv ?sigs = Inr (aggregate_signature_new ?mask (Some s))"
    if "bls_aggregate_signatures (cr_timeout cr) (map snd ?sigs) = Some s" for s
    using aggregate_signatures_mask [OF wf _ that] members fst_sigs by (metis list.set_map)
  show ?thesis using rs ones part agg num
    by (intro that [of rs]) (simp_all add: partial_timeout_aggregate_signatures_def aggregate_signature_with_rounds_new_def ptc_signers_def)
qed

text \<open>So the assertion that there is one round for each signer holds.\<close>

lemma partial_timeout_aggregate_no_panic:
  assumes wf: "verifier_wf vv" and es: "btree_wf (pswr_signatures (ptc_signatures p))" "set (ptc_signers p) \<subseteq> members vv"
  shows "partial_timeout_aggregate_signatures cr vv p \<noteq> Inl VerifyPanic"
proof -
  let ?es = "pswr_signatures (ptc_signatures p)"
  let ?sigs = "map (\<lambda>(a, r, s). (a, s)) ?es"
  have members: "fst ` set ?es \<subseteq> members vv" using es(2) by (simp add: ptc_signers_def)
  show ?thesis
  proof (cases "bls_aggregate_signatures (cr_timeout cr) (map snd ?sigs)")
    case None
    have "fst ` set ?sigs = fst ` set ?es" by force
    then have agg: "aggregate_signatures (cr_timeout cr) vv ?sigs = Inl FailedToAggregateSignature"
      using None collect_masks_members [OF wf, of ?sigs] members by (simp add: aggregate_signatures_def)
    obtain rounds where "get_partial_sig_with_rounds (ptc_signatures p) (address_to_validator_index vv) =
        (\<lparr>ps_signatures = ?sigs\<rparr>, rounds)"
      by (rule get_partial_sig_with_rounds_facts [OF wf es(1) members]) (rule that)
    then show ?thesis using agg by (simp add: partial_timeout_aggregate_signatures_def)
  next
    case (Some s)
    obtain tc where "partial_timeout_aggregate_signatures cr vv p = Inr tc"
      by (rule partial_timeout_aggregates [OF wf es, where cr = cr]) (use Some in blast)
    then show ?thesis by simp
  qed
qed

text \<open>
  A consistent collection from a quorum of members, whose timeout and signatures hold one by
  one, aggregates to a certificate that every validator accepts.
\<close>

lemma partial_timeout_aggregate_verifies:
  assumes wf: "verifier_wf vv" and complete: "bls_aggregate_complete (cr_timeout cr)"
    and consistent: "ptc_consistent p" and quorum: "vv_quorum vv (set (ptc_signers p))"
    and timeout: "two_chain_timeout_verify cr vv (ptc_timeout p) = Inr ()"
    and each: "\<And>a r s. (a, r, s) \<in> set (pswr_signatures (ptc_signatures p)) \<Longrightarrow>
      vv_verify (cr_timeout cr) vv a
        \<lparr>tsr_epoch = tct_epoch (ptc_timeout p), tsr_round = tct_round (ptc_timeout p), tsr_hqc_round = r\<rparr> s = Inr ()"
  shows "\<exists>tc. partial_timeout_aggregate_signatures cr vv p = Inr tc \<and> tc_timeout tc = ptc_timeout p \<and>
    timeout_certificate_verify cr vv tc = Inr ()"
proof -
  let ?es = "pswr_signatures (ptc_signatures p)" and ?info = "\<lambda>i. validator_infos vv ! i"
  let ?repr = "\<lambda>r. \<lparr>tsr_epoch = tct_epoch (ptc_timeout p), tsr_round = tct_round (ptc_timeout p), tsr_hqc_round = r\<rparr>"
  have es: "btree_wf ?es" "fst ` set ?es \<subseteq> members vv" "?es \<noteq> []" "distinct (map fst ?es)" "vv_quorum vv (set (map fst ?es))"
    using consistent quorum btree_wf_distinct
    by (auto simp: ptc_consistent_def iter_max_def ptc_signers_def vv_quorum_def split: if_splits)
  have signers: "set (ptc_signers p) \<subseteq> members vv" "ptc_signers p = map fst ?es" using es(2) by (simp_all add: ptc_signers_def)
  obtain rs where rs: "btree_wf rs" "set rs = (\<lambda>(a, r, s). (index_of vv a, r)) ` set ?es"
    and ones: "iter_ones (signer_mask_of vv (map fst ?es)) = map fst rs"
    and agg: "\<And>s. bls_aggregate_signatures (cr_timeout cr) (map snd (map (\<lambda>(a, r, s). (a, s)) ?es)) = Some s \<Longrightarrow>
       partial_timeout_aggregate_signatures cr vv p = Inr \<lparr>tc_timeout = ptc_timeout p, tc_signatures_with_rounds =
         \<lparr>aswr_sig = aggregate_signature_new (signer_mask_of vv (map fst ?es)) (Some s), aswr_rounds = map snd rs\<rparr>\<rparr>"
    by (rule partial_timeout_aggregates [OF wf es(1) signers(1), of cr]) (simp add: signers(2))
  obtain s where s: "bls_aggregate_signatures (cr_timeout cr) (map snd (map (\<lambda>(a, r, s). (a, s)) ?es)) = Some s"
    "bls_decompresses (cr_timeout cr) s"
    "bls_verify_aggregate (cr_timeout cr) s (map (\<lambda>(i, r). ?repr r) rs) (map (\<lambda>(i, r). vci_public_key (?info i)) rs)"
    using timeout_signatures_aggregate [OF wf complete es(4,2,3) rs, where msg = ?repr] each by blast
  let ?mask = "signer_mask_of vv (map fst ?es)"
  let ?agg = "aggregate_signature_new ?mask (Some s)"
  have mask: "validator_bitmask ?agg = ?mask" by (simp add: aggregate_signature_new_def)
  note checks = signer_mask_checks [OF wf es(4,5) mask] and facts = signer_mask_of_facts [OF wf es(2) [folded set_map]]
  define tc where "tc = \<lparr>tc_timeout = ptc_timeout p, tc_signatures_with_rounds = \<lparr>aswr_sig = ?agg, aswr_rounds = map snd rs\<rparr>\<rparr>"
  have "partial_timeout_aggregate_signatures cr vv p = Inr tc" using agg [OF s(1)] by (simp add: tc_def)
  moreover have "get_signers_addresses ?agg (get_ordered_account_addresses vv) = map (\<lambda>(i, r). vci_address (?info i)) rs"
    using get_signers_addresses_authors [OF wf, of ?agg] facts(1) checks(1,2) by (simp add: mask ones case_prod_beta')
  then have "tc_messages vv tc = map (\<lambda>(i, r). ?repr r) rs"
    by (simp add: tc_messages_def tc_def get_voters_and_rounds_def zip_map_map zip_same_conv_map case_prod_beta')
  then have "verify_aggregate_signatures (cr_timeout cr) vv (tc_messages vv tc) ?agg = Inr ()"
    using facts(3) checks(4,5) s(2,3)
    by (auto simp: verify_aggregate_signatures_def get_signers_bitvec_def mask decompressed_sig_def ones
        aggregate_signature_new_def lazy_decompress_def lazy_from_signature_def case_prod_beta' comp_def)
  moreover have "iter_max (map snd rs) = Some (hqc_round (ptc_timeout p))"
    using consistent rs(2) es(3) by (auto simp: ptc_consistent_def iter_max_def image_image case_prod_beta' split: if_splits)
  ultimately show ?thesis using timeout
    by (auto simp: timeout_certificate_verify_def Let_def tc_def)
qed

text \<open>
  Adding the timeout of a new signer keeps a collection consistent. Adding a second one of the
  same signer with a higher certificate replaces the timeout but not the signed round. No
  certificate aggregated from a collection whose signed rounds are all lower verifies.
\<close>

lemma ptc_consistent_first:
  "ptc_consistent (partial_timeout_add (partial_timeout_new t) a t s)"
  by (simp add: ptc_consistent_def partial_timeout_add_def partial_timeout_new_def pswr_add_signature_def
      partial_signatures_with_round_empty_def btree_get_def btree_wf_def iter_max_def)

lemma ptc_consistent_add:
  assumes "ptc_consistent p" "a \<notin> set (ptc_signers p)"
  shows "ptc_consistent (partial_timeout_add p a t s)"
proof -
  let ?es = "pswr_signatures (ptc_signatures p)"
  have new: "a \<notin> fst ` set ?es" using assms(2) by (simp add: ptc_signers_def)
  then have "set (btree_insert a (hqc_round t, s) ?es) = insert (a, hqc_round t, s) (set ?es)"
    by (rule set_btree_insert_fresh)
  moreover from this have "btree_insert a (hqc_round t, s) ?es \<noteq> []" by auto
  moreover have "btree_get ?es a = None" using new by (simp add: btree_get_None_iff)
  ultimately show ?thesis using assms(1)
    by (auto simp: ptc_consistent_def partial_timeout_add_def pswr_add_signature_def btree_wf_insert Let_def
        iter_max_def max_def split: if_splits)
qed

lemma outdated_rounds_never_verify:
  assumes wf: "verifier_wf vv" "btree_wf (pswr_signatures (ptc_signatures p))" "set (ptc_signers p) \<subseteq> members vv"
    and older: "\<And>a r s. (a, r, s) \<in> set (pswr_signatures (ptc_signatures p)) \<Longrightarrow> r < hqc_round (ptc_timeout p)"
    and agg: "partial_timeout_aggregate_signatures cr vv p = Inr tc"
  shows "timeout_certificate_verify cr vv tc \<noteq> Inr ()"
proof -
  let ?es = "pswr_signatures (ptc_signatures p)"
  obtain rs where rs: "get_partial_sig_with_rounds (ptc_signatures p) (address_to_validator_index vv) =
       (\<lparr>ps_signatures = map (\<lambda>(a, r, s). (a, s)) ?es\<rparr>, map snd rs)"
    "set rs = (\<lambda>(a, r, s). (index_of vv a, r)) ` set ?es"
    by (rule get_partial_sig_with_rounds_facts [OF wf(1), of "ptc_signatures p"]) (use wf in \<open>auto simp: ptc_signers_def\<close>)
  have tc: "tc_timeout tc = ptc_timeout p" "aswr_rounds (tc_signatures_with_rounds tc) = map snd rs"
    using agg rs(1) by (auto simp: partial_timeout_aggregate_signatures_def result_simps
        aggregate_signature_with_rounds_new_def split: if_splits)
  have "r < hqc_round (ptc_timeout p)" if "r \<in> set (map snd rs)" for r
    using that rs(2) older by force
  then have "iter_max (map snd rs) \<noteq> Some (hqc_round (ptc_timeout p))"
    using iter_max_in [of "map snd rs" "hqc_round (ptc_timeout p)"] by blast
  then show ?thesis
    by (auto simp: timeout_certificate_verify_def Let_def result_simps tc)
qed

end
