(* ===== verification/Votes.thy ===== *)
theory Votes
  imports Timeouts
begin

text \<open>
  Votes, order votes, round timeouts and the synchronisation certificates that accompany them:
  \<open>vote.rs\<close>, \<open>order_vote.rs\<close>, \<open>round_timeout.rs\<close>, \<open>sync_info.rs\<close>,
  \<open>vote_msg.rs\<close> and \<open>order_vote_msg.rs\<close> of \<open>consensus/consensus-types/src\<close>.
\<close>

section \<open>Votes\<close>

record vote =
  v_vote_data :: vote_data
  v_author :: account_address
  v_ledger_info :: ledger_info
  v_signature :: signature_with_status
  v_two_chain_timeout :: "(two_chain_timeout \<times> bls_signature) option"

definition vote_new_with_signature ::
    "vote_data \<Rightarrow> account_address \<Rightarrow> ledger_info \<Rightarrow> bls_signature \<Rightarrow> vote" where
  "vote_new_with_signature vd author li signature =
     \<lparr>v_vote_data = vd, v_author = author, v_ledger_info = li, v_signature = sws_from signature,
      v_two_chain_timeout = None\<rparr>"

definition vote_new ::
    "crypto \<Rightarrow> vote_data \<Rightarrow> account_address \<Rightarrow> ledger_info \<Rightarrow> validator_signer \<Rightarrow> signing_error + vote" where
  "vote_new cr vd author ledger_info_placeholder signer =
     (let li = set_consensus_data_hash ledger_info_placeholder (cr_vote_data_hash cr vd)
      in rbind (signer_sign (cr_ledger_info cr) signer li) (\<lambda>signature.
         Inr (vote_new_with_signature vd author li signature)))"

definition add_2chain_timeout :: "vote \<Rightarrow> two_chain_timeout \<Rightarrow> bls_signature \<Rightarrow> vote" where
  "add_2chain_timeout v t signature = v\<lparr>v_two_chain_timeout := Some (t, signature)\<rparr>"

definition generate_2chain_timeout :: "vote \<Rightarrow> quorum_cert \<Rightarrow> two_chain_timeout" where
  "generate_2chain_timeout v qc =
     two_chain_timeout_new (bi_epoch (vd_proposed (v_vote_data v))) (bi_round (vd_proposed (v_vote_data v))) qc"

definition vote_epoch :: "vote \<Rightarrow> u64" where
  "vote_epoch v = bi_epoch (vd_proposed (v_vote_data v))"

definition vote_is_timeout :: "vote \<Rightarrow> bool" where
  "vote_is_timeout v \<longleftrightarrow> v_two_chain_timeout v \<noteq> None"

definition vote_verify_timeout :: "crypto \<Rightarrow> validator_verifier \<Rightarrow> vote \<Rightarrow> anyhow_error + unit" where
  "vote_verify_timeout cr validator v =
     (case v_two_chain_timeout v of
        None \<Rightarrow> Inr ()
      | Some (t, signature) \<Rightarrow>
          rbind (ensure ((tct_epoch t, tct_round t) = (vote_epoch v, bi_round (vd_proposed (v_vote_data v))))
                   (Msg ''2-chain timeout has different (epoch, round) than Vote'')) (\<lambda>_.
          rbind (two_chain_timeout_verify cr validator t) (\<lambda>_.
          with_context ''Failed to verify 2-chain timeout signature''
            (into_anyhow (vv_verify (cr_timeout cr) validator (v_author v) (signing_format t) signature)))))"

text \<open>Verification may mark the signature of the vote as verified.\<close>

definition optimistic_verify_vote_signature ::
    "crypto \<Rightarrow> validator_verifier \<Rightarrow> verify_mode \<Rightarrow> (vote, anyhow_error, unit) method_result" where
  "optimistic_verify_vote_signature cr validator mode v =
     (case optimistic_verify (cr_ledger_info cr) validator mode (v_author v) (v_ledger_info v) (v_signature v) of
        (r, s) \<Rightarrow> (with_context ''Failed to verify Vote'' (into_anyhow r), v\<lparr>v_signature := s\<rparr>))"

definition vote_verify ::
    "crypto \<Rightarrow> validator_verifier \<Rightarrow> verify_mode \<Rightarrow> (vote, anyhow_error, unit) method_result" where
  "vote_verify cr validator mode =
     sbind (sread (\<lambda>v. ensure (li_consensus_data_hash (v_ledger_info v) = cr_vote_data_hash cr (v_vote_data v))
                         (Msg ''Vote's hash mismatch with LedgerInfo''))) (\<lambda>_.
     sbind (optimistic_verify_vote_signature cr validator mode) (\<lambda>_.
     sbind (sread (vote_verify_timeout cr validator)) (\<lambda>_.
     sread (\<lambda>v. vote_data_verify (v_vote_data v)))))"

section \<open>Order votes\<close>

record order_vote =
  ov_author :: account_address
  ov_ledger_info :: ledger_info
  ov_signature :: signature_with_status

definition order_vote_new_with_signature :: "account_address \<Rightarrow> ledger_info \<Rightarrow> bls_signature \<Rightarrow> order_vote" where
  "order_vote_new_with_signature author li signature =
     \<lparr>ov_author = author, ov_ledger_info = li, ov_signature = sws_from signature\<rparr>"

definition order_vote_epoch :: "order_vote \<Rightarrow> u64" where
  "order_vote_epoch ov = li_epoch (ov_ledger_info ov)"

definition order_vote_verify ::
    "crypto \<Rightarrow> validator_verifier \<Rightarrow> verify_mode \<Rightarrow> (order_vote, anyhow_error, unit) method_result" where
  "order_vote_verify cr validator mode ov =
     (if li_consensus_data_hash (ov_ledger_info ov) \<noteq> 0
      then (Inl (Msg ''Failed to verify OrderVote. Consensus data hash is not Zero''), ov)
      else case optimistic_verify (cr_ledger_info cr) validator mode (ov_author ov) (ov_ledger_info ov)
                  (ov_signature ov) of
             (r, s) \<Rightarrow> (with_context ''Failed to verify OrderVote'' (into_anyhow r), ov\<lparr>ov_signature := s\<rparr>))"

section \<open>Synchronisation info\<close>

record sync_info =
  si_highest_quorum_cert :: quorum_cert
  si_highest_ordered_cert :: "wrapped_ledger_info option"
  si_highest_commit_cert :: wrapped_ledger_info
  si_highest_2chain_timeout_cert :: "two_chain_timeout_certificate option"

definition sync_info_new_decoupled ::
    "quorum_cert \<Rightarrow> wrapped_ledger_info \<Rightarrow> wrapped_ledger_info \<Rightarrow> two_chain_timeout_certificate option \<Rightarrow> sync_info" where
  "sync_info_new_decoupled hqc hoc hcc htc =
     \<lparr>si_highest_quorum_cert = hqc, si_highest_ordered_cert = Some hoc, si_highest_commit_cert = hcc,
      si_highest_2chain_timeout_cert =
        (case htc of
           Some tc \<Rightarrow> if tc_round tc > bi_round (certified_block hqc) then Some tc else None
         | None \<Rightarrow> None)\<rparr>"

definition sync_info_new ::
    "quorum_cert \<Rightarrow> wrapped_ledger_info \<Rightarrow> two_chain_timeout_certificate option \<Rightarrow> sync_info" where
  "sync_info_new hqc hoc htc = sync_info_new_decoupled hqc hoc hoc htc"

definition highest_ordered_cert :: "sync_info \<Rightarrow> wrapped_ledger_info" where
  "highest_ordered_cert si =
     (case si_highest_ordered_cert si of
        Some cert \<Rightarrow> cert
      | None \<Rightarrow> into_wrapped_ledger_info (si_highest_quorum_cert si))"

definition highest_certified_round :: "sync_info \<Rightarrow> round_t" where
  "highest_certified_round si = bi_round (certified_block (si_highest_quorum_cert si))"

definition si_highest_timeout_round :: "sync_info \<Rightarrow> round_t" where
  "si_highest_timeout_round si =
     (case si_highest_2chain_timeout_cert si of None \<Rightarrow> 0 | Some tc \<Rightarrow> tc_round tc)"

definition highest_ordered_round :: "sync_info \<Rightarrow> round_t" where
  "highest_ordered_round si = bi_round (wli_commit_info (highest_ordered_cert si))"

definition highest_commit_round :: "sync_info \<Rightarrow> round_t" where
  "highest_commit_round si = bi_round (wli_commit_info (si_highest_commit_cert si))"

definition highest_round :: "sync_info \<Rightarrow> round_t" where
  "highest_round si = max (highest_certified_round si) (si_highest_timeout_round si)"

definition sync_info_verify_structure :: "sync_info \<Rightarrow> anyhow_error + unit" where
  "sync_info_verify_structure si =
     (let epoch = bi_epoch (certified_block (si_highest_quorum_cert si))
      in rbind (ensure (epoch = bi_epoch (wli_commit_info (highest_ordered_cert si)))
                  (Msg ''Multi epoch in SyncInfo - HOC and HQC'')) (\<lambda>_.
         rbind (ensure (epoch = bi_epoch (wli_commit_info (si_highest_commit_cert si)))
                  (Msg ''Multi epoch in SyncInfo - HOC and HCC'')) (\<lambda>_.
         rbind (case si_highest_2chain_timeout_cert si of
                  Some tc \<Rightarrow> ensure (epoch = tc_epoch tc) (Msg ''Multi epoch in SyncInfo - TC and HQC'')
                | None \<Rightarrow> Inr ()) (\<lambda>_.
         rbind (ensure (highest_certified_round si \<ge> bi_round (wli_commit_info (highest_ordered_cert si)))
                  (Msg ''HQC has lower round than HOC'')) (\<lambda>_.
         rbind (ensure (highest_ordered_round si \<ge> highest_commit_round si)
                  (Msg ''HOC has lower round than HLI'')) (\<lambda>_.
         rbind (ensure (wli_commit_info (highest_ordered_cert si) \<noteq> block_info_empty)
                  (Msg ''HOC has no committed block'')) (\<lambda>_.
         rbind (ensure (wli_commit_info (si_highest_commit_cert si) \<noteq> block_info_empty)
                  (Msg ''HLI has empty commit info'')) (\<lambda>_.
         ensure (\<not> is_ordered_only (wli_commit_info (si_highest_commit_cert si)))
           (Msg ''HLI has ordered only commit info'')))))))))"

definition sync_info_verify_certificates ::
    "crypto \<Rightarrow> validator_verifier \<Rightarrow> sync_info \<Rightarrow> anyhow_error + unit" where
  "sync_info_verify_certificates cr validator si =
     rbind (quorum_cert_verify cr validator (si_highest_quorum_cert si)) (\<lambda>_.
     rbind (with_context ''Fail to verify ordered certificate''
              (case si_highest_ordered_cert si of
                 None \<Rightarrow> Inr ()
               | Some cert \<Rightarrow> wrapped_ledger_info_verify cr validator cert)) (\<lambda>_.
     rbind (if bi_round (wli_commit_info (si_highest_commit_cert si)) > 0
            then with_context ''Fail to verify commit certificate''
                   (wrapped_ledger_info_verify cr validator (si_highest_commit_cert si))
            else Inr ()) (\<lambda>_.
     case si_highest_2chain_timeout_cert si of
       Some tc \<Rightarrow> timeout_certificate_verify cr validator tc
     | None \<Rightarrow> Inr ())))"

definition sync_info_verify :: "crypto \<Rightarrow> validator_verifier \<Rightarrow> sync_info \<Rightarrow> anyhow_error + unit" where
  "sync_info_verify cr validator si =
     rbind (sync_info_verify_structure si) (\<lambda>_.
     with_context ''Fail to verify SyncInfo'' (sync_info_verify_certificates cr validator si))"

definition sync_info_epoch :: "sync_info \<Rightarrow> u64" where
  "sync_info_epoch si = bi_epoch (certified_block (si_highest_quorum_cert si))"

definition has_newer_certificates :: "sync_info \<Rightarrow> sync_info \<Rightarrow> bool" where
  "has_newer_certificates si other \<longleftrightarrow>
     highest_certified_round si > highest_certified_round other \<or>
     si_highest_timeout_round si > si_highest_timeout_round other \<or>
     highest_ordered_round si > highest_ordered_round other \<or>
     highest_commit_round si > highest_commit_round other"

section \<open>Messages\<close>

record vote_msg =
  vm_vote :: vote
  vm_sync_info :: sync_info

definition vote_msg_verify ::
    "crypto \<Rightarrow> validator_verifier \<Rightarrow> verify_mode \<Rightarrow> account_address \<Rightarrow> (vote_msg, anyhow_error, unit) method_result" where
  "vote_msg_verify cr validator mode sender =
     sbind (sread (\<lambda>m.
       rbind (ensure (v_author (vm_vote m) = sender) (Msg ''Vote author is different from the sender'')) (\<lambda>_.
       rbind (ensure (vote_epoch (vm_vote m) = sync_info_epoch (vm_sync_info m))
                (Msg ''VoteMsg has different epoch'')) (\<lambda>_.
       rbind (ensure (bi_round (vd_proposed (v_vote_data (vm_vote m))) > highest_round (vm_sync_info m))
                (Msg ''Vote Round should be higher than SyncInfo'')) (\<lambda>_.
       case v_two_chain_timeout (vm_vote m) of
         Some (t, _) \<Rightarrow>
           ensure (hqc_round t \<le> highest_certified_round (vm_sync_info m))
             (Msg ''2-chain Timeout hqc should be less or equal than the sync info hqc'')
       | None \<Rightarrow> Inr ()))))) (\<lambda>_ m.
     case vote_verify cr validator mode (vm_vote m) of (r, v) \<Rightarrow> (r, m\<lparr>vm_vote := v\<rparr>))"

record order_vote_msg =
  ovm_order_vote :: order_vote
  ovm_quorum_cert :: quorum_cert

definition verify_order_vote ::
    "crypto \<Rightarrow> validator_verifier \<Rightarrow> verify_mode \<Rightarrow> account_address \<Rightarrow>
     (order_vote_msg, anyhow_error, unit) method_result" where
  "verify_order_vote cr validator mode sender =
     sbind (sread (\<lambda>m.
       rbind (ensure (ov_author (ovm_order_vote m) = sender)
                (Msg ''Order vote author is different from the sender'')) (\<lambda>_.
       ensure (certified_block (ovm_quorum_cert m) = li_commit_info (ov_ledger_info (ovm_order_vote m)))
         (Msg ''QuorumCert and OrderVote do not match'')))) (\<lambda>_ m.
     case order_vote_verify cr validator mode (ovm_order_vote m) of
       (r, ov) \<Rightarrow> (with_context ''[OrderVoteMsg] OrderVote verification failed'' r, m\<lparr>ovm_order_vote := ov\<rparr>))"

datatype round_timeout_reason =
    Unknown
  | ProposalNotReceived
  | PayloadUnavailable (missing_authors: bit_vec)
  | NoQC

record round_timeout =
  rt_timeout :: two_chain_timeout
  rt_author :: account_address
  rt_reason :: round_timeout_reason
  rt_signature :: bls_signature

definition round_timeout_verify :: "crypto \<Rightarrow> validator_verifier \<Rightarrow> round_timeout \<Rightarrow> anyhow_error + unit" where
  "round_timeout_verify cr validator rt =
     rbind (two_chain_timeout_verify cr validator (rt_timeout rt)) (\<lambda>_.
     with_context ''Failed to verify 2-chain timeout signature''
       (into_anyhow (vv_verify (cr_timeout cr) validator (rt_author rt) (signing_format (rt_timeout rt))
          (rt_signature rt))))"

record round_timeout_msg =
  rtm_round_timeout :: round_timeout
  rtm_sync_info :: sync_info

definition round_timeout_msg_verify ::
    "crypto \<Rightarrow> validator_verifier \<Rightarrow> round_timeout_msg \<Rightarrow> anyhow_error + unit" where
  "round_timeout_msg_verify cr validator m =
     rbind (ensure (tct_epoch (rt_timeout (rtm_round_timeout m)) = sync_info_epoch (rtm_sync_info m))
              (Msg ''RoundTimeoutV2Msg has different epoch'')) (\<lambda>_.
     rbind (ensure (tct_round (rt_timeout (rtm_round_timeout m)) > highest_round (rtm_sync_info m))
              (Msg ''Timeout Round should be higher than SyncInfo'')) (\<lambda>_.
     rbind (ensure (hqc_round (rt_timeout (rtm_round_timeout m)) \<le> highest_certified_round (rtm_sync_info m))
              (Msg ''2-chain Timeout hqc should be less or equal than the sync info hqc'')) (\<lambda>_.
     round_timeout_verify cr validator (rtm_round_timeout m))))"

section \<open>A concrete round\<close>

text \<open>
  Four validators, a genesis block and a block of round 1 with three votes: the concrete input on
  which later properties are evaluated.
\<close>

definition ex_crypto :: crypto where
  "ex_crypto =
     \<lparr>cr_ledger_info = toy_bls, cr_timeout = toy_bls,
      cr_vote_data_hash = (\<lambda>vd. if bi_round (vd_proposed vd) = 0 then 1 else 2)\<rparr>"

lemma ex_crypto_simps [simp]:
  "cr_ledger_info ex_crypto = toy_bls" "cr_timeout ex_crypto = toy_bls"
  "cr_vote_data_hash ex_crypto = (\<lambda>vd. if bi_round (vd_proposed vd) = 0 then 1 else 2)"
  by (simp_all add: ex_crypto_def)

definition ex_genesis_info :: block_info where
  "ex_genesis_info = block_info_new 1 0 5 8 0 9 None"

definition ex_genesis_qc :: quorum_cert where
  "ex_genesis_qc =
     quorum_cert_new (vote_data_new ex_genesis_info ex_genesis_info)
       (lis_new (ledger_info_new ex_genesis_info 1) aggregate_signature_empty)"

definition ex_block_info :: block_info where
  "ex_block_info = block_info_new 1 1 6 ACCUMULATOR_PLACEHOLDER_HASH 0 9 None"

definition ex_vote_data :: vote_data where
  "ex_vote_data = vote_data_new ex_block_info ex_genesis_info"

definition ex_vote_li :: ledger_info where
  "ex_vote_li = ledger_info_new block_info_empty 2"

definition ex_vote :: "account_address \<Rightarrow> vote" where
  "ex_vote a = vote_new_with_signature ex_vote_data a ex_vote_li [1]"

definition ex_qc :: quorum_cert where
  "ex_qc = quorum_cert_new ex_vote_data (lis_new ex_vote_li ex_aggregate)"

definition ex_order_vote :: "account_address \<Rightarrow> order_vote" where
  "ex_order_vote a = order_vote_new_with_signature a (ledger_info_new ex_block_info 0) [1]"

lemma ex_genesis_info_simps [simp]:
  "bi_epoch ex_genesis_info = 1" "bi_round ex_genesis_info = 0" "bi_timestamp_usecs ex_genesis_info = 9"
  "bi_next_epoch_state ex_genesis_info = None" "bi_version ex_genesis_info = 0"
  by (simp_all add: ex_genesis_info_def block_info_new_def)

lemma ex_block_info_simps [simp]:
  "bi_epoch ex_block_info = 1" "bi_round ex_block_info = 1" "bi_id ex_block_info = 6"
  "bi_timestamp_usecs ex_block_info = 9" "bi_version ex_block_info = 0"
  by (simp_all add: ex_block_info_def block_info_new_def)

lemma ex_vote_data_simps [simp]: "vd_proposed ex_vote_data = ex_block_info" "vd_parent ex_vote_data = ex_genesis_info"
  by (simp_all add: ex_vote_data_def vote_data_new_def)

lemma ex_genesis_qc_simps [simp]:
  "certified_block ex_genesis_qc = ex_genesis_info" "parent_block ex_genesis_qc = ex_genesis_info"
  "qc_ends_epoch ex_genesis_qc = False"
  by (simp_all add: ex_genesis_qc_def quorum_cert_new_def certified_block_def parent_block_def vote_data_new_def
      qc_ends_epoch_def ends_epoch_def qc_ledger_info_def lis_new_def ledger_info_new_def li_next_epoch_state_def)

lemma ex_genesis_qc_verifies: "quorum_cert_verify ex_crypto vv ex_genesis_qc = Inr ()"
  by (simp add: quorum_cert_verify_def)
    (simp add: ex_genesis_qc_def quorum_cert_new_def qc_ledger_info_def lis_new_def ledger_info_new_def vote_data_new_def
      lis_get_num_voters_def get_num_voters_def aggregate_signature_empty_def bitvec_default_def count_ones_def)

lemma ex_qc_simps [simp]: "certified_block ex_qc = ex_block_info" "parent_block ex_qc = ex_genesis_info"
  by (simp_all add: ex_qc_def quorum_cert_new_def certified_block_def parent_block_def)

lemma ex_qc_verifies: "quorum_cert_verify ex_crypto ex_verifier ex_qc = Inr ()"
  by (simp add: quorum_cert_verify_def)
    (simp add: ex_qc_def quorum_cert_new_def qc_ledger_info_def lis_new_def verify_signatures_def ex_aggregate_verifies
      ex_vote_li_def ledger_info_new_def vote_data_verify_def)

lemma ex_vote_parts [simp]: "v_vote_data (ex_vote a) = ex_vote_data" "v_ledger_info (ex_vote a) = ex_vote_li"
  by (simp_all add: ex_vote_def vote_new_with_signature_def)

end
