(* ===== verification/Payload.thy ===== *)
theory Payload
  imports Ledger_Info
begin

text \<open>
  Block payloads: \<open>payload.rs\<close>, the batch infos and proofs of
  \<open>proof_of_store.rs\<close>, and \<open>Payload\<close> of \<open>common.rs\<close> in
  \<open>consensus/consensus-types/src\<close>. The trait \<open>TBatchInfo\<close> is a record of its
  methods; transactions, their hash and the signature scheme are the parameter
  \<open>payload_env\<close>. \<open>usize\<close> has 64 bits.
\<close>

section \<open>Batch infos\<close>

record batch_id =
  bid_id :: u64
  bid_nonce :: u64

datatype batch_kind = Normal | Encrypted

record batch_info =
  bin_author :: account_address
  bin_batch_id :: batch_id
  bin_epoch :: u64
  bin_expiration :: u64
  bin_digest :: hash_value
  bin_num_txns :: u64
  bin_num_bytes :: u64
  bin_gas_bucket_start :: u64

datatype batch_info_ext =
    BatchInfoV1 batch_info
  | BatchInfoV2 batch_info batch_kind

fun ext_info :: "batch_info_ext \<Rightarrow> batch_info" where
  "ext_info (BatchInfoV1 info) = info"
| "ext_info (BatchInfoV2 info _) = info"

fun is_v2 :: "batch_info_ext \<Rightarrow> bool" where
  "is_v2 (BatchInfoV1 _) = False"
| "is_v2 (BatchInfoV2 _ _) = True"

fun ext_batch_kind :: "batch_info_ext \<Rightarrow> batch_kind option" where
  "ext_batch_kind (BatchInfoV1 _) = None"
| "ext_batch_kind (BatchInfoV2 _ kind) = Some kind"

text \<open>The methods of the trait \<open>TBatchInfo\<close> that payloads use, and its two implementations.\<close>

record 't t_batch_info =
  tb_epoch :: "'t \<Rightarrow> u64"
  tb_num_txns :: "'t \<Rightarrow> u64"
  tb_num_bytes :: "'t \<Rightarrow> u64"
  tb_as_batch_info :: "'t \<Rightarrow> batch_info"
  tb_author :: "'t \<Rightarrow> account_address"
  tb_digest :: "'t \<Rightarrow> hash_value"
  tb_batch_kind :: "'t \<Rightarrow> batch_kind option"
  tb_into :: "'t \<Rightarrow> batch_info_ext"

definition batch_info_impl :: "batch_info t_batch_info" where
  "batch_info_impl =
     \<lparr>tb_epoch = bin_epoch, tb_num_txns = bin_num_txns, tb_num_bytes = bin_num_bytes,
      tb_as_batch_info = (\<lambda>info. info), tb_author = bin_author, tb_digest = bin_digest,
      tb_batch_kind = (\<lambda>_. None), tb_into = BatchInfoV1\<rparr>"

definition batch_info_ext_impl :: "batch_info_ext t_batch_info" where
  "batch_info_ext_impl =
     \<lparr>tb_epoch = (\<lambda>i. bin_epoch (ext_info i)), tb_num_txns = (\<lambda>i. bin_num_txns (ext_info i)),
      tb_num_bytes = (\<lambda>i. bin_num_bytes (ext_info i)), tb_as_batch_info = ext_info,
      tb_author = (\<lambda>i. bin_author (ext_info i)), tb_digest = (\<lambda>i. bin_digest (ext_info i)),
      tb_batch_kind = ext_batch_kind, tb_into = (\<lambda>i. i)\<rparr>"

section \<open>Transactions\<close>

text \<open>A signed transaction is its encoding; what the checks ask of it are parameters.\<close>

type_synonym signed_transaction = "u8 list"

record payload_env =
  pe_batch_info_bls :: "batch_info bls"
  pe_batch_info_ext_bls :: "batch_info_ext bls"
  pe_batch_payload_hash :: "account_address \<Rightarrow> signed_transaction list \<Rightarrow> hash_value"
  pe_raw_txn_bytes_len :: "signed_transaction \<Rightarrow> u64"
  pe_is_encrypted_txn :: "signed_transaction \<Rightarrow> bool"
  pe_payload_is_encrypted :: "signed_transaction \<Rightarrow> bool"
  pe_payload_is_multisig :: "signed_transaction \<Rightarrow> bool"
  pe_all_signer_auth_keys :: "signed_transaction \<Rightarrow> u8 list list option"
  pe_verify_ciphertext :: "signed_transaction \<Rightarrow> u8 list list \<Rightarrow> anyhow_error + unit"

fun try_for_each :: "('a \<Rightarrow> 'e + unit) \<Rightarrow> 'a list \<Rightarrow> 'e + unit" where
  "try_for_each f [] = Inr ()"
| "try_for_each f (x # xs) = rbind (f x) (\<lambda>_. try_for_each f xs)"

definition verify_encrypted_txn :: "payload_env \<Rightarrow> signed_transaction \<Rightarrow> anyhow_error + unit" where
  "verify_encrypted_txn pe txn =
     rbind (ensure (pe_is_encrypted_txn pe txn) (Msg ''Encrypted batch contains non-encrypted transaction'')) (\<lambda>_.
     rbind (ensure (pe_payload_is_encrypted pe txn)
              (Msg ''Encrypted batch contains transaction not in Encrypted state'')) (\<lambda>_.
     rbind (ensure (\<not> pe_payload_is_multisig pe txn)
              (Msg ''Encrypted transactions do not support multisig'')) (\<lambda>_.
     rbind (ok_or (Msg ''Encrypted transactions are not supported with this authenticator type'')
              (pe_all_signer_auth_keys pe txn)) (\<lambda>keys.
     with_context ''Encrypted transaction ciphertext verification failed'' (pe_verify_ciphertext pe txn keys)))))"

definition verify_batch_kind_transactions ::
    "payload_env \<Rightarrow> batch_kind option \<Rightarrow> signed_transaction list \<Rightarrow> anyhow_error + unit" where
  "verify_batch_kind_transactions pe kind txns =
     (case kind of
        Some Encrypted \<Rightarrow> try_for_each (verify_encrypted_txn pe) txns
      | Some Normal \<Rightarrow>
          try_for_each (\<lambda>txn. ensure (\<not> pe_is_encrypted_txn pe txn)
                                (Msg ''Normal batch contains encrypted transaction'')) txns
      | None \<Rightarrow>
          try_for_each (\<lambda>txn. ensure (\<not> pe_is_encrypted_txn pe txn)
                                (Msg ''V1 batch contains encrypted transaction'')) txns)"

definition verify_batch_info_limits :: "'t t_batch_info \<Rightarrow> 't \<Rightarrow> u64 \<Rightarrow> u64 \<Rightarrow> anyhow_error + unit" where
  "verify_batch_info_limits tb batch max_batch_txns max_batch_bytes =
     rbind (ensure (tb_num_txns tb batch \<ge> 1) (Msg ''Batch must contain at least one transaction, got 0'')) (\<lambda>_.
     rbind (ensure (tb_num_txns tb batch \<le> max_batch_txns) (Msg ''Batch txn count exceeds limit'')) (\<lambda>_.
     ensure (tb_num_bytes tb batch \<le> max_batch_bytes) (Msg ''Batch byte count exceeds limit'')))"

section \<open>Proofs of store\<close>

record 't proof_of_store =
  pos_info :: 't
  pos_multi_signature :: aggregate_signature

text \<open>The cache of verified proofs, as the map of what a lookup returns.\<close>

type_synonym proof_cache = "batch_info_ext \<rightharpoonup> aggregate_signature"

definition proof_signature_verify ::
    "payload_env \<Rightarrow> 't t_batch_info \<Rightarrow> validator_verifier \<Rightarrow> 't proof_of_store \<Rightarrow> anyhow_error + unit" where
  "proof_signature_verify pe tb validator pos =
     with_context ''Failed to verify ProofOfStore for batch''
       (into_anyhow
          (if is_v2 (tb_into tb (pos_info pos))
           then verify_multi_signatures (pe_batch_info_ext_bls pe) validator (tb_into tb (pos_info pos))
                  (pos_multi_signature pos)
           else verify_multi_signatures (pe_batch_info_bls pe) validator (tb_as_batch_info tb (pos_info pos))
                  (pos_multi_signature pos)))"

definition proof_of_store_verify ::
    "payload_env \<Rightarrow> 't t_batch_info \<Rightarrow> validator_verifier \<Rightarrow> 't proof_of_store \<Rightarrow>
     (proof_cache, anyhow_error, unit) method_result" where
  "proof_of_store_verify pe tb validator pos cache =
     (let batch_info_ext = tb_into tb (pos_info pos)
      in if cache batch_info_ext = Some (pos_multi_signature pos) then (Inr (), cache)
         else case proof_signature_verify pe tb validator pos of
                Inl e \<Rightarrow> (Inl e, cache)
              | Inr _ \<Rightarrow> (Inr (), cache(batch_info_ext \<mapsto> pos_multi_signature pos)))"

fun try_each_method :: "('a \<Rightarrow> ('s, 'e, unit) method_result) \<Rightarrow> 'a list \<Rightarrow> ('s, 'e, unit) method_result" where
  "try_each_method f [] = sreturn ()"
| "try_each_method f (x # xs) = sbind (f x) (\<lambda>_. try_each_method f xs)"

text \<open>
  The proofs that are not cached are verified in parallel; the model takes them in order.
\<close>

definition verify_with_cache ::
    "payload_env \<Rightarrow> 't t_batch_info \<Rightarrow> validator_verifier \<Rightarrow> 't proof_of_store list \<Rightarrow>
     (proof_cache, anyhow_error, unit) method_result" where
  "verify_with_cache pe tb validator proofs cache =
     try_each_method (proof_of_store_verify pe tb validator)
       (filter (\<lambda>pos. cache (tb_into tb (pos_info pos)) \<noteq> Some (pos_multi_signature pos)) proofs) cache"

section \<open>Execution limits\<close>

record txn_and_gas_limits =
  transaction_limit :: "u64 option"
  gas_limit :: "u64 option"

datatype payload_execution_limit =
    NoLimit
  | MaxTransactionsToExecute u64
  | TxnAndGasLimits txn_and_gas_limits

definition payload_execution_limit_new :: "u64 option \<Rightarrow> u64 option \<Rightarrow> payload_execution_limit" where
  "payload_execution_limit_new max_txns max_gas =
     (case max_txns of Some n \<Rightarrow> MaxTransactionsToExecute n | None \<Rightarrow> NoLimit)"

text \<open>The additions panic on overflow: \<open>None\<close>.\<close>

fun extend_options :: "u64 option \<Rightarrow> u64 option \<Rightarrow> u64 option option" where
  "extend_options (Some v1) (Some v2) = map_option Some (checked_add v1 v2)"
| "extend_options (Some v) None = Some (Some v)"
| "extend_options None (Some v) = Some (Some v)"
| "extend_options None None = Some None"

definition unwrap_or_zero :: "u64 option \<Rightarrow> u64" where
  "unwrap_or_zero opt = (case opt of None \<Rightarrow> 0 | Some v \<Rightarrow> v)"

fun execution_limit_extend ::
    "payload_execution_limit \<Rightarrow> payload_execution_limit \<Rightarrow> payload_execution_limit option" where
  "execution_limit_extend NoLimit other = Some other"
| "execution_limit_extend self NoLimit = Some self"
| "execution_limit_extend (MaxTransactionsToExecute l1) (MaxTransactionsToExecute l2) =
     map_option MaxTransactionsToExecute (checked_add l1 l2)"
| "execution_limit_extend (TxnAndGasLimits b1) (TxnAndGasLimits b2) =
     Option.bind (extend_options (transaction_limit b1) (transaction_limit b2)) (\<lambda>txns.
     Option.bind (extend_options (gas_limit b1) (gas_limit b2)) (\<lambda>gas.
     Some (TxnAndGasLimits \<lparr>transaction_limit = txns, gas_limit = gas\<rparr>)))"
| "execution_limit_extend (MaxTransactionsToExecute l1) (TxnAndGasLimits b2) =
     map_option (\<lambda>n. TxnAndGasLimits \<lparr>transaction_limit = Some n, gas_limit = gas_limit b2\<rparr>)
       (checked_add l1 (unwrap_or_zero (transaction_limit b2)))"
| "execution_limit_extend (TxnAndGasLimits b1) (MaxTransactionsToExecute l2) =
     map_option (\<lambda>n. TxnAndGasLimits \<lparr>transaction_limit = Some n, gas_limit = gas_limit b1\<rparr>)
       (checked_add l2 (unwrap_or_zero (transaction_limit b1)))"

fun max_txns_to_execute :: "payload_execution_limit \<Rightarrow> u64 option" where
  "max_txns_to_execute NoLimit = None"
| "max_txns_to_execute (MaxTransactionsToExecute n) = Some n"
| "max_txns_to_execute (TxnAndGasLimits limits) = transaction_limit limits"

fun block_gas_limit :: "payload_execution_limit \<Rightarrow> u64 option" where
  "block_gas_limit (TxnAndGasLimits limits) = gas_limit limits"
| "block_gas_limit _ = None"

section \<open>Quorum store payloads\<close>

record 't inline_batch =
  ib_batch_info :: 't
  ib_transactions :: "signed_transaction list"

text \<open>
  \<open>InlineBatches\<close>, \<open>OptBatches\<close> and \<open>ProofBatches\<close> wrap vectors.
\<close>

record 't opt_quorum_store_payload_v1 =
  oqs_inline_batches :: "'t inline_batch list"
  oqs_opt_batches :: "'t list"
  oqs_proofs :: "'t proof_of_store list"
  oqs_execution_limits :: payload_execution_limit

definition sum_usize :: "('a \<Rightarrow> u64) \<Rightarrow> 'a list \<Rightarrow> u64 option" where
  "sum_usize f xs = fold (\<lambda>x acc. Option.bind acc (\<lambda>a. checked_add a (f x))) xs (Some 0)"

definition add_usize :: "u64 option \<Rightarrow> u64 option \<Rightarrow> u64 option" where
  "add_usize a b = Option.bind a (\<lambda>x. Option.bind b (checked_add x))"

definition get_all_batch_infos :: "'t t_batch_info \<Rightarrow> 't opt_quorum_store_payload_v1 \<Rightarrow> batch_info_ext list" where
  "get_all_batch_infos tb p =
     map (tb_into tb)
       (map ib_batch_info (oqs_inline_batches p) @ oqs_opt_batches p @ map pos_info (oqs_proofs p))"

definition v1_check_epoch :: "'t t_batch_info \<Rightarrow> 't opt_quorum_store_payload_v1 \<Rightarrow> u64 \<Rightarrow> anyhow_error + unit" where
  "v1_check_epoch tb p epoch =
     rbind (ensure (list_all (\<lambda>b. tb_epoch tb (ib_batch_info b) = epoch) (oqs_inline_batches p))
              (Msg ''OptQS InlineBatch epoch doesn't match given epoch'')) (\<lambda>_.
     rbind (ensure (list_all (\<lambda>b. tb_epoch tb b = epoch) (oqs_opt_batches p))
              (Msg ''OptQS OptBatch epoch doesn't match given epoch'')) (\<lambda>_.
     ensure (list_all (\<lambda>b. tb_epoch tb (pos_info b) = epoch) (oqs_proofs p))
       (Msg ''OptQS Proof epoch doesn't match given epoch'')))"

definition v1_extend ::
    "'t opt_quorum_store_payload_v1 \<Rightarrow> 't opt_quorum_store_payload_v1 \<Rightarrow> 't opt_quorum_store_payload_v1 option" where
  "v1_extend p other =
     map_option
       (\<lambda>limits.
          \<lparr>oqs_inline_batches = oqs_inline_batches p @ oqs_inline_batches other,
           oqs_opt_batches = oqs_opt_batches p @ oqs_opt_batches other,
           oqs_proofs = oqs_proofs p @ oqs_proofs other,
           oqs_execution_limits = limits\<rparr>)
       (execution_limit_extend (oqs_execution_limits p) (oqs_execution_limits other))"

definition v1_has_encrypted_batches :: "'t t_batch_info \<Rightarrow> 't opt_quorum_store_payload_v1 \<Rightarrow> bool" where
  "v1_has_encrypted_batches tb p \<longleftrightarrow>
     list_ex (\<lambda>b. tb_batch_kind tb (ib_batch_info b) = Some Encrypted) (oqs_inline_batches p) \<or>
     list_ex (\<lambda>b. tb_batch_kind tb b = Some Encrypted) (oqs_opt_batches p) \<or>
     list_ex (\<lambda>b. tb_batch_kind tb (pos_info b) = Some Encrypted) (oqs_proofs p)"

definition v1_num_txns :: "'t t_batch_info \<Rightarrow> 't opt_quorum_store_payload_v1 \<Rightarrow> u64 option" where
  "v1_num_txns tb p =
     add_usize
       (add_usize (sum_usize (tb_num_txns tb) (oqs_opt_batches p))
          (sum_usize (\<lambda>b. tb_num_txns tb (pos_info b)) (oqs_proofs p)))
       (sum_usize (\<lambda>b. tb_num_txns tb (ib_batch_info b)) (oqs_inline_batches p))"

definition v1_num_bytes :: "'t t_batch_info \<Rightarrow> 't opt_quorum_store_payload_v1 \<Rightarrow> u64 option" where
  "v1_num_bytes tb p =
     add_usize
       (add_usize (sum_usize (tb_num_bytes tb) (oqs_opt_batches p))
          (sum_usize (\<lambda>b. tb_num_bytes tb (pos_info b)) (oqs_proofs p)))
       (sum_usize (\<lambda>b. tb_num_bytes tb (ib_batch_info b)) (oqs_inline_batches p))"

definition v1_is_empty :: "'t opt_quorum_store_payload_v1 \<Rightarrow> bool" where
  "v1_is_empty p \<longleftrightarrow> oqs_opt_batches p = [] \<and> oqs_proofs p = [] \<and> oqs_inline_batches p = []"

definition v1_into_ext ::
    "batch_info opt_quorum_store_payload_v1 \<Rightarrow> batch_info_ext opt_quorum_store_payload_v1" where
  "v1_into_ext p =
     \<lparr>oqs_inline_batches =
        map (\<lambda>b. \<lparr>ib_batch_info = BatchInfoV1 (ib_batch_info b), ib_transactions = ib_transactions b\<rparr>)
          (oqs_inline_batches p),
      oqs_opt_batches = map BatchInfoV1 (oqs_opt_batches p),
      oqs_proofs =
        map (\<lambda>b. \<lparr>pos_info = BatchInfoV1 (pos_info b), pos_multi_signature = pos_multi_signature b\<rparr>) (oqs_proofs p),
      oqs_execution_limits = oqs_execution_limits p\<rparr>"

datatype opt_quorum_store_payload =
    OptQS_V1 "batch_info opt_quorum_store_payload_v1"
  | OptQS_V2 "batch_info_ext opt_quorum_store_payload_v1"

definition opt_quorum_store_payload_empty :: opt_quorum_store_payload where
  "opt_quorum_store_payload_empty =
     OptQS_V1 \<lparr>oqs_inline_batches = [], oqs_opt_batches = [], oqs_proofs = [], oqs_execution_limits = NoLimit\<rparr>"

fun oqs_extend :: "opt_quorum_store_payload \<Rightarrow> opt_quorum_store_payload \<Rightarrow> opt_quorum_store_payload option" where
  "oqs_extend (OptQS_V1 p1) (OptQS_V1 p2) = map_option OptQS_V1 (v1_extend p1 p2)"
| "oqs_extend (OptQS_V2 p1) (OptQS_V2 p2) = map_option OptQS_V2 (v1_extend p1 p2)"
| "oqs_extend (OptQS_V1 p1) (OptQS_V2 p2) = map_option OptQS_V2 (v1_extend (v1_into_ext p1) p2)"
| "oqs_extend (OptQS_V2 p1) (OptQS_V1 p2) = map_option OptQS_V2 (v1_extend p1 (v1_into_ext p2))"

fun oqs_set_execution_limit :: "opt_quorum_store_payload \<Rightarrow> payload_execution_limit \<Rightarrow> opt_quorum_store_payload" where
  "oqs_set_execution_limit (OptQS_V1 p) limits = OptQS_V1 (p\<lparr>oqs_execution_limits := limits\<rparr>)"
| "oqs_set_execution_limit (OptQS_V2 p) limits = OptQS_V2 (p\<lparr>oqs_execution_limits := limits\<rparr>)"

fun oqs_num_txns :: "opt_quorum_store_payload \<Rightarrow> u64 option" where
  "oqs_num_txns (OptQS_V1 p) = v1_num_txns batch_info_impl p"
| "oqs_num_txns (OptQS_V2 p) = v1_num_txns batch_info_ext_impl p"

fun oqs_is_empty :: "opt_quorum_store_payload \<Rightarrow> bool" where
  "oqs_is_empty (OptQS_V1 p) = v1_is_empty p"
| "oqs_is_empty (OptQS_V2 p) = v1_is_empty p"

fun oqs_num_bytes :: "opt_quorum_store_payload \<Rightarrow> u64 option" where
  "oqs_num_bytes (OptQS_V1 p) = v1_num_bytes batch_info_impl p"
| "oqs_num_bytes (OptQS_V2 p) = v1_num_bytes batch_info_ext_impl p"

fun oqs_max_txns_to_execute :: "opt_quorum_store_payload \<Rightarrow> u64 option" where
  "oqs_max_txns_to_execute (OptQS_V1 p) = max_txns_to_execute (oqs_execution_limits p)"
| "oqs_max_txns_to_execute (OptQS_V2 p) = max_txns_to_execute (oqs_execution_limits p)"

fun oqs_has_encrypted_batches :: "opt_quorum_store_payload \<Rightarrow> bool" where
  "oqs_has_encrypted_batches (OptQS_V1 p) = v1_has_encrypted_batches batch_info_impl p"
| "oqs_has_encrypted_batches (OptQS_V2 p) = v1_has_encrypted_batches batch_info_ext_impl p"

fun oqs_check_epoch :: "opt_quorum_store_payload \<Rightarrow> u64 \<Rightarrow> anyhow_error + unit" where
  "oqs_check_epoch (OptQS_V1 p) epoch = v1_check_epoch batch_info_impl p epoch"
| "oqs_check_epoch (OptQS_V2 p) epoch = v1_check_epoch batch_info_ext_impl p epoch"

section \<open>Payloads\<close>

datatype payload =
    DirectMempool "signed_transaction list"
  | DeprecatedInQuorumStore
  | DeprecatedInQuorumStoreWithLimit
  | DeprecatedQuorumStoreInlineHybrid
  | OptQuorumStore opt_quorum_store_payload
  | DeprecatedQuorumStoreInlineHybridV2

text \<open>In the operations below \<open>None\<close> is \<open>unreachable!()\<close> or an overflow.\<close>

fun transform_to_quorum_store_v2 :: "payload \<Rightarrow> u64 option \<Rightarrow> u64 option \<Rightarrow> payload option" where
  "transform_to_quorum_store_v2 (DirectMempool txns) _ _ = Some (DirectMempool txns)"
| "transform_to_quorum_store_v2 (OptQuorumStore p) max_txns gas_override =
     Some (OptQuorumStore (oqs_set_execution_limit p
       (TxnAndGasLimits \<lparr>transaction_limit = max_txns, gas_limit = gas_override\<rparr>)))"
| "transform_to_quorum_store_v2 _ _ _ = None"

definition payload_empty :: "bool \<Rightarrow> payload" where
  "payload_empty quorum_store_enabled =
     (if quorum_store_enabled then OptQuorumStore opt_quorum_store_payload_empty else DirectMempool [])"

fun payload_len :: "payload \<Rightarrow> u64 option" where
  "payload_len (DirectMempool txns) = Some (word_of_nat (length txns))"
| "payload_len (OptQuorumStore p) = oqs_num_txns p"
| "payload_len _ = None"

fun len_for_execution :: "payload \<Rightarrow> u64 option" where
  "len_for_execution (DirectMempool txns) = Some (word_of_nat (length txns))"
| "len_for_execution (OptQuorumStore p) =
     map_option (\<lambda>n. min n (case oqs_max_txns_to_execute p of Some m \<Rightarrow> m | None \<Rightarrow> - 1)) (oqs_num_txns p)"
| "len_for_execution _ = None"

fun payload_is_empty :: "payload \<Rightarrow> bool option" where
  "payload_is_empty (DirectMempool txns) = Some (txns = [])"
| "payload_is_empty (OptQuorumStore p) = Some (oqs_is_empty p)"
| "payload_is_empty _ = None"

fun payload_extend :: "payload \<Rightarrow> payload \<Rightarrow> payload option" where
  "payload_extend (DirectMempool v1) (DirectMempool v2) = Some (DirectMempool (v1 @ v2))"
| "payload_extend (OptQuorumStore p1) (OptQuorumStore p2) = map_option OptQuorumStore (oqs_extend p1 p2)"
| "payload_extend s _ = Some s"

fun payload_has_encrypted_batches :: "payload \<Rightarrow> bool" where
  "payload_has_encrypted_batches (OptQuorumStore p) = oqs_has_encrypted_batches p"
| "payload_has_encrypted_batches _ = False"

fun is_direct :: "payload \<Rightarrow> bool" where
  "is_direct (DirectMempool _) = True"
| "is_direct _ = False"

fun payload_size :: "payload_env \<Rightarrow> payload \<Rightarrow> u64 option" where
  "payload_size pe (DirectMempool txns) = sum_usize (pe_raw_txn_bytes_len pe) txns"
| "payload_size pe (OptQuorumStore p) = oqs_num_bytes p"
| "payload_size pe _ = None"

definition verify_inline_batches ::
    "payload_env \<Rightarrow> 't t_batch_info \<Rightarrow> 't inline_batch list \<Rightarrow> u64 \<Rightarrow> u64 \<Rightarrow> anyhow_error + unit" where
  "verify_inline_batches pe tb inline_batches max_batch_txns max_batch_bytes =
     try_for_each
       (\<lambda>b. rbind (verify_batch_info_limits tb (ib_batch_info b) max_batch_txns max_batch_bytes) (\<lambda>_.
             rbind (ensure (pe_batch_payload_hash pe (tb_author tb (ib_batch_info b)) (ib_transactions b) =
                              tb_digest tb (ib_batch_info b))
                      (Msg ''Hash of the received inline batch doesn't match the digest value'')) (\<lambda>_.
             verify_batch_kind_transactions pe (tb_batch_kind tb (ib_batch_info b)) (ib_transactions b))))
       inline_batches"

definition verify_opt_batches ::
    "'t t_batch_info \<Rightarrow> validator_verifier \<Rightarrow> 't list \<Rightarrow> u64 \<Rightarrow> u64 \<Rightarrow> anyhow_error + unit" where
  "verify_opt_batches tb verifier opt_batches max_batch_txns max_batch_bytes =
     try_for_each
       (\<lambda>b. rbind (verify_batch_info_limits tb b max_batch_txns max_batch_bytes) (\<lambda>_.
             ensure (address_to_validator_index verifier (tb_author tb b) \<noteq> None)
               (Msg ''Invalid author for batch'')))
       opt_batches"

definition verify_opt_quorum_store ::
    "payload_env \<Rightarrow> 't t_batch_info \<Rightarrow> validator_verifier \<Rightarrow> 't opt_quorum_store_payload_v1 \<Rightarrow> u64 \<Rightarrow> u64 \<Rightarrow>
     (proof_cache, anyhow_error, unit) method_result" where
  "verify_opt_quorum_store pe tb verifier p max_batch_txns max_batch_bytes =
     sbind (verify_with_cache pe tb verifier (oqs_proofs p)) (\<lambda>_.
     slift
       (rbind (try_for_each (\<lambda>pos. verify_batch_info_limits tb (pos_info pos) max_batch_txns max_batch_bytes)
                 (oqs_proofs p)) (\<lambda>_.
        rbind (verify_inline_batches pe tb (oqs_inline_batches p) max_batch_txns max_batch_bytes) (\<lambda>_.
        verify_opt_batches tb verifier (oqs_opt_batches p) max_batch_txns max_batch_bytes))))"

fun payload_verify ::
    "payload_env \<Rightarrow> validator_verifier \<Rightarrow> bool \<Rightarrow> bool \<Rightarrow> u64 \<Rightarrow> u64 \<Rightarrow> payload \<Rightarrow>
     (proof_cache, anyhow_error, unit) method_result" where
  "payload_verify pe verifier False v2_enabled max_batch_txns max_batch_bytes (DirectMempool _) = sreturn ()"
| "payload_verify pe verifier True v2_enabled max_batch_txns max_batch_bytes (OptQuorumStore (OptQS_V1 p)) =
     verify_opt_quorum_store pe batch_info_impl verifier p max_batch_txns max_batch_bytes"
| "payload_verify pe verifier True v2_enabled max_batch_txns max_batch_bytes (OptQuorumStore (OptQS_V2 p)) =
     sbind (slift (ensure v2_enabled (Msg ''OptQuorumStorePayload::V2 cannot be accepted yet''))) (\<lambda>_.
     verify_opt_quorum_store pe batch_info_ext_impl verifier p max_batch_txns max_batch_bytes)"
| "payload_verify pe verifier _ _ _ _ _ = slift (Inl (Msg ''Wrong payload type''))"

fun payload_verify_epoch :: "payload \<Rightarrow> u64 \<Rightarrow> anyhow_error + unit" where
  "payload_verify_epoch (DirectMempool _) epoch = Inr ()"
| "payload_verify_epoch (OptQuorumStore p) epoch = oqs_check_epoch p epoch"
| "payload_verify_epoch _ epoch = Inl (Msg ''Unsupported payload type'')"

section \<open>Lemmas\<close>

text \<open>
  What the generic code relies on of a batch info type: the conversion to \<open>BatchInfoExt\<close>
  keeps what the checks read.
\<close>

locale batch_info_contract =
  fixes tb :: "'t t_batch_info"
  assumes into_info: "ext_info (tb_into tb i) = tb_as_batch_info tb i"
    and epoch_info: "tb_epoch tb i = bin_epoch (tb_as_batch_info tb i)"
    and num_txns_info: "tb_num_txns tb i = bin_num_txns (tb_as_batch_info tb i)"
    and kind_into: "tb_batch_kind tb i = ext_batch_kind (tb_into tb i)"
begin

lemma check_epoch_all:
  "v1_check_epoch tb p epoch = Inr u \<longleftrightarrow> (\<forall>i \<in> set (get_all_batch_infos tb p). bin_epoch (ext_info i) = epoch)"
  by (simp add: v1_check_epoch_def result_simps get_all_batch_infos_def list_all_iff into_info epoch_info ball_Un)

lemma has_encrypted_all:
  "v1_has_encrypted_batches tb p \<longleftrightarrow> (\<exists>i \<in> set (get_all_batch_infos tb p). ext_batch_kind i = Some Encrypted)"
  by (simp add: v1_has_encrypted_batches_def get_all_batch_infos_def list_ex_iff kind_into bex_Un)

end

interpretation batch_info_v1: batch_info_contract batch_info_impl
  by unfold_locales (simp_all add: batch_info_impl_def)

interpretation batch_info_v2: batch_info_contract batch_info_ext_impl
  by unfold_locales (simp_all add: batch_info_ext_impl_def)

text \<open>The cache holds only signatures that verify for their batch.\<close>

definition cache_sound :: "payload_env \<Rightarrow> validator_verifier \<Rightarrow> proof_cache \<Rightarrow> bool" where
  "cache_sound pe vv cache \<longleftrightarrow>
     (\<forall>i s. cache i = Some s \<longrightarrow>
        proof_signature_verify pe batch_info_ext_impl vv \<lparr>pos_info = i, pos_multi_signature = s\<rparr> = Inr ())"

text \<open>The verification of a payload that checks the signature of every proof.\<close>

definition verify_opt_quorum_store_uncached ::
    "payload_env \<Rightarrow> 't t_batch_info \<Rightarrow> validator_verifier \<Rightarrow> 't opt_quorum_store_payload_v1 \<Rightarrow> u64 \<Rightarrow> u64 \<Rightarrow>
     anyhow_error + unit" where
  "verify_opt_quorum_store_uncached pe tb verifier p max_batch_txns max_batch_bytes =
     rbind (try_for_each (proof_signature_verify pe tb verifier) (oqs_proofs p)) (\<lambda>_.
     rbind (try_for_each (\<lambda>pos. verify_batch_info_limits tb (pos_info pos) max_batch_txns max_batch_bytes)
              (oqs_proofs p)) (\<lambda>_.
     rbind (verify_inline_batches pe tb (oqs_inline_batches p) max_batch_txns max_batch_bytes) (\<lambda>_.
     verify_opt_batches tb verifier (oqs_opt_batches p) max_batch_txns max_batch_bytes)))"

fun payload_verify_uncached ::
    "payload_env \<Rightarrow> validator_verifier \<Rightarrow> bool \<Rightarrow> bool \<Rightarrow> u64 \<Rightarrow> u64 \<Rightarrow> payload \<Rightarrow> anyhow_error + unit" where
  "payload_verify_uncached pe verifier False v2_enabled max_batch_txns max_batch_bytes (DirectMempool _) = Inr ()"
| "payload_verify_uncached pe verifier True v2_enabled max_batch_txns max_batch_bytes (OptQuorumStore (OptQS_V1 p)) =
     verify_opt_quorum_store_uncached pe batch_info_impl verifier p max_batch_txns max_batch_bytes"
| "payload_verify_uncached pe verifier True v2_enabled max_batch_txns max_batch_bytes (OptQuorumStore (OptQS_V2 p)) =
     (if v2_enabled
      then verify_opt_quorum_store_uncached pe batch_info_ext_impl verifier p max_batch_txns max_batch_bytes
      else Inl (Msg ''OptQuorumStorePayload::V2 cannot be accepted yet''))"
| "payload_verify_uncached pe verifier _ _ _ _ _ = Inl (Msg ''Wrong payload type'')"

lemma try_for_each_filter:
  "(\<And>x. x \<in> set xs \<Longrightarrow> \<not> P x \<Longrightarrow> f x = Inr ()) \<Longrightarrow> try_for_each f (filter P xs) = try_for_each f xs"
  by (induction xs) (auto simp: rbind_def split: sum.split)

context batch_info_contract
begin

lemma proof_signature_verify_into:
  "proof_signature_verify pe tb vv pos = proof_signature_verify pe batch_info_ext_impl vv
     \<lparr>pos_info = tb_into tb (pos_info pos), pos_multi_signature = pos_multi_signature pos\<rparr>"
  by (simp add: proof_signature_verify_def batch_info_ext_impl_def into_info)

lemma cached_proof_verifies:
  "cache_sound pe vv cache \<Longrightarrow> cache (tb_into tb (pos_info pos)) = Some (pos_multi_signature pos) \<Longrightarrow>
     proof_signature_verify pe tb vv pos = Inr ()"
  unfolding proof_signature_verify_into [of pe vv pos] by (simp add: cache_sound_def)

lemma proof_of_store_verify_sound:
  assumes "cache_sound pe vv cache"
  shows "\<exists>cache'. proof_of_store_verify pe tb vv pos cache = (proof_signature_verify pe tb vv pos, cache') \<and>
    cache_sound pe vv cache'"
proof (cases "cache (tb_into tb (pos_info pos)) = Some (pos_multi_signature pos)")
  case True
  then show ?thesis using assms cached_proof_verifies by (simp add: proof_of_store_verify_def)
next
  case False
  have "cache_sound pe vv (cache(tb_into tb (pos_info pos) \<mapsto> pos_multi_signature pos))"
    if "proof_signature_verify pe tb vv pos = Inr ()"
    using assms that unfolding proof_signature_verify_into [of pe vv pos] by (simp add: cache_sound_def)
  then show ?thesis using False assms by (auto simp: proof_of_store_verify_def split: sum.split)
qed

lemma try_each_proof_sound:
  "cache_sound pe vv cache \<Longrightarrow>
    \<exists>cache'. try_each_method (proof_of_store_verify pe tb vv) ps cache =
        (try_for_each (proof_signature_verify pe tb vv) ps, cache') \<and> cache_sound pe vv cache'"
proof (induction ps arbitrary: cache)
  case (Cons pos ps)
  obtain c1 where step: "proof_of_store_verify pe tb vv pos cache = (proof_signature_verify pe tb vv pos, c1)"
    and sound: "cache_sound pe vv c1"
    using proof_of_store_verify_sound [OF Cons.prems] by blast
  then show ?case using Cons.IH [OF sound]
    by (cases "proof_signature_verify pe tb vv pos") (simp_all add: sbind_def rbind_def)
qed (simp add: sreturn_def)

lemma verify_with_cache_sound:
  assumes "cache_sound pe vv cache"
  shows "\<exists>cache'. verify_with_cache pe tb vv proofs cache =
      (try_for_each (proof_signature_verify pe tb vv) proofs, cache') \<and> cache_sound pe vv cache'"
proof -
  let ?unverified = "filter (\<lambda>pos. cache (tb_into tb (pos_info pos)) \<noteq> Some (pos_multi_signature pos)) proofs"
  have "try_for_each (proof_signature_verify pe tb vv) ?unverified = try_for_each (proof_signature_verify pe tb vv) proofs"
    by (rule try_for_each_filter) (simp add: cached_proof_verifies [OF assms])
  then show ?thesis using try_each_proof_sound [OF assms, of ?unverified] by (simp only: verify_with_cache_def)
qed

lemma verify_opt_quorum_store_sound:
  assumes "cache_sound pe vv cache"
  shows "\<exists>cache'. verify_opt_quorum_store pe tb vv p max_txns max_bytes cache =
      (verify_opt_quorum_store_uncached pe tb vv p max_txns max_bytes, cache') \<and> cache_sound pe vv cache'"
proof -
  obtain c where "verify_with_cache pe tb vv (oqs_proofs p) cache =
      (try_for_each (proof_signature_verify pe tb vv) (oqs_proofs p), c)" "cache_sound pe vv c"
    using verify_with_cache_sound [OF assms] by blast
  then show ?thesis
    by (cases "try_for_each (proof_signature_verify pe tb vv) (oqs_proofs p)")
      (simp_all add: verify_opt_quorum_store_def verify_opt_quorum_store_uncached_def sbind_def slift_def)
qed

end

section \<open>A concrete payload\<close>

definition ex_payload_env :: payload_env where
  "ex_payload_env =
     \<lparr>pe_batch_info_bls = toy_bls, pe_batch_info_ext_bls = toy_bls, pe_batch_payload_hash = (\<lambda>_ _. 0),
      pe_raw_txn_bytes_len = (\<lambda>_. 0), pe_is_encrypted_txn = (\<lambda>_. False), pe_payload_is_encrypted = (\<lambda>_. False),
      pe_payload_is_multisig = (\<lambda>_. False), pe_all_signer_auth_keys = (\<lambda>_. None),
      pe_verify_ciphertext = (\<lambda>_ _. Inr ())\<rparr>"

definition ex_batch :: batch_info where
  "ex_batch =
     \<lparr>bin_author = 1, bin_batch_id = \<lparr>bid_id = 1, bid_nonce = 0\<rparr>, bin_epoch = 1, bin_expiration = 9, bin_digest = 0,
      bin_num_txns = 2, bin_num_bytes = 5, bin_gas_bucket_start = 0\<rparr>"

definition ex_payload :: payload where
  "ex_payload = OptQuorumStore (OptQS_V1
     \<lparr>oqs_inline_batches = [], oqs_opt_batches = [],
      oqs_proofs = [\<lparr>pos_info = ex_batch, pos_multi_signature = ex_aggregate\<rparr>],
      oqs_execution_limits = NoLimit\<rparr>)"

lemma ex_proof_verifies: "pos_multi_signature pos = ex_aggregate \<Longrightarrow> proof_signature_verify ex_payload_env tb ex_verifier pos = Inr ()"
  by (simp add: proof_signature_verify_def ex_payload_env_def ex_aggregate_verifies with_context_def into_anyhow_def map_err_def)

section \<open>Properties\<close>

text \<open>C20. Whatever sound cache of verified proofs a payload is verified with, the result, errors included, is
  that of verifying the signature of every proof of store without a cache, and the cache that is left is
  sound. So caching changes no answer, from one payload to the next.\<close>

theorem proof_cache_is_transparent:
  assumes "cache_sound pe vv cache"
  shows "fst (payload_verify pe vv quorum_store v2_enabled max_txns max_bytes p cache) =
      payload_verify_uncached pe vv quorum_store v2_enabled max_txns max_bytes p \<and>
    cache_sound pe vv (snd (payload_verify pe vv quorum_store v2_enabled max_txns max_bytes p cache))"
proof (cases "(pe, vv, quorum_store, v2_enabled, max_txns, max_bytes, p)" rule: payload_verify_uncached.cases)
  case (2 pe' vv' v2 mt mb q)
  then show ?thesis using batch_info_v1.verify_opt_quorum_store_sound [OF assms, of q max_txns max_bytes] by auto
next
  case (3 pe' vv' v2 mt mb q)
  then show ?thesis using batch_info_v2.verify_opt_quorum_store_sound [OF assms, of q max_txns max_bytes] assms
    by (cases v2_enabled) (auto simp: sbind_def slift_def ensure_def)
qed (use assms in \<open>simp_all add: sreturn_def slift_def\<close>)

theorem proof_cache_is_transparent_witness:
  "fst (payload_verify ex_payload_env ex_verifier True False 10 10 ex_payload [BatchInfoV1 ex_batch \<mapsto> ex_aggregate]) = Inr () \<and>
   payload_verify_uncached ex_payload_env ex_verifier True False 10 10 ex_payload = Inr ()"
proof -
  have "cache_sound ex_payload_env ex_verifier [BatchInfoV1 ex_batch \<mapsto> ex_aggregate]"
    by (simp add: cache_sound_def ex_proof_verifies batch_info_ext_impl_def)
  moreover have "payload_verify_uncached ex_payload_env ex_verifier True False 10 10 ex_payload = Inr ()"
    by (simp add: ex_payload_def verify_opt_quorum_store_uncached_def ex_proof_verifies batch_info_impl_def
        verify_batch_info_limits_def verify_inline_batches_def verify_opt_batches_def ex_batch_def ensure_def rbind_def)
  ultimately show ?thesis using proof_cache_is_transparent by metis
qed

end
