(* ===== verification/Accumulator.thy ===== *)
theory Accumulator
  imports Ledger_Info
begin

unbundle bit_operations_syntax

text \<open>
  The in-memory Merkle accumulator of \<open>types/src/proof/accumulator/mod.rs\<close> and the extension
  proof of \<open>types/src/proof/definition.rs\<close> built on it. The hash of an internal node is the
  parameter \<open>H\<close>. The accumulator keeps the roots of its full subtrees only; the lemmas relate
  it to the Merkle tree over all the leaves.
\<close>

section \<open>Definitions\<close>

type_synonym leaf_count = u64
type_synonym node_hasher = "hash_value \<Rightarrow> hash_value \<Rightarrow> hash_value"

definition MAX_ACCUMULATOR_LEAVES :: leaf_count where
  "MAX_ACCUMULATOR_LEAVES = push_bit 63 1"

definition u64_count_ones :: "u64 \<Rightarrow> nat" where
  "u64_count_ones n = length (filter (bit n) [0..<64])"

definition u64_trailing_zeros :: "u64 \<Rightarrow> nat" where
  "u64_trailing_zeros n = (case find (bit n) [0..<64] of Some i \<Rightarrow> i | None \<Rightarrow> 64)"

record in_memory_accumulator =
  acc_frozen_subtree_roots :: "hash_value list"
  acc_num_leaves :: leaf_count
  acc_root_hash :: hash_value

text \<open>\<open>None\<close> is a panic of \<open>expect\<close> or of an overflow check.\<close>

function root_loop :: "node_hasher \<Rightarrow> u64 \<Rightarrow> hash_value list \<Rightarrow> hash_value \<Rightarrow> hash_value option" where
  "root_loop H bitmap roots current =
     (if bitmap = 0 then Some current
      else if bitmap AND 1 \<noteq> 0
      then (case roots of
              [] \<Rightarrow> None
            | r # rest \<Rightarrow> root_loop H (drop_bit 1 bitmap) rest (H r current))
      else root_loop H (drop_bit 1 bitmap) roots (H current ACCUMULATOR_PLACEHOLDER_HASH))"
  by pat_completeness auto
termination
proof (relation "measure (\<lambda>(H, bitmap, roots, current). unat bitmap)")
  fix bitmap :: u64 assume "bitmap \<noteq> 0"
  then have "0 < unat bitmap" by (simp add: unat_gt_0)
  then have "unat (drop_bit 1 bitmap) < unat bitmap" by (simp add: drop_bit_Suc unat_div)
  then show "((H, drop_bit 1 bitmap, rest, H r current), (H, bitmap, roots, current)) \<in>
      measure (\<lambda>(H, bitmap, roots, current). unat bitmap)"
    and "((H, drop_bit 1 bitmap, roots, c), (H, bitmap, roots, current)) \<in>
      measure (\<lambda>(H, bitmap, roots, current). unat bitmap)"
    for H :: node_hasher and rest roots r c current by simp_all
qed simp_all

definition compute_root_hash :: "node_hasher \<Rightarrow> hash_value list \<Rightarrow> leaf_count \<Rightarrow> hash_value option" where
  "compute_root_hash H roots num_leaves =
     (case roots of
        [] \<Rightarrow> Some ACCUMULATOR_PLACEHOLDER_HASH
      | [r] \<Rightarrow> Some r
      | _ \<Rightarrow> root_loop H (drop_bit (u64_trailing_zeros num_leaves) num_leaves) (rev roots)
               ACCUMULATOR_PLACEHOLDER_HASH)"

definition accumulator_new ::
    "node_hasher \<Rightarrow> hash_value list \<Rightarrow> leaf_count \<Rightarrow> (anyhow_error + in_memory_accumulator) option" where
  "accumulator_new H roots num_leaves =
     (if length roots \<noteq> u64_count_ones num_leaves
      then Some (Inl (Msg ''The number of frozen subtrees does not match the number of leaves.''))
      else map_option
             (\<lambda>root. Inr \<lparr>acc_frozen_subtree_roots = roots, acc_num_leaves = num_leaves, acc_root_hash = root\<rparr>)
             (compute_root_hash H roots num_leaves))"

definition accumulator_new_empty_with_root_hash :: "hash_value \<Rightarrow> in_memory_accumulator" where
  "accumulator_new_empty_with_root_hash root =
     \<lparr>acc_frozen_subtree_roots = [], acc_num_leaves = 0, acc_root_hash = root\<rparr>"

definition accumulator_new_empty :: in_memory_accumulator where
  "accumulator_new_empty = accumulator_new_empty_with_root_hash ACCUMULATOR_PLACEHOLDER_HASH"

text \<open>The vector of roots is popped and pushed at its end.\<close>

fun merge_last :: "node_hasher \<Rightarrow> nat \<Rightarrow> hash_value list \<Rightarrow> hash_value list option" where
  "merge_last H 0 roots = Some roots"
| "merge_last H (Suc k) roots =
     (if length roots < 2 then None
      else let right_hash = last roots;
               left_hash = last (butlast roots)
           in merge_last H k (butlast (butlast roots) @ [H left_hash right_hash]))"

definition append_one :: "node_hasher \<Rightarrow> hash_value list \<Rightarrow> leaf_count \<Rightarrow> hash_value \<Rightarrow> hash_value list option" where
  "append_one H roots num_existing_leaves leaf =
     merge_last H (u64_trailing_zeros (NOT num_existing_leaves)) (roots @ [leaf])"

fun append_leaves ::
    "node_hasher \<Rightarrow> hash_value list \<Rightarrow> leaf_count \<Rightarrow> hash_value list \<Rightarrow> (hash_value list \<times> leaf_count) option" where
  "append_leaves H roots num_leaves [] = Some (roots, num_leaves)"
| "append_leaves H roots num_leaves (leaf # leaves) =
     Option.bind (append_one H roots num_leaves leaf) (\<lambda>roots'.
     Option.bind (checked_add num_leaves 1) (\<lambda>n.
     append_leaves H roots' n leaves))"

definition expect :: "('e + 'a) option \<Rightarrow> 'a option" where
  "expect m = (case m of Some (Inr a) \<Rightarrow> Some a | _ \<Rightarrow> None)"

definition accumulator_append ::
    "node_hasher \<Rightarrow> in_memory_accumulator \<Rightarrow> hash_value list \<Rightarrow> in_memory_accumulator option" where
  "accumulator_append H acc leaves =
     Option.bind (append_leaves H (acc_frozen_subtree_roots acc) (acc_num_leaves acc) leaves) (\<lambda>(roots, n).
     expect (accumulator_new H roots n))"

definition from_leaves :: "node_hasher \<Rightarrow> hash_value list \<Rightarrow> in_memory_accumulator option" where
  "from_leaves H leaves =
     Option.bind (expect (accumulator_new H [] 0)) (\<lambda>acc. accumulator_append H acc leaves)"

definition accumulator_version :: "in_memory_accumulator \<Rightarrow> u64" where
  "accumulator_version acc = (if acc_num_leaves acc = 0 then 0 else acc_num_leaves acc - 1)"

record accumulator_extension_proof =
  aep_frozen_subtree_roots :: "hash_value list"
  aep_num_leaves :: leaf_count
  aep_leaves :: "hash_value list"

definition accumulator_extension_proof_verify ::
    "node_hasher \<Rightarrow> accumulator_extension_proof \<Rightarrow> hash_value \<Rightarrow> anyhow_error + in_memory_accumulator" where
  "accumulator_extension_proof_verify H aep original_root =
     rbind (case accumulator_new H (aep_frozen_subtree_roots aep) (aep_num_leaves aep) of
              None \<Rightarrow> Inl (Panicked ''This frozen subtree should exist.'')
            | Some r \<Rightarrow> r) (\<lambda>original_tree.
     rbind (ensure (acc_root_hash original_tree = original_root) (Msg ''Root hashes do not match'')) (\<lambda>_.
     ok_or (Panicked ''Appending leaves'') (accumulator_append H original_tree (aep_leaves aep))))"

section \<open>The Merkle tree over the leaves\<close>

text \<open>
  \<open>perfect\<close> is the root of a full subtree with \<open>2 ^ k\<close> leaves; \<open>merkle_root\<close> is
  the root of the tree of depth \<open>d\<close> over the leaves, an empty subtree being the placeholder.
\<close>

fun perfect :: "node_hasher \<Rightarrow> nat \<Rightarrow> hash_value list \<Rightarrow> hash_value" where
  "perfect H 0 ls = hd ls"
| "perfect H (Suc k) ls = H (perfect H k (take (2 ^ k) ls)) (perfect H k (drop (2 ^ k) ls))"

fun merkle_root :: "node_hasher \<Rightarrow> nat \<Rightarrow> hash_value list \<Rightarrow> hash_value" where
  "merkle_root H d [] = ACCUMULATOR_PLACEHOLDER_HASH"
| "merkle_root H 0 (l # ls) = l"
| "merkle_root H (Suc d) (l # ls) =
     H (merkle_root H d (take (2 ^ d) (l # ls))) (merkle_root H d (drop (2 ^ d) (l # ls)))"

lemma merkle_root_Suc: "ls \<noteq> [] \<Longrightarrow> merkle_root H (Suc d) ls = H (merkle_root H d (take (2 ^ d) ls)) (merkle_root H d (drop (2 ^ d) ls))"
  by (cases ls) auto

lemma merkle_root_perfect: "length ls = 2 ^ k \<Longrightarrow> merkle_root H k ls = perfect H k ls"
proof (induction k arbitrary: ls)
  case 0
  then show ?case by (cases ls) auto
next
  case (Suc k)
  then have "ls \<noteq> []" by auto
  then show ?case using Suc by (simp add: merkle_root_Suc)
qed

section \<open>Binary numbers\<close>

fun nat_count_ones :: "nat \<Rightarrow> nat" where
  "nat_count_ones n = (if n = 0 then 0 else n mod 2 + nat_count_ones (n div 2))"

fun nat_trailing_ones :: "nat \<Rightarrow> nat" where
  "nat_trailing_ones n = (if n = 0 then 0 else if odd n then Suc (nat_trailing_ones (n div 2)) else 0)"

fun nat_trailing_zeros :: "nat \<Rightarrow> nat" where
  "nat_trailing_zeros n = (if n = 0 then 0 else if odd n then 0 else Suc (nat_trailing_zeros (n div 2)))"

fun nat_bits :: "nat \<Rightarrow> nat" where
  "nat_bits n = (if n = 0 then 0 else Suc (nat_bits (n div 2)))"

text \<open>The depth of the tree over \<open>n\<close> leaves: the least \<open>d\<close> with \<open>n \<le> 2 ^ d\<close>.\<close>

definition tree_depth :: "nat \<Rightarrow> nat" where
  "tree_depth n = nat_bits (n - 1)"

declare nat_count_ones.simps [simp del] nat_trailing_ones.simps [simp del]
  nat_trailing_zeros.simps [simp del] nat_bits.simps [simp del]

lemma upt_Suc_conv: "[0..<Suc m] = 0 # map Suc [0..<m]"
  by (simp add: map_Suc_upt upt_conv_Cons)

lemma count_ones_nat: "n < 2 ^ m \<Longrightarrow> length (filter (bit n) [0..<m]) = nat_count_ones n"
proof (induction m arbitrary: n)
  case (Suc m)
  have "length (filter (bit n) [0..<Suc m]) = n mod 2 + length (filter (bit (n div 2)) [0..<m])"
    by (simp add: upt_Suc_conv filter_map comp_def bit_Suc bit_0 odd_iff_mod_2_eq_one del: upt_Suc)
  moreover have "n div 2 < 2 ^ m" using Suc.prems by auto
  ultimately show ?case using Suc.IH [of "n div 2"]
    by (cases "n = 0") (simp_all add: nat_count_ones.simps [of n] nat_count_ones.simps [of 0])
qed (simp add: nat_count_ones.simps)

lemma bit_unat: "bit (unat w) i \<longleftrightarrow> bit w i" for w :: "'w::len word"
  by (simp add: bit_unsigned_iff possible_bit_def)

lemma u64_count_ones_nat: "u64_count_ones w = nat_count_ones (unat w)"
  using count_ones_nat [of "unat w" 64] unsigned_less [of w]
  by (simp add: u64_count_ones_def bit_unat cong: filter_cong)

lemma trailing_ones_bits: "\<not> bit n (nat_trailing_ones n) \<and> (\<forall>j < nat_trailing_ones n. bit n j)"
proof (induction n rule: nat_trailing_ones.induct)
  case (1 n)
  show ?case
  proof (cases "odd n")
    case True
    then show ?thesis using 1
      by (auto simp: nat_trailing_ones.simps [of n] bit_Suc less_Suc_eq_0_disj bit_0)
  qed (simp add: nat_trailing_ones.simps [of n] bit_0 odd_pos)
qed

lemma trailing_zeros_bits: "n \<noteq> 0 \<Longrightarrow> bit n (nat_trailing_zeros n) \<and> (\<forall>j < nat_trailing_zeros n. \<not> bit n j)"
proof (induction n rule: nat_trailing_zeros.induct)
  case (1 n)
  show ?case
  proof (cases "odd n")
    case False
    then have "n div 2 \<noteq> 0" using "1.prems" by auto
    then show ?thesis using 1 False
      by (auto simp: nat_trailing_zeros.simps [of n] bit_Suc less_Suc_eq_0_disj bit_0)
  qed (simp add: nat_trailing_zeros.simps [of n] bit_0 odd_pos)
qed

lemma find_first: "i < m \<Longrightarrow> P i \<Longrightarrow> \<forall>j < i. \<not> P j \<Longrightarrow> find P [0..<m] = Some i"
  by (auto simp: find_Some_iff intro!: exI [of _ i])

lemma u64_trailing_ones_nat:
  assumes "unat w + 1 < 2 ^ 64"
  shows "u64_trailing_zeros (NOT w) = nat_trailing_ones (unat w)"
proof -
  let ?t = "nat_trailing_ones (unat w)"
  note bits = trailing_ones_bits [of "unat w", unfolded bit_unat]
  have "?t < 64"
  proof (rule ccontr)
    assume "\<not> ?t < 64"
    then have "bit w j" if "j < 64" for j using bits that by auto
    then have "w = - 1" by (intro bit_word_eqI) (simp add: bit_simps)
    then show False using assms by (simp add: unsigned_minus_1_eq_mask mask_eq_exp_minus_1)
  qed
  then have "find (bit (NOT w)) [0..<64] = Some ?t"
    by (intro find_first) (use bits in \<open>auto simp: bit_not_iff\<close>)
  then show ?thesis by (simp add: u64_trailing_zeros_def)
qed

lemma u64_trailing_zeros_nat:
  assumes "w \<noteq> 0"
  shows "u64_trailing_zeros w = nat_trailing_zeros (unat w)"
proof -
  have "unat w \<noteq> 0" using assms by (simp add: unat_eq_0)
  note bits = trailing_zeros_bits [OF this, unfolded bit_unat]
  then have "nat_trailing_zeros (unat w) < 64" using bit_imp_le_length [of w] by auto
  then have "find (bit w) [0..<64] = Some (nat_trailing_zeros (unat w))"
    by (intro find_first) (use bits in auto)
  then show ?thesis by (simp add: u64_trailing_zeros_def)
qed

section \<open>The frozen subtree roots\<close>

text \<open>
  \<open>roots_repr H k n rs ls\<close>: \<open>rs\<close> are, from right to left, the roots of the full
  subtrees of \<open>n\<close> blocks of \<open>2 ^ k\<close> leaves, and \<open>ls\<close> are the leaves.
\<close>

fun roots_repr :: "node_hasher \<Rightarrow> nat \<Rightarrow> nat \<Rightarrow> hash_value list \<Rightarrow> hash_value list \<Rightarrow> bool" where
  "roots_repr H k n rs ls =
     (if n = 0 then rs = [] \<and> ls = []
      else if even n then roots_repr H (Suc k) (n div 2) rs ls
      else rs \<noteq> [] \<and> 2 ^ k \<le> length ls \<and> hd rs = perfect H k (drop (length ls - 2 ^ k) ls) \<and>
           roots_repr H (Suc k) (n div 2) (tl rs) (take (length ls - 2 ^ k) ls))"

fun inc_roots :: "node_hasher \<Rightarrow> nat \<Rightarrow> hash_value list \<Rightarrow> hash_value \<Rightarrow> hash_value list" where
  "inc_roots H n rs x =
     (if n = 0 then x # rs else if odd n then inc_roots H (n div 2) (tl rs) (H (hd rs) x) else x # rs)"

declare roots_repr.simps [simp del] inc_roots.simps [simp del]

lemma roots_repr_0 [simp]: "roots_repr H k 0 rs ls \<longleftrightarrow> rs = [] \<and> ls = []"
  by (simp add: roots_repr.simps)

lemma roots_repr_even: "n \<noteq> 0 \<Longrightarrow> even n \<Longrightarrow> roots_repr H k n rs ls = roots_repr H (Suc k) (n div 2) rs ls"
  by (simp add: roots_repr.simps [of H k n])

lemma roots_repr_odd:
  assumes "odd n"
  shows "roots_repr H k n rs ls \<longleftrightarrow>
    (\<exists>r rs' ls1 ls2. rs = r # rs' \<and> ls = ls1 @ ls2 \<and> length ls2 = 2 ^ k \<and> r = perfect H k ls2 \<and>
       roots_repr H (Suc k) (n div 2) rs' ls1)" (is "?l \<longleftrightarrow> ?r")
proof
  assume ?l
  then have l: "rs \<noteq> []" "2 ^ k \<le> length ls" "hd rs = perfect H k (drop (length ls - 2 ^ k) ls)"
    "roots_repr H (Suc k) (n div 2) (tl rs) (take (length ls - 2 ^ k) ls)"
    using assms by (auto simp: roots_repr.simps [of H k n] elim: oddE)
  show ?r
    by (rule exI [of _ "hd rs"], rule exI [of _ "tl rs"], rule exI [of _ "take (length ls - 2 ^ k) ls"],
        rule exI [of _ "drop (length ls - 2 ^ k) ls"]) (use l in \<open>cases rs; simp\<close>)
next
  assume ?r
  then show ?l using assms by (auto simp: roots_repr.simps [of H k n])
qed

lemma roots_repr_lengths:
  "roots_repr H k n rs ls \<Longrightarrow> length ls = n * 2 ^ k \<and> length rs = nat_count_ones n"
proof (induction n arbitrary: k rs ls rule: less_induct)
  case (less n)
  consider "n = 0" | "n \<noteq> 0" "even n" | "odd n" by blast
  then show ?case
  proof cases
    case 2
    then have "length ls = (n div 2) * 2 ^ Suc k \<and> length rs = nat_count_ones (n div 2)"
      using less.IH [of "n div 2" "Suc k"] less.prems by (simp add: roots_repr_even)
    then show ?thesis using 2 by (auto simp: nat_count_ones.simps [of n])
  next
    case 3
    then obtain r rs' ls1 ls2 where r: "rs = r # rs'" "ls = ls1 @ ls2" "length ls2 = 2 ^ k"
      "roots_repr H (Suc k) (n div 2) rs' ls1"
      using less.prems roots_repr_odd by blast
    define m where "m = n div 2"
    have n: "n = Suc (2 * m)" "m < n" "n mod 2 = 1" using 3 unfolding m_def by presburger+
    then have "length ls1 = m * 2 ^ Suc k \<and> length rs' = nat_count_ones m"
      using less.IH [of m] r(4) by (simp add: m_def)
    moreover have "nat_count_ones n = Suc (nat_count_ones m)"
      using 3 n(3) by (subst nat_count_ones.simps) (simp add: m_def odd_pos)
    ultimately show ?thesis using r n(1) by simp
  qed (use less in \<open>simp add: nat_count_ones.simps\<close>)
qed

lemma perfect_append:
  "length ls = 2 ^ k \<Longrightarrow> perfect H (Suc k) (ls @ ys) = H (perfect H k ls) (perfect H k ys)"
  by simp

lemma roots_repr_inc:
  "roots_repr H k n rs ls \<Longrightarrow> length ys = 2 ^ k \<Longrightarrow>
     roots_repr H k (Suc n) (inc_roots H n rs (perfect H k ys)) (ls @ ys)"
proof (induction n arbitrary: k rs ls ys rule: less_induct)
  case (less n)
  show ?case
  proof (cases "odd n")
    case True
    then obtain r rs' ls1 ls2 where r: "rs = r # rs'" "ls = ls1 @ ls2" "length ls2 = 2 ^ k" "r = perfect H k ls2"
      "roots_repr H (Suc k) (n div 2) rs' ls1"
      using less.prems(1) roots_repr_odd by blast
    have "n div 2 < n" using True by presburger
    from less.IH [OF this r(5), of "ls2 @ ys"]
    have "roots_repr H (Suc k) (Suc (n div 2)) (inc_roots H (n div 2) rs' (H r (perfect H k ys))) (ls1 @ ls2 @ ys)"
      using r(3,4) less.prems(2) by (simp add: perfect_append del: perfect.simps)
    moreover have "Suc n div 2 = Suc (n div 2)" "even (Suc n)" "n \<noteq> 0" using True by presburger+
    ultimately show ?thesis using True r
      by (simp add: roots_repr_even inc_roots.simps [of H n])
  next
    case False
    have "roots_repr H (Suc k) (n div 2) rs ls"
      using less.prems(1) False by (cases "n = 0") (simp_all add: roots_repr_even)
    moreover have "Suc n div 2 = n div 2" "odd (Suc n)" using False by presburger+
    ultimately show ?thesis using False less.prems(2)
      by (auto simp: roots_repr_odd inc_roots.simps [of H n])
  qed
qed

lemma merge_last_inc:
  "roots_repr H k n rs ls \<Longrightarrow>
     merge_last H (nat_trailing_ones n) (rev rs @ [x]) = Some (rev (inc_roots H n rs x))"
proof (induction n arbitrary: k rs ls x rule: less_induct)
  case (less n)
  show ?case
  proof (cases "odd n")
    case True
    then obtain r rs' ls1 where r: "rs = r # rs'" "roots_repr H (Suc k) (n div 2) rs' ls1"
      using less.prems(1) roots_repr_odd by blast
    have "n div 2 < n" "n \<noteq> 0" using True by presburger+
    then show ?thesis using less.IH [OF _ r(2), of "H r x"] r(1) True
      by (simp add: nat_trailing_ones.simps [of n] inc_roots.simps [of H n] butlast_append)
  qed (simp add: nat_trailing_ones.simps [of n] inc_roots.simps [of H n])
qed

lemma append_one_repr:
  assumes "roots_repr H 0 (unat n) (rev roots) ls" "unat n + 1 < 2 ^ 64"
  shows "\<exists>roots'. append_one H roots n x = Some roots' \<and> roots_repr H 0 (Suc (unat n)) (rev roots') (ls @ [x])"
  using merge_last_inc [OF assms(1), of x] roots_repr_inc [OF assms(1), of "[x]"]
  by (simp add: append_one_def u64_trailing_ones_nat [OF assms(2)])

lemma append_leaves_repr:
  "roots_repr H 0 (unat n) (rev roots) ls \<Longrightarrow> unat n + length xs < 2 ^ 64 \<Longrightarrow>
     \<exists>roots' n'. append_leaves H roots n xs = Some (roots', n') \<and> unat n' = unat n + length xs \<and>
       roots_repr H 0 (unat n') (rev roots') (ls @ xs)"
proof (induction xs arbitrary: roots n ls)
  case (Cons x xs)
  obtain roots1 where one: "append_one H roots n x = Some roots1"
    and r1: "roots_repr H 0 (Suc (unat n)) (rev roots1) (ls @ [x])"
    using append_one_repr [OF Cons.prems(1), of x] Cons.prems(2) by auto
  have c: "checked_add n 1 = Some (n + 1)" and "unat (n + 1) = Suc (unat n)"
    using Cons.prems(2) checked_add_Some_unat [of n 1 "n + 1"] by (auto simp: checked_add_def)
  then show ?case using Cons.IH [of "n + 1" roots1 "ls @ [x]"] one r1 Cons.prems(2) by simp
qed auto

section \<open>The root hash\<close>

lemma nat_count_ones_eq_0 [simp]: "nat_count_ones n = 0 \<longleftrightarrow> n = 0"
proof (induction n rule: nat_count_ones.induct)
  case (1 n)
  have "n = 2 * (n div 2) + n mod 2" by simp
  then show ?case using 1 by (auto simp: nat_count_ones.simps [of n])
qed

lemma nat_count_ones_power [simp]: "nat_count_ones (2 ^ j) = 1"
  by (induction j) (simp_all add: nat_count_ones.simps [of "Suc 0"] nat_count_ones.simps [of "2 * _"])

lemma nat_bits_bounds: "n < 2 ^ nat_bits n \<and> (n \<noteq> 0 \<longrightarrow> 2 ^ nat_bits n \<le> 2 * n)"
proof (induction n rule: nat_bits.induct)
  case (1 n)
  show ?case
  proof (cases "n = 0")
    case False
    then have "nat_bits n = Suc (nat_bits (n div 2))" by (simp add: nat_bits.simps [of n])
    moreover have "n div 2 < 2 ^ nat_bits (n div 2) \<and> (n div 2 \<noteq> 0 \<longrightarrow> 2 ^ nat_bits (n div 2) \<le> 2 * (n div 2))"
      using 1 False by simp
    ultimately show ?thesis using False
      by (cases "n div 2 = 0") (auto simp: nat_bits.simps [of 0])
  qed (simp add: nat_bits.simps)
qed

lemma nat_bits_unique:
  assumes "2 ^ b \<le> n" "n < 2 ^ Suc b"
  shows "nat_bits n = Suc b"
proof -
  have n: "n \<noteq> 0" using assms(1) by (cases n) auto
  have "2 ^ b < (2 :: nat) ^ nat_bits n" "(2 :: nat) ^ nat_bits n \<le> 2 * n"
    using nat_bits_bounds [of n] n assms(1) by (auto simp: order.strict_trans1)
  moreover have "2 * n < 2 ^ Suc (Suc b)" using assms(2) by simp
  ultimately have "b < nat_bits n" "nat_bits n < Suc (Suc b)"
    by (metis power_less_imp_less_exp one_less_numeral_iff semiring_norm(76), metis order.strict_trans1 power_less_imp_less_exp one_less_numeral_iff semiring_norm(76))
  then show ?thesis by simp
qed

lemma tree_depth_power [simp]: "tree_depth (2 ^ j) = j"
proof (cases j)
  case 0
  then show ?thesis by (simp add: tree_depth_def nat_bits.simps)
next
  case (Suc i)
  have "nat_bits (2 ^ Suc i - 1) = Suc i"
    by (rule nat_bits_unique) (simp_all add: Suc_le_eq)
  then show ?thesis using Suc by (simp add: tree_depth_def)
qed

lemma tree_depth_bits:
  assumes "nat_count_ones n \<ge> 2"
  shows "tree_depth n = nat_bits n"
proof -
  have "n \<noteq> 0" using assms by (intro notI) (simp add: nat_count_ones.simps)
  then obtain b where b: "nat_bits n = Suc b" by (cases "nat_bits n") (auto simp: nat_bits.simps [of n])
  have "2 ^ b \<le> n" "n < 2 ^ Suc b" using nat_bits_bounds [of n] \<open>n \<noteq> 0\<close> b by auto
  moreover have "n \<noteq> 2 ^ b" using assms by auto
  ultimately have "2 ^ b \<le> n - 1" "n - 1 < 2 ^ Suc b" by auto
  then show ?thesis using b \<open>n \<noteq> 0\<close> nat_bits_unique by (simp add: tree_depth_def)
qed

lemma root_loop_0 [simp]: "root_loop H 0 rs c = Some c"
  by simp

declare root_loop.simps [simp del]

lemma root_loop_merkle:
  "roots_repr H k (unat w) rs ls \<Longrightarrow> length zs \<le> 2 ^ k \<Longrightarrow> zs \<noteq> [] \<or> odd (unat w) \<or> w = 0 \<Longrightarrow>
     root_loop H w rs (merkle_root H k zs) = Some (merkle_root H (k + nat_bits (unat w)) (ls @ zs))"
proof (induction H w rs "merkle_root H k zs" arbitrary: k zs ls rule: root_loop.induct)
  case (1 H w rs)
  let ?n = "unat w"
  have half: "unat (drop_bit (Suc 0) w) = ?n div 2" by (simp add: drop_bit_Suc unat_div)
  have odd_iff: "w AND 1 \<noteq> 0 \<longleftrightarrow> odd ?n"
    using and_exp_eq_0_iff_not_bit [of w 0] bit_unat [of w 0] by (simp add: bit_0)
  consider "w = 0" | "w \<noteq> 0" "even ?n" | "odd ?n" by blast
  then show ?case
  proof cases
    case 1
    then show ?thesis using \<open>roots_repr H k ?n rs ls\<close> by (simp add: nat_bits.simps)
  next
    case 2
    have "zs \<noteq> []" using 2 "1.prems"(3) by auto
    then have step: "H (merkle_root H k zs) ACCUMULATOR_PLACEHOLDER_HASH = merkle_root H (Suc k) zs"
      using "1.prems"(2) by (simp add: merkle_root_Suc)
    have n: "?n \<noteq> 0" using 2 by (simp add: unat_eq_0)
    have "root_loop H (drop_bit 1 w) rs (merkle_root H (Suc k) zs) =
      Some (merkle_root H (Suc k + nat_bits (?n div 2)) (ls @ zs))"
      using "1.hyps"(2) [of "Suc k" zs ls] 2 odd_iff step "1.prems" \<open>zs \<noteq> []\<close> n
      by (simp add: half roots_repr_even)
    then show ?thesis using 2 odd_iff step n
      by (simp add: root_loop.simps [of H w] nat_bits.simps [of ?n])
  next
    case 3
    then obtain r rs' ls1 ls2 where r: "rs = r # rs'" "ls = ls1 @ ls2" "length ls2 = 2 ^ k" "r = perfect H k ls2"
      "roots_repr H (Suc k) (?n div 2) rs' ls1"
      using "1.prems"(1) roots_repr_odd by blast
    have "ls2 \<noteq> []" using r(3) by auto
    then have step: "H r (merkle_root H k zs) = merkle_root H (Suc k) (ls2 @ zs)"
      using r(3,4) by (simp add: merkle_root_Suc merkle_root_perfect)
    have n: "w \<noteq> 0" "?n \<noteq> 0" using 3 odd_pos [of ?n] by auto
    have "root_loop H (drop_bit 1 w) rs' (merkle_root H (Suc k) (ls2 @ zs)) =
      Some (merkle_root H (Suc k + nat_bits (?n div 2)) (ls1 @ ls2 @ zs))"
      using "1.hyps"(1) [of r rs' "Suc k" "ls2 @ zs" ls1] 3 odd_iff step "1.prems"(2) r n \<open>ls2 \<noteq> []\<close>
      by (simp add: half)
    then show ?thesis using 3 odd_iff step n r(1,2)
      by (simp add: root_loop.simps [of H w] nat_bits.simps [of ?n])
  qed
qed

lemma roots_repr_shift:
  "roots_repr H k n rs ls \<Longrightarrow> n \<noteq> 0 \<Longrightarrow>
     roots_repr H (k + nat_trailing_zeros n) (n div 2 ^ nat_trailing_zeros n) rs ls \<and>
     odd (n div 2 ^ nat_trailing_zeros n) \<and>
     nat_bits n = nat_trailing_zeros n + nat_bits (n div 2 ^ nat_trailing_zeros n)"
proof (induction n arbitrary: k rule: nat_trailing_zeros.induct)
  case (1 n)
  show ?case
  proof (cases "odd n")
    case True
    then show ?thesis using 1 by (simp add: nat_trailing_zeros.simps [of n])
  next
    case False
    then have "n div 2 \<noteq> 0" using 1(3) by auto
    then show ?thesis using 1(1) [of "Suc k"] 1(2,3) False
      by (simp add: nat_trailing_zeros.simps [of n] nat_bits.simps [of n] roots_repr_even div_mult2_eq)
  qed
qed

lemma roots_repr_single:
  "roots_repr H k n [r] ls \<Longrightarrow> \<exists>j. n = 2 ^ j \<and> r = perfect H (k + j) ls"
proof (induction n arbitrary: k rule: less_induct)
  case (less n)
  have n: "n \<noteq> 0" using less.prems by (intro notI) simp
  show ?case
  proof (cases "odd n")
    case True
    then obtain ls1 ls2 where r: "ls = ls1 @ ls2" "r = perfect H k ls2" "roots_repr H (Suc k) (n div 2) [] ls1"
      using less.prems by (auto simp: roots_repr_odd)
    then have "n div 2 = 0" using roots_repr_lengths [OF r(3)] by simp
    moreover have "n = 1" using True calculation by (auto elim: oddE)
    ultimately show ?thesis using r by (intro exI [of _ 0]) auto
  next
    case False
    then obtain j where "n div 2 = 2 ^ j" "r = perfect H (Suc k + j) ls"
      using less.IH [of "n div 2" "Suc k"] less.prems n by (auto simp: roots_repr_even)
    then show ?thesis using False by (intro exI [of _ "Suc j"]) auto
  qed
qed

lemma compute_root_hash_merkle:
  assumes "roots_repr H 0 (unat n) (rev roots) ls"
  shows "compute_root_hash H roots n = Some (merkle_root H (tree_depth (length ls)) ls)"
proof -
  let ?n = "unat n" and ?t = "nat_trailing_zeros (unat n)"
  have len: "length ls = ?n" "length roots = nat_count_ones ?n" using roots_repr_lengths [OF assms] by auto
  consider "roots = []" | r where "roots = [r]" | "2 \<le> length roots"
    by (cases roots rule: remdups_adj.cases) auto
  then show ?thesis
  proof cases
    case 1
    then show ?thesis using len by (simp add: compute_root_hash_def)
  next
    case (2 r)
    then obtain j where "?n = 2 ^ j" "r = perfect H j ls" using roots_repr_single [of H 0 ?n r ls] assms by auto
    then show ?thesis using 2 len(1) by (simp add: compute_root_hash_def merkle_root_perfect)
  next
    case 3
    then have n: "?n \<noteq> 0" using len(2) by (intro notI) (simp add: nat_count_ones.simps)
    have "unat (drop_bit ?t n) = drop_bit ?t ?n"
      by (rule bit_eqI) (simp only: bit_unat bit_drop_bit_eq comp_apply)
    then have sh: "unat (drop_bit ?t n) = ?n div 2 ^ ?t" by (simp only: drop_bit_eq_div)
    have "root_loop H (drop_bit ?t n) (rev roots) (merkle_root H ?t []) =
      Some (merkle_root H (?t + nat_bits (?n div 2 ^ ?t)) (ls @ []))"
      using roots_repr_shift [OF assms n] root_loop_merkle [of H ?t "drop_bit ?t n" "rev roots" ls "[]"]
      unfolding sh by auto
    then have "root_loop H (drop_bit ?t n) (rev roots) ACCUMULATOR_PLACEHOLDER_HASH =
      Some (merkle_root H (tree_depth (length ls)) ls)"
      using roots_repr_shift [OF assms n] 3 len tree_depth_bits [of ?n] by simp
    then show ?thesis using 3 n u64_trailing_zeros_nat [of n]
      by (auto simp: compute_root_hash_def unat_eq_0 split: list.splits)
  qed
qed

text \<open>The representation invariant of an accumulator over the leaves \<open>ls\<close>.\<close>

definition accumulator_over :: "node_hasher \<Rightarrow> hash_value list \<Rightarrow> in_memory_accumulator \<Rightarrow> bool" where
  "accumulator_over H ls acc \<longleftrightarrow>
     roots_repr H 0 (unat (acc_num_leaves acc)) (rev (acc_frozen_subtree_roots acc)) ls \<and>
     acc_root_hash acc = merkle_root H (tree_depth (length ls)) ls"

lemma accumulator_new_repr:
  assumes "roots_repr H 0 (unat n) (rev roots) ls"
  shows "\<exists>acc. accumulator_new H roots n = Some (Inr acc) \<and> acc_num_leaves acc = n \<and> accumulator_over H ls acc"
  using assms roots_repr_lengths [OF assms] compute_root_hash_merkle [OF assms]
  by (simp add: accumulator_new_def accumulator_over_def u64_count_ones_nat)

lemma accumulator_over_num_leaves: "accumulator_over H ls acc \<Longrightarrow> unat (acc_num_leaves acc) = length ls"
  using roots_repr_lengths [of H 0 _ _ ls] by (auto simp: accumulator_over_def)

lemma accumulator_append_over:
  assumes "accumulator_over H ls acc" "length ls + length xs < 2 ^ 64"
  shows "\<exists>acc'. accumulator_append H acc xs = Some acc' \<and> accumulator_over H (ls @ xs) acc'"
proof -
  have "roots_repr H 0 (unat (acc_num_leaves acc)) (rev (acc_frozen_subtree_roots acc)) ls"
    using assms(1) by (simp add: accumulator_over_def)
  moreover have "unat (acc_num_leaves acc) + length xs < 2 ^ 64"
    using assms accumulator_over_num_leaves by simp
  ultimately obtain roots' n' where *:
    "append_leaves H (acc_frozen_subtree_roots acc) (acc_num_leaves acc) xs = Some (roots', n')"
    "roots_repr H 0 (unat n') (rev roots') (ls @ xs)"
    using append_leaves_repr by metis
  then show ?thesis using accumulator_new_repr [OF *(2)]
    by (auto simp: accumulator_append_def expect_def)
qed

lemma from_leaves_over:
  assumes "length ls < 2 ^ 64"
  shows "\<exists>acc. from_leaves H ls = Some acc \<and> accumulator_over H ls acc"
proof -
  obtain acc where "accumulator_new H [] 0 = Some (Inr acc)" "accumulator_over H [] acc"
    using accumulator_new_repr [of H 0 "[]" "[]"] by auto
  then show ?thesis using accumulator_append_over [of H "[]" acc ls] assms
    by (simp add: from_leaves_def expect_def)
qed

lemma append_leaves_append:
  "append_leaves H roots n (xs @ ys) = Option.bind (append_leaves H roots n xs) (\<lambda>(roots', n'). append_leaves H roots' n' ys)"
  by (induction xs arbitrary: roots n) (simp_all add: Option.bind_assoc)

lemma accumulator_new_fields:
  "accumulator_new H roots n = Some (Inr acc) \<Longrightarrow> acc_frozen_subtree_roots acc = roots \<and> acc_num_leaves acc = n"
  by (auto simp: accumulator_new_def split: if_splits)

lemma from_leaves_append:
  assumes "from_leaves H ls = Some acc"
  shows "from_leaves H (ls @ xs) = accumulator_append H acc xs"
proof -
  obtain acc0 roots n where 0: "accumulator_new H [] 0 = Some (Inr acc0)"
    and 1: "append_leaves H (acc_frozen_subtree_roots acc0) (acc_num_leaves acc0) ls = Some (roots, n)"
    and 2: "accumulator_new H roots n = Some (Inr acc)"
    using assms by (auto simp: from_leaves_def accumulator_append_def expect_def bind_eq_Some_conv
        split: option.splits sum.splits)
  then show ?thesis using accumulator_new_fields [OF 2]
    by (simp add: from_leaves_def accumulator_append_def expect_def append_leaves_append)
qed

section \<open>Properties\<close>

text \<open>C22. Building an accumulator from fewer than \<open>2 ^ 64\<close> leaves never panics; its root hash is the
  root of the Merkle tree over the leaves, padded with the placeholder, and its version is the
  index of the last leaf.\<close>

theorem from_leaves_is_merkle_root:
  assumes "length ls < 2 ^ 64"
  shows "\<exists>acc. from_leaves H ls = Some acc \<and> acc_root_hash acc = merkle_root H (tree_depth (length ls)) ls \<and>
    unat (acc_num_leaves acc) = length ls \<and> unat (accumulator_version acc) = length ls - 1"
proof -
  obtain acc where acc: "from_leaves H ls = Some acc" "accumulator_over H ls acc"
    using from_leaves_over [OF assms] by blast
  note n = accumulator_over_num_leaves [OF acc(2)]
  then have "unat (accumulator_version acc) = length ls - 1"
    by (cases "acc_num_leaves acc = 0") (simp_all add: accumulator_version_def unat_minus_one)
  then show ?thesis using acc n by (auto simp: accumulator_over_def)
qed

definition ex_hasher :: node_hasher where
  "ex_hasher a b = 2 * a + 3 * b"

theorem from_leaves_is_merkle_root_witness:
  "\<exists>acc. from_leaves ex_hasher [5, 6, 7] = Some acc \<and>
     acc_root_hash acc = merkle_root ex_hasher (tree_depth (length [5, 6, 7 :: hash_value])) [5, 6, 7] \<and>
     unat (acc_num_leaves acc) = length [5, 6, 7 :: hash_value] \<and>
     unat (accumulator_version acc) = length [5, 6, 7 :: hash_value] - 1"
  by (rule from_leaves_is_merkle_root) simp

text \<open>C23. An extension proof made of the subtree roots of the accumulator over \<open>ls\<close> verifies against
  its root hash, and what it returns is the accumulator over \<open>ls\<close> followed by the new leaves.\<close>

theorem extension_proof_extends:
  assumes "from_leaves H ls = Some acc" "length ls + length (aep_leaves p) < 2 ^ 64"
    and "aep_frozen_subtree_roots p = acc_frozen_subtree_roots acc" "aep_num_leaves p = acc_num_leaves acc"
  shows "\<exists>acc'. accumulator_extension_proof_verify H p (merkle_root H (tree_depth (length ls)) ls) = Inr acc' \<and>
    from_leaves H (ls @ aep_leaves p) = Some acc' \<and>
    acc_root_hash acc' = merkle_root H (tree_depth (length (ls @ aep_leaves p))) (ls @ aep_leaves p)"
proof -
  have over: "accumulator_over H ls acc" using from_leaves_over [of ls H] assms(1,2) by auto
  then have new: "accumulator_new H (acc_frozen_subtree_roots acc) (acc_num_leaves acc) = Some (Inr acc)"
    using accumulator_new_repr [of H "acc_num_leaves acc" "acc_frozen_subtree_roots acc" ls]
    by (auto simp: accumulator_over_def accumulator_new_def split: if_splits)
  obtain acc' where acc': "accumulator_append H acc (aep_leaves p) = Some acc'" "accumulator_over H (ls @ aep_leaves p) acc'"
    using accumulator_append_over [OF over assms(2)] by blast
  have "from_leaves H (ls @ aep_leaves p) = Some acc'"
    using from_leaves_append [OF assms(1)] acc'(1) by simp
  then show ?thesis using over acc' new assms(3,4)
    by (auto simp: accumulator_extension_proof_verify_def accumulator_over_def ensure_def ok_or_def)
qed

lemma ex_bit_counts:
  "u64_trailing_zeros (NOT 0) = 0" "u64_trailing_zeros (NOT 1) = 1" "u64_count_ones 0 = 0" "u64_count_ones 2 = 1"
  using u64_trailing_ones_nat [of 0] u64_trailing_ones_nat [of 1]
  by (simp_all add: u64_count_ones_nat nat_trailing_ones.simps nat_count_ones.simps)

theorem extension_proof_extends_witness:
  "\<exists>acc'. accumulator_extension_proof_verify ex_hasher
       \<lparr>aep_frozen_subtree_roots = [28], aep_num_leaves = 2, aep_leaves = [7]\<rparr>
       (merkle_root ex_hasher (tree_depth (length [5, 6 :: hash_value])) [5, 6]) = Inr acc' \<and>
     from_leaves ex_hasher ([5, 6] @ [7]) = Some acc' \<and>
     acc_root_hash acc' = merkle_root ex_hasher (tree_depth (length ([5, 6] @ [7 :: hash_value]))) ([5, 6] @ [7])"
proof -
  have "from_leaves ex_hasher [5, 6] = Some \<lparr>acc_frozen_subtree_roots = [28], acc_num_leaves = 2, acc_root_hash = 28\<rparr>"
    using ex_bit_counts
    by (simp add: from_leaves_def accumulator_append_def accumulator_new_def expect_def append_one_def
        compute_root_hash_def checked_add_def ex_hasher_def)
  from extension_proof_extends [OF this, of "\<lparr>aep_frozen_subtree_roots = [28], aep_num_leaves = 2, aep_leaves = [7]\<rparr>"]
  show ?thesis by simp
qed

end
