(* ===== verification/Blocks.thy ===== *)
theory Blocks
  imports Votes Payload Accumulator
begin

text \<open>
  Blocks and proposals: \<open>block_data.rs\<close>, \<open>opt_block_data.rs\<close>,
  \<open>proposal_ext.rs\<close>, \<open>block.rs\<close>, \<open>proposal_msg.rs\<close>,
  \<open>vote_proposal.rs\<close> and \<open>order_vote_proposal.rs\<close> of
  \<open>consensus/consensus-types/src\<close>. The hash of a block is a parameter; the clock is an
  argument.
\<close>

section \<open>Block data\<close>

type_synonym validator_transaction = "u8 list"

record opt_block_body =
  obb_validator_txns :: "validator_transaction list"
  obb_payload :: payload
  obb_author :: account_address
  obb_grandparent_qc :: quorum_cert

record proposal_ext =
  pext_validator_txns :: "validator_transaction list"
  pext_payload :: payload
  pext_author :: account_address
  pext_failed_authors :: "(round_t \<times> account_address) list"

datatype block_type =
    Proposal (prop_payload: payload) (prop_author: account_address)
      (prop_failed_authors: "(round_t \<times> account_address) list")
  | NilBlock (nil_failed_authors: "(round_t \<times> account_address) list")
  | Genesis
  | ProposalExt proposal_ext
  | OptimisticProposal opt_block_body
  | DAGBlock (dag_author: account_address) (dag_failed_authors: "(round_t \<times> account_address) list")
      (dag_validator_txns: "validator_transaction list") (dag_payload: payload)
      (dag_node_digests: "hash_value list") (dag_parent_block_id: hash_value) (dag_parents_bitvec: bit_vec)

record block_data =
  bd_epoch :: u64
  bd_round :: round_t
  bd_timestamp_usecs :: u64
  bd_quorum_cert :: quorum_cert
  bd_block_type :: block_type

fun bt_author :: "block_type \<Rightarrow> account_address option" where
  "bt_author (Proposal _ author _) = Some author"
| "bt_author (DAGBlock author _ _ _ _ _ _) = Some author"
| "bt_author (ProposalExt p) = Some (pext_author p)"
| "bt_author (OptimisticProposal p) = Some (obb_author p)"
| "bt_author _ = None"

definition bd_author :: "block_data \<Rightarrow> account_address option" where
  "bd_author bd = bt_author (bd_block_type bd)"

definition bd_parent_id :: "block_data \<Rightarrow> hash_value" where
  "bd_parent_id bd =
     (case bd_block_type bd of
        DAGBlock _ _ _ _ _ parent_block_id _ \<Rightarrow> parent_block_id
      | _ \<Rightarrow> bi_id (certified_block (bd_quorum_cert bd)))"

fun bt_payload :: "block_type \<Rightarrow> payload option" where
  "bt_payload (Proposal p _ _) = Some p"
| "bt_payload (DAGBlock _ _ _ p _ _ _) = Some p"
| "bt_payload (ProposalExt p) = Some (pext_payload p)"
| "bt_payload (OptimisticProposal p) = Some (obb_payload p)"
| "bt_payload _ = None"

definition bd_payload :: "block_data \<Rightarrow> payload option" where
  "bd_payload bd = bt_payload (bd_block_type bd)"

fun bt_validator_txns :: "block_type \<Rightarrow> validator_transaction list option" where
  "bt_validator_txns (ProposalExt p) = Some (pext_validator_txns p)"
| "bt_validator_txns (OptimisticProposal p) = Some (obb_validator_txns p)"
| "bt_validator_txns (DAGBlock _ _ txns _ _ _ _) = Some txns"
| "bt_validator_txns _ = None"

definition bd_validator_txns :: "block_data \<Rightarrow> validator_transaction list option" where
  "bd_validator_txns bd = bt_validator_txns (bd_block_type bd)"

definition dag_nodes :: "block_data \<Rightarrow> hash_value list option" where
  "dag_nodes bd = (case bd_block_type bd of DAGBlock _ _ _ _ digests _ _ \<Rightarrow> Some digests | _ \<Rightarrow> None)"

definition is_genesis_block :: "block_data \<Rightarrow> bool" where
  "is_genesis_block bd \<longleftrightarrow> bd_block_type bd = Genesis"

definition is_nil_block :: "block_data \<Rightarrow> bool" where
  "is_nil_block bd = (case bd_block_type bd of NilBlock _ \<Rightarrow> True | _ \<Rightarrow> False)"

definition is_opt_block :: "block_data \<Rightarrow> bool" where
  "is_opt_block bd = (case bd_block_type bd of OptimisticProposal _ \<Rightarrow> True | _ \<Rightarrow> False)"

fun bt_failed_authors :: "block_type \<Rightarrow> (round_t \<times> account_address) list option" where
  "bt_failed_authors (Proposal _ _ failed) = Some failed"
| "bt_failed_authors (NilBlock failed) = Some failed"
| "bt_failed_authors (DAGBlock _ failed _ _ _ _ _) = Some failed"
| "bt_failed_authors (ProposalExt p) = Some (pext_failed_authors p)"
| "bt_failed_authors (OptimisticProposal _) = None"
| "bt_failed_authors Genesis = None"

definition bd_failed_authors :: "block_data \<Rightarrow> (round_t \<times> account_address) list option" where
  "bd_failed_authors bd = bt_failed_authors (bd_block_type bd)"

definition is_reconfiguration_suffix :: "block_data \<Rightarrow> bool" where
  "is_reconfiguration_suffix bd = has_reconfiguration (certified_block (bd_quorum_cert bd))"

text \<open>
  What is hashed for the id of a block: all of its data, or, for an optimistic proposal, the
  vote data of its certificate instead of the certificate.
\<close>

datatype block_hash_input =
    OptBlockDataForHash u64 round_t u64 vote_data block_type
  | FullBlockData block_data

record block_crypto =
  bc_hash :: "block_hash_input \<Rightarrow> hash_value"
  bc_bls :: "block_data bls"

definition block_data_hash :: "block_crypto \<Rightarrow> block_data \<Rightarrow> hash_value" where
  "block_data_hash bc bd =
     bc_hash bc
       (if is_opt_block bd
        then OptBlockDataForHash (bd_epoch bd) (bd_round bd) (bd_timestamp_usecs bd)
               (qc_vote_data (bd_quorum_cert bd)) (bd_block_type bd)
        else FullBlockData bd)"

section \<open>Constructors\<close>

text \<open>\<open>None\<close> is a failed assertion or an overflow.\<close>

definition bd_new_genesis :: "u64 \<Rightarrow> quorum_cert \<Rightarrow> block_data option" where
  "bd_new_genesis timestamp_usecs qc =
     map_option
       (\<lambda>epoch. \<lparr>bd_epoch = epoch, bd_round = 0, bd_timestamp_usecs = timestamp_usecs, bd_quorum_cert = qc,
                  bd_block_type = Genesis\<rparr>)
       (checked_add (bi_epoch (certified_block qc)) 1)"

definition new_genesis_from_ledger_info :: "ledger_info \<Rightarrow> block_data option" where
  "new_genesis_from_ledger_info li =
     (if ends_epoch li then
        let ancestor = block_info_new (li_epoch li) 0 0 (transaction_accumulator_hash li) (li_version li)
                         (li_timestamp_usecs li) None
        in bd_new_genesis (li_timestamp_usecs li)
             (quorum_cert_new (vote_data_new ancestor ancestor)
                (lis_new (ledger_info_new ancestor 0) aggregate_signature_empty))
      else None)"

definition bd_new_nil :: "round_t \<Rightarrow> quorum_cert \<Rightarrow> (round_t \<times> account_address) list \<Rightarrow> block_data" where
  "bd_new_nil rnd qc failed_authors =
     \<lparr>bd_epoch = bi_epoch (certified_block qc), bd_round = rnd,
      bd_timestamp_usecs = bi_timestamp_usecs (certified_block qc), bd_quorum_cert = qc,
      bd_block_type = NilBlock failed_authors\<rparr>"

definition bd_new_for_dag ::
    "u64 \<Rightarrow> round_t \<Rightarrow> u64 \<Rightarrow> validator_transaction list \<Rightarrow> payload \<Rightarrow> account_address \<Rightarrow>
     (round_t \<times> account_address) list \<Rightarrow> hash_value \<Rightarrow> bit_vec \<Rightarrow> hash_value list \<Rightarrow> block_data" where
  "bd_new_for_dag epoch rnd timestamp_usecs validator_txns p author failed_authors parent_block_id
     parents_bitvec node_digests =
     \<lparr>bd_epoch = epoch, bd_round = rnd, bd_timestamp_usecs = timestamp_usecs,
      bd_quorum_cert =
        quorum_cert_new (vote_data_new block_info_empty block_info_empty)
          (lis_new (ledger_info_new block_info_empty 0) (aggregate_signature_new bitvec_default None)),
      bd_block_type = DAGBlock author failed_authors validator_txns p node_digests parent_block_id parents_bitvec\<rparr>"

definition bd_new_proposal ::
    "payload \<Rightarrow> account_address \<Rightarrow> (round_t \<times> account_address) list \<Rightarrow> round_t \<Rightarrow> u64 \<Rightarrow> quorum_cert \<Rightarrow> block_data" where
  "bd_new_proposal p author failed_authors rnd timestamp_usecs qc =
     \<lparr>bd_epoch = bi_epoch (certified_block qc), bd_round = rnd, bd_timestamp_usecs = timestamp_usecs,
      bd_quorum_cert = qc, bd_block_type = Proposal p author failed_authors\<rparr>"

definition bd_new_proposal_ext ::
    "validator_transaction list \<Rightarrow> payload \<Rightarrow> account_address \<Rightarrow> (round_t \<times> account_address) list \<Rightarrow> round_t \<Rightarrow>
     u64 \<Rightarrow> quorum_cert \<Rightarrow> block_data" where
  "bd_new_proposal_ext validator_txns p author failed_authors rnd timestamp_usecs qc =
     \<lparr>bd_epoch = bi_epoch (certified_block qc), bd_round = rnd, bd_timestamp_usecs = timestamp_usecs,
      bd_quorum_cert = qc,
      bd_block_type =
        ProposalExt \<lparr>pext_validator_txns = validator_txns, pext_payload = p, pext_author = author,
                     pext_failed_authors = failed_authors\<rparr>\<rparr>"

record opt_block_data =
  obd_epoch :: u64
  obd_round :: round_t
  obd_timestamp_usecs :: u64
  obd_parent :: block_info
  obd_block_body :: opt_block_body

definition bd_new_from_opt :: "opt_block_data \<Rightarrow> quorum_cert \<Rightarrow> block_data" where
  "bd_new_from_opt obd qc =
     \<lparr>bd_epoch = obd_epoch obd, bd_round = obd_round obd, bd_timestamp_usecs = obd_timestamp_usecs obd,
      bd_quorum_cert = qc, bd_block_type = OptimisticProposal (obd_block_body obd)\<rparr>"

definition TIMEBOUND :: u64 where
  "TIMEBOUND = 300000000"

definition round_plus_one :: "round_t \<Rightarrow> anyhow_error + round_t" where
  "round_plus_one r = ok_or (Panicked ''attempt to add with overflow'') (checked_add r 1)"

definition opt_block_verify_well_formed :: "u64 \<Rightarrow> opt_block_data \<Rightarrow> anyhow_error + unit" where
  "opt_block_verify_well_formed current_ts obd =
     (let parent = obd_parent obd;
          grandparent = certified_block (obb_grandparent_qc (obd_block_body obd))
      in rbind (round_plus_one (bi_round grandparent)) (\<lambda>gp1.
         rbind (ensure (gp1 = bi_round parent)
                  (Msg ''Block's parent's round must be one more than grandparent's round'')) (\<lambda>_.
         rbind (round_plus_one (bi_round parent)) (\<lambda>p1.
         rbind (ensure (p1 = obd_round obd) (Msg ''Block's round must be one more than parent's round'')) (\<lambda>_.
         rbind (ensure (bi_epoch grandparent = obd_epoch obd \<and> bi_epoch parent = obd_epoch obd)
                  (Msg ''Block's parent and grantparent should be in the same epoch'')) (\<lambda>_.
         rbind (ensure (\<not> has_reconfiguration grandparent)
                  (Msg ''Optimistic proposals are disallowed after the reconfiguration block'')) (\<lambda>_.
         rbind (payload_verify_epoch (obb_payload (obd_block_body obd)) (obd_epoch obd)) (\<lambda>_.
         rbind (ensure (obd_timestamp_usecs obd > bi_timestamp_usecs parent \<and>
                        bi_timestamp_usecs parent > bi_timestamp_usecs grandparent)
                  (Msg ''Blocks must have strictly increasing timestamps'')) (\<lambda>_.
         ensure (obd_timestamp_usecs obd \<le> saturating_add current_ts TIMEBOUND)
           (Msg ''Blocks must not be too far in the future''))))))))))"

section \<open>Blocks\<close>

record block =
  b_id :: hash_value
  b_block_data :: block_data
  b_signature :: "bls_signature option"

definition b_epoch :: "block \<Rightarrow> u64" where "b_epoch b = bd_epoch (b_block_data b)"
definition b_round :: "block \<Rightarrow> round_t" where "b_round b = bd_round (b_block_data b)"
definition b_quorum_cert :: "block \<Rightarrow> quorum_cert" where "b_quorum_cert b = bd_quorum_cert (b_block_data b)"
definition b_timestamp_usecs :: "block \<Rightarrow> u64" where "b_timestamp_usecs b = bd_timestamp_usecs (b_block_data b)"
definition b_author :: "block \<Rightarrow> account_address option" where "b_author b = bd_author (b_block_data b)"
definition b_parent_id :: "block \<Rightarrow> hash_value" where "b_parent_id b = bd_parent_id (b_block_data b)"
definition b_payload :: "block \<Rightarrow> payload option" where "b_payload b = bd_payload (b_block_data b)"

definition b_payload_size :: "block \<Rightarrow> u64 option" where
  "b_payload_size b =
     (case b_payload b of Some (OptQuorumStore p) \<Rightarrow> oqs_num_txns p | _ \<Rightarrow> Some 0)"

definition gen_block_info :: "block \<Rightarrow> hash_value \<Rightarrow> version \<Rightarrow> epoch_state option \<Rightarrow> block_info" where
  "gen_block_info b executed_state_id vers next_epoch_state =
     block_info_new (b_epoch b) (b_round b) (b_id b) executed_state_id vers (b_timestamp_usecs b) next_epoch_state"

text \<open>Every constructor, and deserialization, makes the id the hash of the data.\<close>

definition block_of_data :: "block_crypto \<Rightarrow> block_data \<Rightarrow> bls_signature option \<Rightarrow> block" where
  "block_of_data bc bd signature = \<lparr>b_id = block_data_hash bc bd, b_block_data = bd, b_signature = signature\<rparr>"

definition make_genesis_block_from_ledger_info :: "block_crypto \<Rightarrow> ledger_info \<Rightarrow> block option" where
  "make_genesis_block_from_ledger_info bc li =
     map_option (\<lambda>bd. block_of_data bc bd None) (new_genesis_from_ledger_info li)"

definition block_new_nil :: "block_crypto \<Rightarrow> round_t \<Rightarrow> quorum_cert \<Rightarrow> (round_t \<times> account_address) list \<Rightarrow> block" where
  "block_new_nil bc rnd qc failed_authors = block_of_data bc (bd_new_nil rnd qc failed_authors) None"

definition block_new_for_dag ::
    "block_crypto \<Rightarrow> u64 \<Rightarrow> round_t \<Rightarrow> u64 \<Rightarrow> validator_transaction list \<Rightarrow> payload \<Rightarrow> account_address \<Rightarrow>
     (round_t \<times> account_address) list \<Rightarrow> hash_value \<Rightarrow> bit_vec \<Rightarrow> hash_value list \<Rightarrow> block" where
  "block_new_for_dag bc epoch rnd timestamp_usecs validator_txns p author failed_authors parent_block_id
     parents_bitvec node_digests =
     block_of_data bc
       (bd_new_for_dag epoch rnd timestamp_usecs validator_txns p author failed_authors parent_block_id
          parents_bitvec node_digests) None"

definition new_proposal_from_block_data_and_signature :: "block_crypto \<Rightarrow> block_data \<Rightarrow> bls_signature \<Rightarrow> block" where
  "new_proposal_from_block_data_and_signature bc bd signature = block_of_data bc bd (Some signature)"

definition new_proposal_from_block_data ::
    "block_crypto \<Rightarrow> block_data \<Rightarrow> validator_signer \<Rightarrow> signing_error + block" where
  "new_proposal_from_block_data bc bd signer =
     rbind (signer_sign (bc_bls bc) signer bd) (\<lambda>signature.
     Inr (new_proposal_from_block_data_and_signature bc bd signature))"

definition block_new_proposal ::
    "block_crypto \<Rightarrow> payload \<Rightarrow> round_t \<Rightarrow> u64 \<Rightarrow> quorum_cert \<Rightarrow> validator_signer \<Rightarrow>
     (round_t \<times> account_address) list \<Rightarrow> signing_error + block" where
  "block_new_proposal bc p rnd timestamp_usecs qc signer failed_authors =
     new_proposal_from_block_data bc
       (bd_new_proposal p (vs_author signer) failed_authors rnd timestamp_usecs qc) signer"

definition block_new_proposal_ext ::
    "block_crypto \<Rightarrow> validator_transaction list \<Rightarrow> payload \<Rightarrow> round_t \<Rightarrow> u64 \<Rightarrow> quorum_cert \<Rightarrow> validator_signer \<Rightarrow>
     (round_t \<times> account_address) list \<Rightarrow> signing_error + block" where
  "block_new_proposal_ext bc validator_txns p rnd timestamp_usecs qc signer failed_authors =
     new_proposal_from_block_data bc
       (bd_new_proposal_ext validator_txns p (vs_author signer) failed_authors rnd timestamp_usecs qc) signer"

definition block_new_from_opt :: "block_crypto \<Rightarrow> opt_block_data \<Rightarrow> quorum_cert \<Rightarrow> block" where
  "block_new_from_opt bc obd qc = block_of_data bc (bd_new_from_opt obd qc) None"

definition block_deserialize :: "block_crypto \<Rightarrow> block_data \<Rightarrow> bls_signature option \<Rightarrow> block" where
  "block_deserialize bc bd signature = block_of_data bc bd signature"

section \<open>Statistics\<close>

text \<open>The counts are \<open>None\<close> when a sum overflows.\<close>

definition v1_proof_stats :: "'t t_batch_info \<Rightarrow> 't opt_quorum_store_payload_v1 \<Rightarrow> nat \<times> u64 option \<times> u64 option" where
  "v1_proof_stats tb p =
     (length (oqs_proofs p), sum_usize (\<lambda>b. tb_num_txns tb (pos_info b)) (oqs_proofs p),
      sum_usize (\<lambda>b. tb_num_bytes tb (pos_info b)) (oqs_proofs p))"

definition v1_inline_batch_stats ::
    "'t t_batch_info \<Rightarrow> 't opt_quorum_store_payload_v1 \<Rightarrow> nat \<times> u64 option \<times> u64 option" where
  "v1_inline_batch_stats tb p =
     (length (oqs_inline_batches p), sum_usize (\<lambda>b. tb_num_txns tb (ib_batch_info b)) (oqs_inline_batches p),
      sum_usize (\<lambda>b. tb_num_bytes tb (ib_batch_info b)) (oqs_inline_batches p))"

definition v1_opt_batch_stats ::
    "'t t_batch_info \<Rightarrow> 't opt_quorum_store_payload_v1 \<Rightarrow> nat \<times> u64 option \<times> u64 option" where
  "v1_opt_batch_stats tb p =
     (length (oqs_opt_batches p), sum_usize (tb_num_txns tb) (oqs_opt_batches p),
      sum_usize (tb_num_bytes tb) (oqs_opt_batches p))"

definition proof_stats :: "block \<Rightarrow> nat \<times> u64 option \<times> u64 option" where
  "proof_stats b =
     (case b_payload b of
        Some (OptQuorumStore (OptQS_V1 p)) \<Rightarrow> v1_proof_stats batch_info_impl p
      | Some (OptQuorumStore (OptQS_V2 p)) \<Rightarrow> v1_proof_stats batch_info_ext_impl p
      | _ \<Rightarrow> (0, Some 0, Some 0))"

definition inline_batch_stats :: "block \<Rightarrow> nat \<times> u64 option \<times> u64 option" where
  "inline_batch_stats b =
     (case b_payload b of
        Some (OptQuorumStore (OptQS_V1 p)) \<Rightarrow> v1_inline_batch_stats batch_info_impl p
      | Some (OptQuorumStore (OptQS_V2 p)) \<Rightarrow> v1_inline_batch_stats batch_info_ext_impl p
      | _ \<Rightarrow> (0, Some 0, Some 0))"

definition opt_batch_stats :: "block \<Rightarrow> nat \<times> u64 option \<times> u64 option" where
  "opt_batch_stats b =
     (case b_payload b of
        Some (OptQuorumStore (OptQS_V1 p)) \<Rightarrow> v1_opt_batch_stats batch_info_impl p
      | Some (OptQuorumStore (OptQS_V2 p)) \<Rightarrow> v1_opt_batch_stats batch_info_ext_impl p
      | _ \<Rightarrow> (0, Some 0, Some 0))"

section \<open>Verification of blocks\<close>

definition verify_block_signature ::
    "crypto \<Rightarrow> block_crypto \<Rightarrow> validator_verifier \<Rightarrow> account_address \<Rightarrow> block \<Rightarrow> anyhow_error + unit" where
  "verify_block_signature cr bc validator author b =
     rbind (ok_or (Msg ''Missing signature in Proposal'') (b_signature b)) (\<lambda>signature.
     rayon_join (into_anyhow (vv_verify (bc_bls bc) validator author (b_block_data b) signature))
       (quorum_cert_verify cr validator (b_quorum_cert b)))"

definition validate_signature ::
    "crypto \<Rightarrow> block_crypto \<Rightarrow> validator_verifier \<Rightarrow> block \<Rightarrow> anyhow_error + unit" where
  "validate_signature cr bc validator b =
     (case bd_block_type (b_block_data b) of
        Genesis \<Rightarrow> Inl (Msg ''We should not accept genesis from others'')
      | NilBlock _ \<Rightarrow> quorum_cert_verify cr validator (b_quorum_cert b)
      | Proposal _ author _ \<Rightarrow> verify_block_signature cr bc validator author b
      | ProposalExt p \<Rightarrow> verify_block_signature cr bc validator (pext_author p) b
      | OptimisticProposal p \<Rightarrow>
          rayon_join (quorum_cert_verify cr validator (obb_grandparent_qc p))
            (quorum_cert_verify cr validator (b_quorum_cert b))
      | DAGBlock _ _ _ _ _ _ _ \<Rightarrow> Inl (Msg ''We should not accept DAG block from others''))"

fun check_failed_rounds :: "round_t \<Rightarrow> round_t \<Rightarrow> (round_t \<times> account_address) list \<Rightarrow> anyhow_error + unit" where
  "check_failed_rounds bound succ_round [] = Inr ()"
| "check_failed_rounds bound succ_round ((r, _) # failed_authors) =
     rbind (ensure (bound < r \<and> r < succ_round) (Msg ''Incorrect round in failed authors'')) (\<lambda>_.
     check_failed_rounds r succ_round failed_authors)"

definition verify_failed_authors :: "block \<Rightarrow> anyhow_error + unit" where
  "verify_failed_authors b =
     (let parent = certified_block (b_quorum_cert b)
      in case bd_failed_authors (b_block_data b) of
           None \<Rightarrow> Inr ()
         | Some failed_authors \<Rightarrow>
             rbind (ok_or (Msg ''Block round overflow'')
                      (checked_add (b_round b) (if is_nil_block (b_block_data b) then 1 else 0))) (\<lambda>succ_round.
             rbind (round_plus_one (bi_round parent)) (\<lambda>parent_succ.
             rbind (ok_or (Msg ''Block round is smaller than block's parent round'')
                      (checked_sub succ_round parent_succ)) (\<lambda>skipped_rounds.
             rbind (ensure (length failed_authors \<le> unat skipped_rounds)
                      (Msg ''Block has more failed authors than missed rounds'')) (\<lambda>_.
             check_failed_rounds (bi_round parent) succ_round failed_authors)))))"

definition verify_timestamp :: "u64 \<Rightarrow> block \<Rightarrow> anyhow_error + unit" where
  "verify_timestamp current_ts b =
     (let parent = certified_block (b_quorum_cert b)
      in if is_nil_block (b_block_data b) \<or> has_reconfiguration parent
         then ensure (b_timestamp_usecs b = bi_timestamp_usecs parent)
                (Msg ''Nil/reconfig suffix block must have same timestamp as parent'')
         else rbind (ensure (b_timestamp_usecs b > bi_timestamp_usecs parent)
                       (Msg ''Blocks must have strictly increasing timestamps'')) (\<lambda>_.
              ensure (b_timestamp_usecs b \<le> saturating_add current_ts TIMEBOUND)
                (Msg ''Blocks must not be too far in the future'')))"

definition verify_payload_suffix :: "block \<Rightarrow> anyhow_error + unit" where
  "verify_payload_suffix b =
     (if has_reconfiguration (certified_block (b_quorum_cert b))
      then case b_payload b of
             None \<Rightarrow> Inr ()
           | Some p \<Rightarrow>
               rbind (ok_or (Panicked ''internal error: entered unreachable code'') (payload_is_empty p)) (\<lambda>empty.
               ensure empty (Msg ''Reconfiguration suffix should not carry payload''))
      else Inr ())"

definition block_verify_well_formed :: "u64 \<Rightarrow> block \<Rightarrow> anyhow_error + unit" where
  "block_verify_well_formed current_ts b =
     (let parent = certified_block (b_quorum_cert b)
      in rbind (ensure (\<not> is_genesis_block (b_block_data b)) (Msg ''We must not accept genesis from others'')) (\<lambda>_.
         rbind (ensure (bi_round parent < b_round b)
                  (Msg ''Block must have a greater round than parent's block'')) (\<lambda>_.
         rbind (ensure (bi_epoch parent = b_epoch b)
                  (Msg ''block's parent should be in the same epoch'')) (\<lambda>_.
         rbind (verify_payload_suffix b) (\<lambda>_.
         rbind (case b_payload b of Some p \<Rightarrow> payload_verify_epoch p (b_epoch b) | None \<Rightarrow> Inr ()) (\<lambda>_.
         rbind (verify_failed_authors b) (\<lambda>_.
         rbind (verify_timestamp current_ts b) (\<lambda>_.
         ensure (\<not> qc_ends_epoch (b_quorum_cert b))
           (Msg ''Block cannot be proposed in an epoch that has ended'')))))))))"

section \<open>Block metadata\<close>

definition previous_bitvec :: "block \<Rightarrow> bit_vec" where
  "previous_bitvec b =
     (case bd_block_type (b_block_data b) of
        DAGBlock _ _ _ _ _ _ parents_bitvec \<Rightarrow> parents_bitvec
      | OptimisticProposal p \<Rightarrow> get_signers_bitvec (lis_signatures (qc_signed_ledger_info (obb_grandparent_qc p)))
      | _ \<Rightarrow> get_signers_bitvec (lis_signatures (qc_signed_ledger_info (b_quorum_cert b))))"

fun position_of :: "'a \<Rightarrow> 'a list \<Rightarrow> nat option" where
  "position_of a [] = None"
| "position_of a (x # xs) = (if x = a then Some 0 else map_option Suc (position_of a xs))"

definition u32_try_from :: "nat \<Rightarrow> u32 option" where
  "u32_try_from i = (if i < 2 ^ 32 then Some (word_of_nat i) else None)"

fun failed_authors_to_indices :: "account_address list \<Rightarrow> (round_t \<times> account_address) list \<Rightarrow> u32 list option" where
  "failed_authors_to_indices validators [] = Some []"
| "failed_authors_to_indices validators ((_, failed_author) # failed_authors) =
     Option.bind (Option.bind (position_of failed_author validators) u32_try_from) (\<lambda>i.
     map_option ((#) i) (failed_authors_to_indices validators failed_authors))"

record block_metadata =
  bm_id :: hash_value
  bm_epoch :: u64
  bm_round :: u64
  bm_proposer :: account_address
  bm_previous_block_votes_bitvec :: "u8 list"
  bm_failed_proposer_indices :: "u32 list"
  bm_timestamp_usecs :: u64

record 'r block_metadata_with_randomness = block_metadata +
  bmr_randomness :: "'r option"

record ('r, 'k) block_metadata_with_rand_and_dec_key = "'r block_metadata_with_randomness" +
  bmk_decryption_key :: "'k option"

record ('r, 'd) block_metadata_with_rand_and_dec_payload = "'r block_metadata_with_randomness" +
  bmd_decryption_payload :: "'d option"

text \<open>The randomness and the decryption material are passed through: their types are parameters.\<close>

datatype ('r, 'k, 'd) block_metadata_ext =
    MetadataV0 block_metadata
  | MetadataV1 "'r block_metadata_with_randomness"
  | MetadataV2 "('r, 'k) block_metadata_with_rand_and_dec_key"
  | MetadataV3 "('r, 'd) block_metadata_with_rand_and_dec_payload"

definition new_block_metadata :: "block \<Rightarrow> account_address list \<Rightarrow> block_metadata option" where
  "new_block_metadata b validators =
     map_option
       (\<lambda>indices.
          \<lparr>bm_id = b_id b, bm_epoch = b_epoch b, bm_round = b_round b,
           bm_proposer = (case b_author b of Some a \<Rightarrow> a | None \<Rightarrow> 0),
           bm_previous_block_votes_bitvec = bitvec_into_bytes (previous_bitvec b),
           bm_failed_proposer_indices = indices, bm_timestamp_usecs = b_timestamp_usecs b\<rparr>)
       (case bd_failed_authors (b_block_data b) of
          None \<Rightarrow> Some []
        | Some failed_authors \<Rightarrow> failed_authors_to_indices validators failed_authors)"

definition new_metadata_with_randomness ::
    "block \<Rightarrow> account_address list \<Rightarrow> 'r option \<Rightarrow> ('r, 'k, 'd) block_metadata_ext option" where
  "new_metadata_with_randomness b validators randomness =
     map_option (\<lambda>m. MetadataV1 (block_metadata.extend m (block_metadata_with_randomness.fields randomness)))
       (new_block_metadata b validators)"

definition new_metadata_with_rand_and_dec_key ::
    "block \<Rightarrow> account_address list \<Rightarrow> 'r option \<Rightarrow> 'k option \<Rightarrow> ('r, 'k, 'd) block_metadata_ext option" where
  "new_metadata_with_rand_and_dec_key b validators randomness decryption_key =
     map_option
       (\<lambda>m. MetadataV2 (block_metadata_with_randomness.extend
               (block_metadata.extend m (block_metadata_with_randomness.fields randomness))
               (block_metadata_with_rand_and_dec_key.fields decryption_key)))
       (new_block_metadata b validators)"

definition new_metadata_with_rand_and_dec_payload ::
    "block \<Rightarrow> account_address list \<Rightarrow> 'r option \<Rightarrow> 'd option \<Rightarrow> ('r, 'k, 'd) block_metadata_ext option" where
  "new_metadata_with_rand_and_dec_payload b validators randomness decryption_payload =
     map_option
       (\<lambda>m. MetadataV3 (block_metadata_with_randomness.extend
               (block_metadata.extend m (block_metadata_with_randomness.fields randomness))
               (block_metadata_with_rand_and_dec_payload.fields decryption_payload)))
       (new_block_metadata b validators)"

datatype ('r, 'k, 'd) input_transaction =
    TxnBlockMetadata block_metadata
  | TxnBlockMetadataExt "('r, 'k, 'd) block_metadata_ext"
  | ValidatorTransaction validator_transaction
  | UserTransaction signed_transaction

fun transaction_from_metadata :: "('r, 'k, 'd) block_metadata_ext \<Rightarrow> ('r, 'k, 'd) input_transaction" where
  "transaction_from_metadata (MetadataV0 v0) = TxnBlockMetadata v0"
| "transaction_from_metadata vx = TxnBlockMetadataExt vx"

definition combine_to_input_transactions ::
    "validator_transaction list \<Rightarrow> signed_transaction list \<Rightarrow> ('r, 'k, 'd) block_metadata_ext \<Rightarrow>
     ('r, 'k, 'd) input_transaction list" where
  "combine_to_input_transactions validator_txns txns metadata =
     transaction_from_metadata metadata # map ValidatorTransaction validator_txns @ map UserTransaction txns"

section \<open>Proposals\<close>

record proposal_msg =
  pm_proposal :: block
  pm_sync_info :: sync_info

definition proposal_msg_verify_well_formed :: "u64 \<Rightarrow> proposal_msg \<Rightarrow> anyhow_error + unit" where
  "proposal_msg_verify_well_formed current_ts m =
     (let proposal = pm_proposal m; si = pm_sync_info m
      in rbind (ensure (\<not> is_nil_block (b_block_data proposal)) (Msg ''Proposal for a NIL block'')) (\<lambda>_.
         rbind (ensure (\<not> is_opt_block (b_block_data proposal)) (Msg ''Proposal for an opt block'')) (\<lambda>_.
         rbind (with_context ''Fail to verify ProposalMsg's block'' (block_verify_well_formed current_ts proposal)) (\<lambda>_.
         rbind (ensure (b_round proposal > 0) (Msg ''Proposal has an incorrect round of 0'')) (\<lambda>_.
         rbind (ensure (b_epoch proposal = sync_info_epoch si)
                  (Msg ''ProposalMsg has different epoch number from SyncInfo'')) (\<lambda>_.
         rbind (ensure (b_parent_id proposal = bi_id (certified_block (si_highest_quorum_cert si)))
                  (Msg ''Proposal HQC in SyncInfo does not certify the block parent id'')) (\<lambda>_.
         rbind (ok_or (Msg ''proposal round overflowed!'') (checked_sub (b_round proposal) 1)) (\<lambda>previous_round.
         rbind (ensure (previous_round =
                          max (bi_round (certified_block (b_quorum_cert proposal))) (si_highest_timeout_round si))
                  (Msg ''Proposal does not have a certified round'')) (\<lambda>_.
         ensure (b_author proposal \<noteq> None) (Msg ''Proposal does not define an author''))))))))))"

definition proposal_msg_verify ::
    "crypto \<Rightarrow> block_crypto \<Rightarrow> payload_env \<Rightarrow> u64 \<Rightarrow> account_address \<Rightarrow> validator_verifier \<Rightarrow> bool \<Rightarrow> bool \<Rightarrow>
     u64 \<Rightarrow> u64 \<Rightarrow> proposal_msg \<Rightarrow> (proof_cache, anyhow_error, unit) method_result" where
  "proposal_msg_verify cr bc pe current_ts sender validator quorum_store_enabled opt_qs_v2_rx_enabled
     max_batch_txns max_batch_bytes m =
     sbind (slift (case b_author (pm_proposal m) of
                     Some proposal_author \<Rightarrow>
                       ensure (proposal_author = sender) (Msg ''Proposal author doesn't match sender'')
                   | None \<Rightarrow> Inr ())) (\<lambda>_ cache.
     case (case b_payload (pm_proposal m) of
             None \<Rightarrow> (Inr (), cache)
           | Some p \<Rightarrow> payload_verify pe validator quorum_store_enabled opt_qs_v2_rx_enabled max_batch_txns
                         max_batch_bytes p cache) of
       (payload_result, cache') \<Rightarrow>
         (rbind (rayon_join payload_result
                   (with_context ''format_err'' (validate_signature cr bc validator (pm_proposal m)))) (\<lambda>_.
          rbind (case si_highest_2chain_timeout_cert (pm_sync_info m) of
                   Some tc \<Rightarrow> with_context ''format_err'' (timeout_certificate_verify cr validator tc)
                 | None \<Rightarrow> Inr ()) (\<lambda>_.
          proposal_msg_verify_well_formed current_ts m)), cache'))"

record opt_proposal_msg =
  opm_block_data :: opt_block_data
  opm_sync_info :: sync_info

definition opt_proposal_msg_verify_well_formed :: "u64 \<Rightarrow> opt_proposal_msg \<Rightarrow> anyhow_error + unit" where
  "opt_proposal_msg_verify_well_formed current_ts m =
     (let obd = opm_block_data m; si = opm_sync_info m;
          grandparent = certified_block (obb_grandparent_qc (obd_block_body obd))
      in rbind (with_context ''Fail to verify OptProposalMsg's data'' (opt_block_verify_well_formed current_ts obd)) (\<lambda>_.
         rbind (ensure (obd_round obd > 1) (Msg ''Proposal has round <= 1'')) (\<lambda>_.
         rbind (ensure (obd_epoch obd = sync_info_epoch si)
                  (Msg ''ProposalMsg has different epoch number from SyncInfo'')) (\<lambda>_.
         rbind (ensure (bi_id grandparent = bi_id (certified_block (si_highest_quorum_cert si)))
                  (Msg ''Proposal HQC in SyncInfo does not certify the block grandparent id'')) (\<lambda>_.
         rbind (ok_or (Msg ''proposal round overflowed!'') (checked_sub (obd_round obd) 2)) (\<lambda>grandparent_round.
         rbind (ensure (grandparent_round = bi_round grandparent)
                  (Msg ''Proposal does not have a certified round'')) (\<lambda>_.
         ensure (si_highest_2chain_timeout_cert si = None)
           (Msg ''Optimistic proposal shouldn't have a timeout certificate''))))))))"

definition opt_proposal_msg_verify ::
    "crypto \<Rightarrow> payload_env \<Rightarrow> u64 \<Rightarrow> account_address \<Rightarrow> validator_verifier \<Rightarrow> bool \<Rightarrow> bool \<Rightarrow> u64 \<Rightarrow> u64 \<Rightarrow>
     opt_proposal_msg \<Rightarrow> (proof_cache, anyhow_error, unit) method_result" where
  "opt_proposal_msg_verify cr pe current_ts sender validator quorum_store_enabled opt_qs_v2_enabled
     max_batch_txns max_batch_bytes m =
     sbind (slift (ensure (obb_author (obd_block_body (opm_block_data m)) = sender)
                     (Msg ''OptProposal author doesn't match sender''))) (\<lambda>_ cache.
     case payload_verify pe validator quorum_store_enabled opt_qs_v2_enabled max_batch_txns max_batch_bytes
            (obb_payload (obd_block_body (opm_block_data m))) cache of
       (payload_result, cache') \<Rightarrow>
         (rbind (rayon_join payload_result
                   (quorum_cert_verify cr validator (obb_grandparent_qc (obd_block_body (opm_block_data m))))) (\<lambda>_.
          opt_proposal_msg_verify_well_formed current_ts m), cache'))"

section \<open>What the safety rules are asked to vote on\<close>

record vote_proposal =
  vp_accumulator_extension_proof :: accumulator_extension_proof
  vp_block :: block
  vp_next_epoch_state :: "epoch_state option"
  vp_decoupled_execution :: bool

definition vote_data_ordering_only :: "vote_proposal \<Rightarrow> vote_data" where
  "vote_data_ordering_only vp =
     vote_data_new (gen_block_info (vp_block vp) ACCUMULATOR_PLACEHOLDER_HASH 0 (vp_next_epoch_state vp))
       (certified_block (b_quorum_cert (vp_block vp)))"

definition vote_data_with_extension_proof :: "vote_proposal \<Rightarrow> in_memory_accumulator \<Rightarrow> vote_data" where
  "vote_data_with_extension_proof vp new_tree =
     vote_data_new
       (gen_block_info (vp_block vp) (acc_root_hash new_tree) (accumulator_version new_tree) (vp_next_epoch_state vp))
       (certified_block (b_quorum_cert (vp_block vp)))"

definition gen_vote_data :: "node_hasher \<Rightarrow> vote_proposal \<Rightarrow> anyhow_error + vote_data" where
  "gen_vote_data H vp =
     (if vp_decoupled_execution vp then Inr (vote_data_ordering_only vp)
      else rbind (accumulator_extension_proof_verify H (vp_accumulator_extension_proof vp)
                    (bi_executed_state_id (certified_block (b_quorum_cert (vp_block vp))))) (\<lambda>new_tree.
           Inr (vote_data_with_extension_proof vp new_tree)))"

record order_vote_proposal =
  ovp_block :: block
  ovp_block_info :: block_info
  ovp_quorum_cert :: quorum_cert

end
