(* ===== verification/Epoch_Change.thy ===== *)
theory Epoch_Change
  imports Accumulator
begin

text \<open>
  How trust moves from one validator set to the next: \<open>types/src/waypoint.rs\<close>,
  \<open>types/src/epoch_change.rs\<close>, the \<open>Verifier\<close> implementation of
  \<open>types/src/epoch_state.rs\<close>, \<open>types/src/state_proof.rs\<close> and
  \<open>types/src/trusted_state.rs\<close>. The hash of a waypoint is a parameter.
\<close>

section \<open>Waypoints\<close>

record waypoint =
  wp_version :: version
  wp_value :: hash_value

record ledger2waypoint_converter =
  l2w_epoch :: u64
  l2w_root_hash :: hash_value
  l2w_version :: version
  l2w_timestamp_usecs :: u64
  l2w_next_epoch_state :: "epoch_state option"

type_synonym waypoint_hasher = "ledger2waypoint_converter \<Rightarrow> hash_value"

definition ledger2waypoint_new :: "ledger_info \<Rightarrow> ledger2waypoint_converter" where
  "ledger2waypoint_new li =
     \<lparr>l2w_epoch = li_epoch li, l2w_root_hash = transaction_accumulator_hash li, l2w_version = li_version li,
      l2w_timestamp_usecs = li_timestamp_usecs li, l2w_next_epoch_state = li_next_epoch_state li\<rparr>"

definition waypoint_new_any :: "waypoint_hasher \<Rightarrow> ledger_info \<Rightarrow> waypoint" where
  "waypoint_new_any hw li = \<lparr>wp_version = li_version li, wp_value = hw (ledger2waypoint_new li)\<rparr>"

definition new_epoch_boundary :: "waypoint_hasher \<Rightarrow> ledger_info \<Rightarrow> anyhow_error + waypoint" where
  "new_epoch_boundary hw li =
     rbind (ensure (ends_epoch li) (Msg ''No validator set'')) (\<lambda>_. Inr (waypoint_new_any hw li))"

definition waypoint_verify :: "waypoint_hasher \<Rightarrow> waypoint \<Rightarrow> ledger_info \<Rightarrow> anyhow_error + unit" where
  "waypoint_verify hw w li =
     rbind (ensure (li_version li = wp_version w) (Msg ''Waypoint version mismatch'')) (\<lambda>_.
     ensure (hw (ledger2waypoint_new li) = wp_value w) (Msg ''Waypoint value mismatch''))"

section \<open>Verifiers\<close>

text \<open>An object of the trait \<open>Verifier\<close> is the record of its methods.\<close>

record dyn_verifier =
  dv_verify :: "ledger_info_with_signatures \<Rightarrow> anyhow_error + unit"
  dv_epoch_change_verification_required :: "u64 \<Rightarrow> bool"
  dv_is_ledger_info_stale :: "ledger_info \<Rightarrow> bool"

definition waypoint_verifier :: "waypoint_hasher \<Rightarrow> waypoint \<Rightarrow> dyn_verifier" where
  "waypoint_verifier hw w =
     \<lparr>dv_verify = (\<lambda>li. waypoint_verify hw w (lis_ledger_info li)),
      dv_epoch_change_verification_required = (\<lambda>_. True),
      dv_is_ledger_info_stale = (\<lambda>li. li_version li < wp_version w)\<rparr>"

definition epoch_state_verify ::
    "ledger_info bls \<Rightarrow> epoch_state \<Rightarrow> ledger_info_with_signatures \<Rightarrow> anyhow_error + unit" where
  "epoch_state_verify bls es li =
     rbind (ensure (es_epoch es = li_epoch (lis_ledger_info li)) (Msg ''LedgerInfo has unexpected epoch'')) (\<lambda>_.
     into_anyhow (verify_signatures bls (es_verifier es) li))"

definition epoch_state_verifier :: "ledger_info bls \<Rightarrow> epoch_state \<Rightarrow> dyn_verifier" where
  "epoch_state_verifier bls es =
     \<lparr>dv_verify = epoch_state_verify bls es,
      dv_epoch_change_verification_required = (\<lambda>epoch. es_epoch es < epoch),
      dv_is_ledger_info_stale = (\<lambda>li. li_epoch li < es_epoch es)\<rparr>"

section \<open>Epoch change proofs\<close>

record epoch_change_proof =
  ecp_ledger_info_with_sigs :: "ledger_info_with_signatures list"
  ecp_more :: bool

definition ecp_epoch :: "epoch_change_proof \<Rightarrow> anyhow_error + u64" where
  "ecp_epoch p =
     (case ecp_ledger_info_with_sigs p of
        [] \<Rightarrow> Inl (Msg ''Empty EpochChangeProof'')
      | li # _ \<Rightarrow> Inr (li_epoch (lis_ledger_info li)))"

fun verify_epoch_changes ::
    "ledger_info bls \<Rightarrow> dyn_verifier \<Rightarrow> ledger_info_with_signatures list \<Rightarrow> anyhow_error + unit" where
  "verify_epoch_changes bls verifier_ref [] = Inr ()"
| "verify_epoch_changes bls verifier_ref (li # lis) =
     rbind (dv_verify verifier_ref li) (\<lambda>_.
     rbind (ok_or (Msg ''LedgerInfo doesn't carry a ValidatorSet'') (li_next_epoch_state (lis_ledger_info li))) (\<lambda>es.
     verify_epoch_changes bls (epoch_state_verifier bls es) lis))"

definition epoch_change_proof_verify ::
    "ledger_info bls \<Rightarrow> dyn_verifier \<Rightarrow> epoch_change_proof \<Rightarrow> anyhow_error + ledger_info_with_signatures" where
  "epoch_change_proof_verify bls verifier p =
     (let lis = ecp_ledger_info_with_sigs p
      in rbind (ensure (lis \<noteq> []) (Msg ''The EpochChangeProof is empty'')) (\<lambda>_.
         rbind (ensure (\<not> dv_is_ledger_info_stale verifier (lis_ledger_info (last lis)))
                  (Msg ''The EpochChangeProof is stale as our verifier is already ahead of the entire EpochChangeProof'')) (\<lambda>_.
         rbind (verify_epoch_changes bls verifier
                  (dropWhile (\<lambda>li. dv_is_ledger_info_stale verifier (lis_ledger_info li)) lis)) (\<lambda>_.
         Inr (last lis)))))"

section \<open>Trusted states\<close>

record state_proof =
  sp_latest_li_w_sigs :: ledger_info_with_signatures
  sp_epoch_changes :: epoch_change_proof

datatype trusted_state =
    EpochWaypoint waypoint
  | TrustedEpochState waypoint epoch_state

datatype trusted_state_change =
    VersionChange trusted_state
  | EpochChange trusted_state (latest_epoch_change_li: ledger_info_with_signatures)
  | NoChange

fun ts_waypoint :: "trusted_state \<Rightarrow> waypoint" where
  "ts_waypoint (EpochWaypoint w) = w"
| "ts_waypoint (TrustedEpochState w _) = w"

definition ts_version :: "trusted_state \<Rightarrow> version" where
  "ts_version ts = wp_version (ts_waypoint ts)"

fun is_epoch_waypoint :: "trusted_state \<Rightarrow> bool" where
  "is_epoch_waypoint (EpochWaypoint _) = True"
| "is_epoch_waypoint _ = False"

fun trusted_state_verifier :: "waypoint_hasher \<Rightarrow> ledger_info bls \<Rightarrow> trusted_state \<Rightarrow> dyn_verifier" where
  "trusted_state_verifier hw bls (EpochWaypoint w) = waypoint_verifier hw w"
| "trusted_state_verifier hw bls (TrustedEpochState _ es) = epoch_state_verifier bls es"

fun new_state :: "trusted_state_change \<Rightarrow> trusted_state option" where
  "new_state (VersionChange ts) = Some ts"
| "new_state (EpochChange ts _) = Some ts"
| "new_state NoChange = None"

definition verify_consistency :: "in_memory_accumulator \<Rightarrow> ledger_info \<Rightarrow> anyhow_error + unit" where
  "verify_consistency acc li =
     rbind (ensure (li_version li = accumulator_version acc)
              (Msg ''ledger info and accumulator must be at the same version'')) (\<lambda>_.
     ensure (transaction_accumulator_hash li = acc_root_hash acc)
       (Msg ''ledger info root hash and accumulator root hash must match''))"

definition try_from_epoch_change_li ::
    "waypoint_hasher \<Rightarrow> ledger_info \<Rightarrow> in_memory_accumulator \<Rightarrow> anyhow_error + trusted_state" where
  "try_from_epoch_change_li hw li acc =
     rbind (verify_consistency acc li) (\<lambda>_.
     rbind (ok_or (Msg ''No EpochState in LedgerInfo; it must not be on an epoch boundary'') (li_next_epoch_state li)) (\<lambda>es.
     rbind (new_epoch_boundary hw li) (\<lambda>w.
     Inr (TrustedEpochState w es))))"

definition ratchet_epoch ::
    "waypoint_hasher \<Rightarrow> ledger_info bls \<Rightarrow> trusted_state \<Rightarrow> ledger_info_with_signatures \<Rightarrow> epoch_change_proof \<Rightarrow>
     anyhow_error + trusted_state_change" where
  "ratchet_epoch hw bls ts latest_li p =
     rbind (epoch_change_proof_verify bls (trusted_state_verifier hw bls ts) p) (\<lambda>epoch_change_li.
     rbind (ok_or (Msg ''A valid EpochChangeProof will never return a non-epoch change ledger info'')
              (li_next_epoch_state (lis_ledger_info epoch_change_li))) (\<lambda>new_epoch_state.
     rbind (if epoch_change_li = latest_li then Inr latest_li
            else if li_epoch (lis_ledger_info latest_li) = es_epoch new_epoch_state
            then rbind (epoch_state_verify bls new_epoch_state latest_li) (\<lambda>_. Inr latest_li)
            else if li_epoch (lis_ledger_info latest_li) > es_epoch new_epoch_state \<and> ecp_more p
            then Inr epoch_change_li
            else Inl (Msg ''Inconsistent epoch change proof and latest ledger info'')) (\<lambda>verified_ledger_info.
     Inr (EpochChange
            (TrustedEpochState (waypoint_new_any hw (lis_ledger_info verified_ledger_info)) new_epoch_state)
            epoch_change_li))))"

definition ratchet_version ::
    "waypoint_hasher \<Rightarrow> ledger_info bls \<Rightarrow> trusted_state \<Rightarrow> ledger_info_with_signatures \<Rightarrow>
     anyhow_error + trusted_state_change" where
  "ratchet_version hw bls ts latest_li =
     (case ts of
        EpochWaypoint _ \<Rightarrow> Inl (Msg ''EpochWaypoint can only verify an epoch change ledger info'')
      | TrustedEpochState curr_waypoint curr_epoch_state \<Rightarrow>
          let new_waypoint = waypoint_new_any hw (lis_ledger_info latest_li)
          in if wp_version new_waypoint = wp_version curr_waypoint
             then rbind (ensure (new_waypoint = curr_waypoint) (Msg ''LedgerInfo doesn't match verified state'')) (\<lambda>_.
                  Inr NoChange)
             else rbind (epoch_state_verify bls curr_epoch_state latest_li) (\<lambda>_.
                  Inr (VersionChange (TrustedEpochState new_waypoint curr_epoch_state))))"

definition verify_and_ratchet_inner ::
    "waypoint_hasher \<Rightarrow> ledger_info bls \<Rightarrow> trusted_state \<Rightarrow> ledger_info_with_signatures \<Rightarrow> epoch_change_proof \<Rightarrow>
     anyhow_error + trusted_state_change" where
  "verify_and_ratchet_inner hw bls ts latest_li p =
     rbind (ensure (li_version (lis_ledger_info latest_li) \<ge> ts_version ts)
              (Msg ''The target latest ledger info version is stale and behind our current trusted version'')) (\<lambda>_.
     if dv_epoch_change_verification_required (trusted_state_verifier hw bls ts)
          (li_next_block_epoch (lis_ledger_info latest_li))
     then ratchet_epoch hw bls ts latest_li p
     else ratchet_version hw bls ts latest_li)"

definition verify_and_ratchet ::
    "waypoint_hasher \<Rightarrow> ledger_info bls \<Rightarrow> trusted_state \<Rightarrow> state_proof \<Rightarrow> anyhow_error + trusted_state_change" where
  "verify_and_ratchet hw bls ts sp = verify_and_ratchet_inner hw bls ts (sp_latest_li_w_sigs sp) (sp_epoch_changes sp)"

section \<open>Chains of trust\<close>

text \<open>
  The contract of the trait: a verifier never calls stale what it accepts. A proof may then
  start with any number of stale ledger infos.
\<close>

locale ledger_verifier =
  fixes mk :: "'v \<Rightarrow> dyn_verifier"
  assumes accepts_fresh: "dv_verify (mk v) li = Inr u \<Longrightarrow> \<not> dv_is_ledger_info_stale (mk v) (lis_ledger_info li)"
begin

lemma stale_prefix_accepted:
  assumes "\<forall>li \<in> set old. dv_is_ledger_info_stale (mk v) (lis_ledger_info li)"
    and "lis \<noteq> []" "verify_epoch_changes bls (mk v) lis = Inr ()"
    and "\<not> dv_is_ledger_info_stale (mk v) (lis_ledger_info (last lis))"
  shows "epoch_change_proof_verify bls (mk v) \<lparr>ecp_ledger_info_with_sigs = old @ lis, ecp_more = m\<rparr> = Inr (last lis)"
proof -
  obtain l ls where lis: "lis = l # ls" using assms(2) by (cases lis) auto
  have "\<not> dv_is_ledger_info_stale (mk v) (lis_ledger_info l)"
    using assms(3) by (intro accepts_fresh) (auto simp: lis result_simps)
  then have "dropWhile (\<lambda>li. dv_is_ledger_info_stale (mk v) (lis_ledger_info li)) (old @ lis) = lis"
    using assms(1) by (simp add: lis dropWhile_append2)
  then show ?thesis using assms(2,3,4) by (simp add: epoch_change_proof_verify_def)
qed

end

interpretation wpv: ledger_verifier "waypoint_verifier hw"
  by unfold_locales (auto simp: waypoint_verifier_def waypoint_verify_def result_simps)

interpretation esv: ledger_verifier "epoch_state_verifier bls"
  by unfold_locales (auto simp: epoch_state_verifier_def epoch_state_verify_def result_simps)

interpretation tsv: ledger_verifier "trusted_state_verifier hw bls"
proof unfold_locales
  fix ts li u assume "dv_verify (trusted_state_verifier hw bls ts) li = Inr u"
  then show "\<not> dv_is_ledger_info_stale (trusted_state_verifier hw bls ts) (lis_ledger_info li)"
    using wpv.accepts_fresh esv.accepts_fresh by (cases ts) simp_all
qed

text \<open>
  A ledger info is vouched for by a verifier if the verifier accepts it, or if it is signed by a
  quorum of the validator set that such a ledger info hands over to.
\<close>

inductive vouched :: "ledger_info bls \<Rightarrow> dyn_verifier \<Rightarrow> ledger_info_with_signatures \<Rightarrow> bool"
  for bls :: "ledger_info bls" and v :: dyn_verifier where
  vouched_direct: "dv_verify v li = Inr () \<Longrightarrow> vouched bls v li"
| vouched_next: "vouched bls v li \<Longrightarrow> li_next_epoch_state (lis_ledger_info li) = Some es \<Longrightarrow>
    epoch_state_verify bls es li' = Inr () \<Longrightarrow> vouched bls v li'"

lemma verify_epoch_changes_vouched:
  "verify_epoch_changes bls v lis = Inr () \<Longrightarrow> (\<And>li. dv_verify v li = Inr () \<Longrightarrow> vouched bls w li) \<Longrightarrow>
     \<forall>li \<in> set lis. vouched bls w li"
proof (induction lis arbitrary: v)
  case (Cons li lis)
  then obtain es where es: "dv_verify v li = Inr ()" "li_next_epoch_state (lis_ledger_info li) = Some es"
    "verify_epoch_changes bls (epoch_state_verifier bls es) lis = Inr ()"
    by (auto simp: result_simps)
  then have "vouched bls w li" using Cons.prems(2) by blast
  moreover have "\<forall>li \<in> set lis. vouched bls w li"
    by (rule Cons.IH [OF es(3)]) (use es(2) calculation in \<open>auto simp: epoch_state_verifier_def intro: vouched_next\<close>)
  ultimately show ?case by simp
qed simp

lemma epoch_change_proof_vouched:
  assumes "epoch_change_proof_verify bls v p = Inr li"
  shows "vouched bls v li \<and> li \<in> set (ecp_ledger_info_with_sigs p)"
proof -
  let ?lis = "ecp_ledger_info_with_sigs p"
  let ?rest = "dropWhile (\<lambda>li. dv_is_ledger_info_stale v (lis_ledger_info li)) ?lis"
  have p: "?lis \<noteq> []" "\<not> dv_is_ledger_info_stale v (lis_ledger_info (last ?lis))"
    "verify_epoch_changes bls v ?rest = Inr ()" "li = last ?lis"
    using assms by (auto simp: epoch_change_proof_verify_def Let_def result_simps)
  have "?rest \<noteq> []" using p(1,2) by (auto simp: dropWhile_eq_Nil_conv)
  then have "last ?rest = last ?lis"
    using last_appendR [of ?rest "takeWhile (\<lambda>li. dv_is_ledger_info_stale v (lis_ledger_info li)) ?lis"]
    by (simp add: takeWhile_dropWhile_id)
  then have "li \<in> set ?rest" using p(4) \<open>?rest \<noteq> []\<close> last_in_set [of ?rest] by simp
  then show ?thesis using verify_epoch_changes_vouched [OF p(3), of v] p by (auto intro: vouched_direct)
qed

text \<open>
  What a client knows of a trusted state: its waypoint commits to a ledger info that is vouched
  for, and its validator set was handed over to by one.
\<close>

fun trusted_from :: "waypoint_hasher \<Rightarrow> ledger_info bls \<Rightarrow> dyn_verifier \<Rightarrow> trusted_state \<Rightarrow> bool" where
  "trusted_from hw bls v (EpochWaypoint w) \<longleftrightarrow> v = waypoint_verifier hw w"
| "trusted_from hw bls v (TrustedEpochState w es) \<longleftrightarrow>
     (\<exists>li. vouched bls v li \<and> w = waypoint_new_any hw (lis_ledger_info li)) \<and>
     (\<exists>li. vouched bls v li \<and> li_next_epoch_state (lis_ledger_info li) = Some es)"

lemma trusted_from_vouched:
  assumes "trusted_from hw bls v ts" "vouched bls (trusted_state_verifier hw bls ts) li"
  shows "vouched bls v li"
  using assms(2)
proof induction
  case (vouched_direct li)
  then show ?case using assms(1)
    by (cases ts) (auto simp: epoch_state_verifier_def intro: vouched.intros)
qed (rule vouched_next)

lemma ratchet_trusted:
  assumes ts: "trusted_from hw bls v ts"
    and ratchet: "verify_and_ratchet_inner hw bls ts latest_li p = Inr change" "new_state change = Some ts'"
  shows "trusted_from hw bls v ts'"
proof (cases "dv_epoch_change_verification_required (trusted_state_verifier hw bls ts)
          (li_next_block_epoch (lis_ledger_info latest_li))")
  case True
  then obtain ecl nes vli where e: "epoch_change_proof_verify bls (trusted_state_verifier hw bls ts) p = Inr ecl"
    "li_next_epoch_state (lis_ledger_info ecl) = Some nes"
    "ts' = TrustedEpochState (waypoint_new_any hw (lis_ledger_info vli)) nes"
    "vli = ecl \<or> vli = latest_li \<and> epoch_state_verify bls nes latest_li = Inr ()"
    using ratchet by (auto simp: verify_and_ratchet_inner_def ratchet_epoch_def result_simps split: if_splits)
  have "vouched bls v ecl" using epoch_change_proof_vouched [OF e(1)] ts by (blast intro: trusted_from_vouched)
  then show ?thesis using e(2-4) by (auto intro: vouched_next)
next
  case False
  then obtain w es where "ts = TrustedEpochState w es" "epoch_state_verify bls es latest_li = Inr ()"
    "ts' = TrustedEpochState (waypoint_new_any hw (lis_ledger_info latest_li)) es"
    using ratchet by (auto simp: verify_and_ratchet_inner_def ratchet_version_def result_simps Let_def
        split: if_splits trusted_state.splits)
  then show ?thesis using ts by (auto intro: vouched_next)
qed

text \<open>The states a client reaches from a trusted state by ratcheting with any proofs.\<close>

inductive ratchets :: "waypoint_hasher \<Rightarrow> ledger_info bls \<Rightarrow> trusted_state \<Rightarrow> trusted_state \<Rightarrow> bool"
  for hw :: waypoint_hasher and bls :: "ledger_info bls" and ts0 :: trusted_state where
  ratchets_refl: "ratchets hw bls ts0 ts0"
| ratchets_step: "ratchets hw bls ts0 ts \<Longrightarrow> verify_and_ratchet hw bls ts sp = Inr change \<Longrightarrow>
    new_state change = Some ts' \<Longrightarrow> ratchets hw bls ts0 ts'"

lemma ratchets_trusted:
  "ratchets hw bls (EpochWaypoint w) ts \<Longrightarrow> trusted_from hw bls (waypoint_verifier hw w) ts"
  by (induction rule: ratchets.induct) (auto simp: verify_and_ratchet_def intro: ratchet_trusted)

section \<open>Concrete ledger infos\<close>

definition ex_epoch_state :: "u64 \<Rightarrow> epoch_state" where
  "ex_epoch_state e = \<lparr>es_epoch = e, es_verifier = ex_verifier\<rparr>"

lemma ex_epoch_state_simps [simp]: "es_epoch (ex_epoch_state e) = e" "es_verifier (ex_epoch_state e) = ex_verifier"
  by (simp_all add: ex_epoch_state_def)

definition ex_ledger_info :: "u64 \<Rightarrow> version \<Rightarrow> epoch_state option \<Rightarrow> ledger_info_with_signatures" where
  "ex_ledger_info e v es = lis_new (ledger_info_new (block_info_new e 1 7 8 v 9 es) 0) ex_aggregate"

lemma ex_ledger_info_simps [simp]:
  "li_epoch (lis_ledger_info (ex_ledger_info e v es)) = e"
  "li_version (lis_ledger_info (ex_ledger_info e v es)) = v"
  "li_next_epoch_state (lis_ledger_info (ex_ledger_info e v es)) = es"
  "li_next_block_epoch (lis_ledger_info (ex_ledger_info e v es)) = (case es of None \<Rightarrow> e | Some s \<Rightarrow> es_epoch s)"
  by (simp_all add: ex_ledger_info_def lis_new_def ledger_info_new_def block_info_new_def li_epoch_def li_version_def
      li_next_epoch_state_def li_next_block_epoch_def bi_next_block_epoch_def split: option.splits)

lemma ex_ledger_info_signed: "verify_signatures toy_bls ex_verifier (ex_ledger_info e v es) = Inr ()"
  by (simp add: verify_signatures_def ex_ledger_info_def lis_new_def ex_aggregate_verifies)

lemma ex_epoch_state_verify:
  "epoch_state_verify toy_bls (ex_epoch_state e) (ex_ledger_info e v es) = Inr ()"
  by (simp add: epoch_state_verify_def ex_ledger_info_signed)

definition ex_hw :: waypoint_hasher where
  "ex_hw c = l2w_root_hash c"

definition ex_genesis :: ledger_info_with_signatures where
  "ex_genesis = ex_ledger_info 0 0 (Some (ex_epoch_state 1))"

definition ex_waypoint :: waypoint where
  "ex_waypoint = waypoint_new_any ex_hw (lis_ledger_info ex_genesis)"

definition ex_state_proof :: state_proof where
  "ex_state_proof =
     \<lparr>sp_latest_li_w_sigs = ex_ledger_info 1 5 None,
      sp_epoch_changes = \<lparr>ecp_ledger_info_with_sigs = [ex_genesis], ecp_more = False\<rparr>\<rparr>"

definition ex_trusted :: trusted_state where
  "ex_trusted = TrustedEpochState (waypoint_new_any ex_hw (lis_ledger_info (ex_ledger_info 1 5 None))) (ex_epoch_state 1)"

lemma ex_ratchet:
  "verify_and_ratchet ex_hw toy_bls (EpochWaypoint ex_waypoint) ex_state_proof = Inr (EpochChange ex_trusted ex_genesis)"
proof -
  have "ex_genesis \<noteq> ex_ledger_info 1 5 None"
    using ex_ledger_info_simps(1) by (metis ex_genesis_def zero_neq_one)
  then show ?thesis
    by (simp add: verify_and_ratchet_def verify_and_ratchet_inner_def ratchet_epoch_def ex_state_proof_def ts_version_def
        waypoint_verifier_def ex_trusted_def ex_epoch_state_verify epoch_change_proof_verify_def waypoint_verify_def
        ex_waypoint_def waypoint_new_any_def)
      (simp add: ex_genesis_def ex_epoch_state_verify)
qed

section \<open>Properties\<close>

text \<open>C5. Whatever state proofs a client ratchets with from an epoch waypoint, the ledger info it ends up
  trusting is vouched for: a chain of hand-overs, each signed by a quorum of the validator set of
  the previous one, leads to it from the ledger info of the waypoint; and so is its validator set.\<close>

theorem ratcheted_state_is_vouched:
  assumes "ratchets hw bls (EpochWaypoint w) (TrustedEpochState w' es)"
  shows "(\<exists>li. vouched bls (waypoint_verifier hw w) li \<and> w' = waypoint_new_any hw (lis_ledger_info li)) \<and>
    (\<exists>li. vouched bls (waypoint_verifier hw w) li \<and> li_next_epoch_state (lis_ledger_info li) = Some es)"
  using ratchets_trusted [OF assms] by simp

theorem ratcheted_state_is_vouched_witness:
  "(\<exists>li. vouched toy_bls (waypoint_verifier ex_hw ex_waypoint) li \<and>
      waypoint_new_any ex_hw (lis_ledger_info (ex_ledger_info 1 5 None)) = waypoint_new_any ex_hw (lis_ledger_info li)) \<and>
   (\<exists>li. vouched toy_bls (waypoint_verifier ex_hw ex_waypoint) li \<and>
      li_next_epoch_state (lis_ledger_info li) = Some (ex_epoch_state 1))"
  by (rule ratcheted_state_is_vouched, rule ratchets_step [OF ratchets_refl ex_ratchet]) (simp add: ex_trusted_def)

text \<open>C29. Ratcheting never moves the trusted version backwards, if the client starts from a waypoint
  or the proof is complete.\<close>

theorem ratchet_version_monotone:
  assumes "verify_and_ratchet hw bls ts sp = Inr change" "new_state change = Some ts'"
    and "is_epoch_waypoint ts \<or> \<not> ecp_more (sp_epoch_changes sp)"
  shows "ts_version ts \<le> ts_version ts'"
proof -
  let ?latest = "sp_latest_li_w_sigs sp" and ?v = "trusted_state_verifier hw bls ts"
  have le: "ts_version ts \<le> li_version (lis_ledger_info ?latest)"
    using assms(1) by (auto simp: verify_and_ratchet_def verify_and_ratchet_inner_def result_simps)
  have "ts_version ts \<le> li_version (lis_ledger_info li)"
    if "epoch_change_proof_verify bls ?v (sp_epoch_changes sp) = Inr li" "is_epoch_waypoint ts" for li
    using that by (cases ts) (auto simp: epoch_change_proof_verify_def Let_def result_simps waypoint_verifier_def
        ts_version_def not_less)
  then show ?thesis using assms le
    by (auto simp: verify_and_ratchet_def verify_and_ratchet_inner_def ratchet_epoch_def ratchet_version_def
        result_simps Let_def ts_version_def waypoint_new_any_def split: if_splits trusted_state.splits)
qed

theorem ratchet_version_monotone_witness:
  "ts_version (EpochWaypoint ex_waypoint) \<le> ts_version ex_trusted"
  by (rule ratchet_version_monotone [OF ex_ratchet]) simp_all

text \<open>C30. A client accepts a proof that starts with ledger infos it has already passed, as long as
  the remaining ones verify and the last one is not stale.\<close>

theorem stale_prefix_is_skipped:
  assumes "\<forall>li \<in> set old. dv_is_ledger_info_stale (trusted_state_verifier hw bls ts) (lis_ledger_info li)"
    and "lis \<noteq> []" "verify_epoch_changes bls (trusted_state_verifier hw bls ts) lis = Inr ()"
    and "\<not> dv_is_ledger_info_stale (trusted_state_verifier hw bls ts) (lis_ledger_info (last lis))"
  shows "epoch_change_proof_verify bls (trusted_state_verifier hw bls ts)
    \<lparr>ecp_ledger_info_with_sigs = old @ lis, ecp_more = m\<rparr> = Inr (last lis)"
  using assms by (rule tsv.stale_prefix_accepted)

theorem stale_prefix_is_skipped_witness:
  "epoch_change_proof_verify toy_bls (trusted_state_verifier ex_hw toy_bls ex_trusted)
     \<lparr>ecp_ledger_info_with_sigs = [ex_genesis] @ [ex_ledger_info 1 9 (Some (ex_epoch_state 2))], ecp_more = True\<rparr> =
   Inr (last [ex_ledger_info 1 9 (Some (ex_epoch_state 2))])"
  by (rule stale_prefix_is_skipped)
    (simp_all add: ex_trusted_def epoch_state_verifier_def ex_epoch_state_verify,
     simp_all add: ex_genesis_def)

end
