(* ===== verification/Safety_Storage.thy ===== *)
theory Safety_Storage
  imports Secure_Storage Blocks Epoch_Change
begin

text \<open>
  What a validator must not forget: \<open>SafetyData\<close> of
  \<open>consensus/consensus-types/src/safety_data.rs\<close>, the errors of
  \<open>consensus/safety-rules/src/error.rs\<close> and the storage of
  \<open>consensus/safety-rules/src/persistent_safety_storage.rs\<close>, with its cache. The lemmas
  relate the cache to what is durable, across failed writes and restarts.
\<close>

section \<open>Safety data\<close>

record safety_data =
  sd_epoch :: u64
  sd_last_voted_round :: u64
  sd_preferred_round :: u64
  sd_one_chain_round :: u64
  sd_last_vote :: "vote option"
  sd_highest_timeout_round :: u64

definition safety_data_new :: "u64 \<Rightarrow> u64 \<Rightarrow> u64 \<Rightarrow> u64 \<Rightarrow> vote option \<Rightarrow> u64 \<Rightarrow> safety_data" where
  "safety_data_new epoch last_voted_round preferred_round one_chain_round last_vote highest_timeout_round =
     \<lparr>sd_epoch = epoch, sd_last_voted_round = last_voted_round, sd_preferred_round = preferred_round,
      sd_one_chain_round = one_chain_round, sd_last_vote = last_vote,
      sd_highest_timeout_round = highest_timeout_round\<rparr>"

section \<open>Errors\<close>

text \<open>An error that carries the text of another error carries that error here.\<close>

datatype error_text = TextOf string | TextOfAnyhow anyhow_error | TextOfStorage storage_error

datatype sr_error =
    IncorrectEpoch u64 u64
  | IncorrectRound u64
  | IncorrectLastVotedRound u64 u64
  | IncorrectPreferredRound u64 u64
  | InvalidAccumulatorExtension error_text
  | InvalidEpochChangeProof error_text
  | InternalError error_text
  | InvalidLedgerInfo
  | InvalidProposal error_text
  | InvalidQuorumCertificate error_text
  | NotInitialized string
  | NotSafeForOrderVote u64 u64
  | SecureStorageMissingDataError error_text
  | SecureStorageUnexpectedError error_text
  | SerializationError error_text
  | ValidatorKeyNotFound error_text
  | ValidatorNotInSet account_address
  | VoteProposalSignatureNotFound
  | NotSafeToVote u64 u64 u64 u64
  | NotSafeToTimeout u64 u64 u64 u64
  | InvalidTimeoutCertificate error_text
  | InconsistentExecutionResult block_info block_info
  | InvalidOrderedLedgerInfo ledger_info
  | WaypointOutOfDate u64 u64 u64 u64
  | InvalidTimeout error_text
  | InvalidOneChainQuorumCertificate hash_value hash_value
  | SafetyRulesPanic

fun sr_from_storage :: "storage_error \<Rightarrow> sr_error" where
  "sr_from_storage PermissionDenied = SafetyRulesPanic"
| "sr_from_storage (KeyVersionNotFound k v) = SecureStorageMissingDataError (TextOfStorage (KeyVersionNotFound k v))"
| "sr_from_storage (KeyNotSet k) = SecureStorageMissingDataError (TextOfStorage (KeyNotSet k))"
| "sr_from_storage e = SecureStorageUnexpectedError (TextOfStorage e)"

text \<open>\<open>map_err(|e| Error::...(e.to_string()))\<close>: a panic inside is not an error that is mapped.\<close>

definition sr_from_anyhow :: "(error_text \<Rightarrow> sr_error) \<Rightarrow> anyhow_error + 'a \<Rightarrow> sr_error + 'a" where
  "sr_from_anyhow c = map_err (\<lambda>e. if is_panic e then SafetyRulesPanic else c (TextOfAnyhow e))"

section \<open>Persistent safety storage\<close>

definition CONSENSUS_KEY :: string where "CONSENSUS_KEY = ''consensus''"
definition OWNER_ACCOUNT :: string where "OWNER_ACCOUNT = ''owner_account''"
definition SAFETY_DATA :: string where "SAFETY_DATA = ''safety_data''"
definition WAYPOINT :: string where "WAYPOINT = ''waypoint''"

text \<open>
  The documents that are written, and what deserializing one of them at a type gives. The
  representation is that of the derived \<open>serde\<close> instances: a document of safety data is an
  object with the six fields of \<open>SafetyData\<close>, and a \<open>Result\<close> would be an object whose only
  field is \<open>Ok\<close> or \<open>Err\<close>, so none of the documents is one. Only the branch of
  \<open>safety_data\<close> without the cache reads a \<open>Result\<close>, and it gives an error.
\<close>

datatype document =
    SafetyDataDoc safety_data
  | WaypointDoc waypoint
  | AuthorDoc account_address
  | PrivateKeyDoc private_key

fun as_safety_data :: "document \<Rightarrow> safety_data option" where
  "as_safety_data (SafetyDataDoc d) = Some d"
| "as_safety_data _ = None"

fun as_waypoint :: "document \<Rightarrow> waypoint option" where
  "as_waypoint (WaypointDoc w) = Some w"
| "as_waypoint _ = None"

fun as_author :: "document \<Rightarrow> account_address option" where
  "as_author (AuthorDoc a) = Some a"
| "as_author _ = None"

fun as_private_key :: "document \<Rightarrow> private_key option" where
  "as_private_key (PrivateKeyDoc sk) = Some sk"
| "as_private_key _ = None"

fun as_result_of_safety_data :: "document \<Rightarrow> (sr_error + safety_data) option" where
  "as_result_of_safety_data (SafetyDataDoc _) = None"
| "as_result_of_safety_data (WaypointDoc _) = None"
| "as_result_of_safety_data (AuthorDoc _) = None"
| "as_result_of_safety_data (PrivateKeyDoc _) = None"

definition get_value :: "(document \<Rightarrow> 'a option) \<Rightarrow> document storage \<Rightarrow> string \<Rightarrow> storage_error + 'a" where
  "get_value deserialize s key =
     rbind (storage_get s key) (\<lambda>r.
     ok_or (StorageSerializationError ''invalid type'') (deserialize (gr_value r)))"

record persistent_safety_storage =
  pss_enable_cached_safety_data :: bool
  pss_cached_safety_data :: "safety_data option"
  pss_internal_store :: "document storage"

definition pss_new :: "document storage \<Rightarrow> bool \<Rightarrow> persistent_safety_storage" where
  "pss_new internal_store enable_cached_safety_data =
     \<lparr>pss_enable_cached_safety_data = enable_cached_safety_data, pss_cached_safety_data = None,
      pss_internal_store = internal_store\<rparr>"

text \<open>Only the error \<open>KeyAlreadyExists\<close> of the first write is looked at.\<close>

definition initialize_keys_and_accounts ::
    "account_address \<Rightarrow> private_key \<Rightarrow> (document storage, sr_error, unit) method_result" where
  "initialize_keys_and_accounts author consensus_private_key s =
     (case storage_set CONSENSUS_KEY (PrivateKeyDoc consensus_private_key) s of
        (Inl (KeyAlreadyExists _), s') \<Rightarrow> (Inr (), s')
      | (_, s') \<Rightarrow>
          (case storage_set OWNER_ACCOUNT (AuthorDoc author) s' of
             (r, s'') \<Rightarrow> (map_err sr_from_storage r, s'')))"

definition pss_author :: "persistent_safety_storage \<Rightarrow> sr_error + account_address" where
  "pss_author p = map_err sr_from_storage (get_value as_author (pss_internal_store p) OWNER_ACCOUNT)"

definition default_consensus_sk :: "persistent_safety_storage \<Rightarrow> storage_error + private_key" where
  "default_consensus_sk p = get_value as_private_key (pss_internal_store p) CONSENSUS_KEY"

definition consensus_sk_by_pk ::
    "(u8 list \<Rightarrow> string) \<Rightarrow> (private_key \<Rightarrow> public_key) \<Rightarrow> persistent_safety_storage \<Rightarrow> public_key \<Rightarrow>
     sr_error + private_key" where
  "consensus_sk_by_pk hex_encode public_key_of p pk =
     (let explicit_storage_key = CONSENSUS_KEY @ ''_'' @ hex_encode pk;
          explicit_sk = get_value as_private_key (pss_internal_store p) explicit_storage_key;
          default_sk = default_consensus_sk p
      in rbind (case (explicit_sk, default_sk) of
                  (Inr sk_0, _) \<Rightarrow> Inr sk_0
                | (Inl _, Inr sk_1) \<Rightarrow> Inr sk_1
                | (Inl _, Inl _) \<Rightarrow> Inl (ValidatorKeyNotFound (TextOf ''not found!''))) (\<lambda>key.
         if public_key_of key \<noteq> pk
         then Inl (SecureStorageMissingDataError (TextOf ''Incorrect sk saved for the expected pk''))
         else Inr key))"

text \<open>
  The early return of the first branch ends in \<open>?\<close> and is not wrapped in \<open>Ok\<close>: what is
  read is a \<open>Result\<close>.
\<close>

definition pss_safety_data :: "(persistent_safety_storage, sr_error, safety_data) method_result" where
  "pss_safety_data p =
     (if \<not> pss_enable_cached_safety_data p then
        (rbind (map_err sr_from_storage (get_value as_result_of_safety_data (pss_internal_store p) SAFETY_DATA))
           (\<lambda>result. result), p)
      else case pss_cached_safety_data p of
             Some cached \<Rightarrow> (Inr cached, p)
           | None \<Rightarrow>
               (case map_err sr_from_storage (get_value as_safety_data (pss_internal_store p) SAFETY_DATA) of
                  Inl e \<Rightarrow> (Inl e, p)
                | Inr d \<Rightarrow> (Inr d, p\<lparr>pss_cached_safety_data := Some d\<rparr>)))"

definition pss_set_safety_data :: "safety_data \<Rightarrow> (persistent_safety_storage, sr_error, unit) method_result" where
  "pss_set_safety_data data p =
     (case storage_set SAFETY_DATA (SafetyDataDoc data) (pss_internal_store p) of
        (Inr _, s) \<Rightarrow> (Inr (), p\<lparr>pss_internal_store := s, pss_cached_safety_data := Some data\<rparr>)
      | (Inl e, s) \<Rightarrow>
          (Inl (SecureStorageUnexpectedError (TextOfStorage e)),
           p\<lparr>pss_internal_store := s, pss_cached_safety_data := None\<rparr>))"

definition pss_waypoint :: "persistent_safety_storage \<Rightarrow> sr_error + waypoint" where
  "pss_waypoint p = map_err sr_from_storage (get_value as_waypoint (pss_internal_store p) WAYPOINT)"

definition pss_set_waypoint :: "waypoint \<Rightarrow> (persistent_safety_storage, sr_error, unit) method_result" where
  "pss_set_waypoint w p =
     (case storage_set WAYPOINT (WaypointDoc w) (pss_internal_store p) of
        (r, s) \<Rightarrow> (map_err sr_from_storage r, p\<lparr>pss_internal_store := s\<rparr>))"

text \<open>\<open>None\<close> is one of the three \<open>expect\<close> panics.\<close>

definition pss_initialize ::
    "document storage \<Rightarrow> account_address \<Rightarrow> private_key \<Rightarrow> waypoint \<Rightarrow> bool \<Rightarrow> persistent_safety_storage option" where
  "pss_initialize internal_store author consensus_private_key w enable_cached_safety_data =
     (case initialize_keys_and_accounts author consensus_private_key internal_store of
        (Inl _, _) \<Rightarrow> None
      | (Inr _, s) \<Rightarrow>
          let d = safety_data_new 1 0 0 0 None 0
          in case sbind (pss_set_safety_data d) (\<lambda>_. pss_set_waypoint w)
                    \<lparr>pss_enable_cached_safety_data = enable_cached_safety_data, pss_cached_safety_data = Some d,
                     pss_internal_store = s\<rparr> of
               (Inl _, _) \<Rightarrow> None
             | (Inr _, p) \<Rightarrow> Some p)"

section \<open>Opening the storage\<close>

text \<open>
  \<open>storage\<close> of \<open>safety_rules_manager.rs\<close>. What is read from the identity files is part of
  the configuration; \<open>None\<close> is a file, or a waypoint, that cannot be read. The result \<open>None\<close>
  of opening is a panic.
\<close>

record identity_blob =
  ib_account_address :: "account_address option"
  ib_consensus_private_key :: "private_key option"

datatype initial_safety_rules_config =
    FromFile (isrc_identity_blob: "identity_blob option") (isrc_overriding_identities: "identity_blob option list")
      (isrc_waypoint: "waypoint option")
  | NoInitialConfig

record safety_rules_test_config =
  stc_author :: account_address
  stc_consensus_key :: "private_key option"
  stc_waypoint :: "waypoint option"

record safety_rules_config =
  src_test :: "safety_rules_test_config option"
  src_enable_cached_safety_data :: bool
  src_initial_safety_rules_config :: initial_safety_rules_config

definition overriding_identity_blobs :: "initial_safety_rules_config \<Rightarrow> identity_blob list option" where
  "overriding_identity_blobs c =
     (case c of FromFile _ identities _ \<Rightarrow> those identities | NoInitialConfig \<Rightarrow> None)"

definition unwrap_or_default :: "'a list option \<Rightarrow> 'a list" where
  "unwrap_or_default x = (case x of None \<Rightarrow> [] | Some v \<Rightarrow> v)"

text \<open>A failed write of an overriding key is logged and skipped.\<close>

fun set_overriding_keys ::
    "(u8 list \<Rightarrow> string) \<Rightarrow> (private_key \<Rightarrow> public_key) \<Rightarrow> identity_blob list \<Rightarrow> document storage \<Rightarrow> document storage" where
  "set_overriding_keys hex_encode public_key_of [] s = s"
| "set_overriding_keys hex_encode public_key_of (blob # blobs) s =
     set_overriding_keys hex_encode public_key_of blobs
       (case ib_consensus_private_key blob of
          None \<Rightarrow> s
        | Some sk \<Rightarrow> snd (storage_set (CONSENSUS_KEY @ ''_'' @ hex_encode (public_key_of sk)) (PrivateKeyDoc sk) s))"

definition open_safety_storage ::
    "(u8 list \<Rightarrow> string) \<Rightarrow> (private_key \<Rightarrow> public_key) \<Rightarrow> safety_rules_config \<Rightarrow> document storage \<Rightarrow>
     persistent_safety_storage option" where
  "open_safety_storage hex_encode public_key_of config internal_storage =
     (case storage_available internal_storage of
        Inl _ \<Rightarrow> None
      | Inr _ \<Rightarrow>
          (case src_test config of
             Some test_config \<Rightarrow>
               Option.bind (stc_consensus_key test_config) (\<lambda>sk.
               Option.bind (stc_waypoint test_config) (\<lambda>w.
               pss_initialize internal_storage (stc_author test_config) sk w (src_enable_cached_safety_data config)))
           | None \<Rightarrow>
               let st = pss_new internal_storage (src_enable_cached_safety_data config)
               in Option.bind
                    (case pss_author st of
                       Inr _ \<Rightarrow> Some st
                     | Inl SafetyRulesPanic \<Rightarrow> None
                     | Inl _ \<Rightarrow>
                         (case src_initial_safety_rules_config config of
                            NoInitialConfig \<Rightarrow> None
                          | FromFile identity_blob _ initial_waypoint \<Rightarrow>
                              Option.bind identity_blob (\<lambda>blob.
                              Option.bind initial_waypoint (\<lambda>w.
                              Option.bind (ib_account_address blob) (\<lambda>author.
                              Option.bind (ib_consensus_private_key blob) (\<lambda>sk.
                              pss_initialize internal_storage author sk w (src_enable_cached_safety_data config))))))) (\<lambda>st.
                  Some (st\<lparr>pss_internal_store :=
                           set_overriding_keys hex_encode public_key_of
                             (unwrap_or_default (overriding_identity_blobs (src_initial_safety_rules_config config)))
                             (pss_internal_store st)\<rparr>))))"

section \<open>The cache and what is durable\<close>

definition durable :: "document storage \<Rightarrow> safety_data option" where
  "durable s = Option.bind (contents s SAFETY_DATA) as_safety_data"

text \<open>The cache holds nothing but what is durable.\<close>

definition pss_coherent :: "persistent_safety_storage \<Rightarrow> bool" where
  "pss_coherent p \<longleftrightarrow>
     (\<forall>d. pss_cached_safety_data p = Some d \<longrightarrow> durable (pss_internal_store p) = Some d)"

lemma storage_keys [simp]:
  "WAYPOINT \<noteq> SAFETY_DATA" "SAFETY_DATA \<noteq> WAYPOINT" "OWNER_ACCOUNT \<noteq> SAFETY_DATA" "SAFETY_DATA \<noteq> OWNER_ACCOUNT"
  "CONSENSUS_KEY \<noteq> SAFETY_DATA" "SAFETY_DATA \<noteq> CONSENSUS_KEY" "OWNER_ACCOUNT \<noteq> CONSENSUS_KEY" "CONSENSUS_KEY \<noteq> OWNER_ACCOUNT"
  "WAYPOINT \<noteq> CONSENSUS_KEY" "CONSENSUS_KEY \<noteq> WAYPOINT" "WAYPOINT \<noteq> OWNER_ACCOUNT" "OWNER_ACCOUNT \<noteq> WAYPOINT"
  by (simp_all add: WAYPOINT_def SAFETY_DATA_def OWNER_ACCOUNT_def CONSENSUS_KEY_def)

lemma get_value_contents:
  "get_value f s k = Inr a \<Longrightarrow> Option.bind (contents s k) f = Some a"
  by (auto simp: get_value_def result_simps dest!: store.get_contents)

lemma as_result_of_safety_data_None [simp]: "as_result_of_safety_data x = None"
  by (cases x) simp_all

lemma storage_set_durable:
  "storage_set k v s = (r, s') \<Longrightarrow>
     durable s' = (if r = Inr () \<and> k = SAFETY_DATA then as_safety_data v else durable s)"
  by (auto simp: durable_def storage_set_contents)

lemma pss_safety_data_reads:
  assumes "pss_safety_data p = (r, p')" "pss_coherent p"
  shows "pss_internal_store p' = pss_internal_store p" and "pss_coherent p'"
    and "r = Inr d \<Longrightarrow> durable (pss_internal_store p) = Some d"
    and "pss_enable_cached_safety_data p' = pss_enable_cached_safety_data p"
  using assms
  by (auto simp: pss_safety_data_def pss_coherent_def durable_def get_value_def result_simps
      split: if_splits option.splits sum.splits dest!: store.get_contents)

lemma pss_set_safety_data_effect:
  assumes "pss_set_safety_data d p = (r, p')"
  shows "pss_coherent p'"
    and "durable (pss_internal_store p') = (if r = Inr () then Some d else durable (pss_internal_store p))"
    and "pss_enable_cached_safety_data p' = pss_enable_cached_safety_data p"
  using assms
  by (auto simp: pss_set_safety_data_def pss_coherent_def split: prod.splits sum.splits dest!: storage_set_durable)

lemma pss_set_waypoint_effect:
  assumes "pss_set_waypoint w p = (r, p')"
  shows "pss_coherent p' = pss_coherent p" and "durable (pss_internal_store p') = durable (pss_internal_store p)"
    and "pss_enable_cached_safety_data p' = pss_enable_cached_safety_data p"
  using assms
  by (auto simp: pss_set_waypoint_def pss_coherent_def split: prod.splits dest!: storage_set_durable)

lemma pss_new_coherent [simp]: "pss_coherent (pss_new s b)"
  by (simp add: pss_new_def pss_coherent_def)

lemma pss_initialize_effect:
  assumes "pss_initialize s author sk w b = Some p"
  shows "pss_coherent p" "durable (pss_internal_store p) = Some (safety_data_new 1 0 0 0 None 0)"
    "pss_enable_cached_safety_data p = b"
proof -
  let ?d = "safety_data_new 1 0 0 0 None 0"
  obtain s1 p1 where p1: "pss_set_safety_data ?d
      \<lparr>pss_enable_cached_safety_data = b, pss_cached_safety_data = Some ?d, pss_internal_store = s1\<rparr> = (Inr (), p1)"
    and p: "pss_set_waypoint w p1 = (Inr (), p)"
    using assms by (auto simp: pss_initialize_def Let_def result_simps split: prod.splits sum.splits)
  show "pss_coherent p" "durable (pss_internal_store p) = Some ?d" "pss_enable_cached_safety_data p = b"
    using pss_set_safety_data_effect [OF p1] pss_set_waypoint_effect [OF p] by simp_all
qed

section \<open>Properties\<close>

lemma overriding_key_other: "CONSENSUS_KEY @ ''_'' @ x \<noteq> SAFETY_DATA"
  by (simp add: CONSENSUS_KEY_def SAFETY_DATA_def)

lemma set_overriding_keys_durable: "durable (set_overriding_keys hex pk blobs s) = durable s"
proof (induction blobs arbitrary: s)
  case (Cons blob blobs)
  have "durable (snd (storage_set (CONSENSUS_KEY @ ''_'' @ x) v s)) = durable s" for x v
    using storage_set_durable [of "CONSENSUS_KEY @ ''_'' @ x" v s] overriding_key_other
    by (cases "storage_set (CONSENSUS_KEY @ ''_'' @ x) v s") simp
  then show ?case using Cons by (simp split: option.splits)
qed simp

text \<open>C6. Safety data that was written is what a restarted process reads, with the cache enabled as it is by
  default; a write that failed changes nothing, and the cache does not hide that: the next successful read gives what was durable before.\<close>

theorem safety_data_survives:
  assumes "pss_set_safety_data d p = (r, p')"
  shows "(r = Inr () \<longrightarrow> fst (pss_safety_data (pss_new (pss_internal_store p') True)) = Inr d) \<and>
    (r \<noteq> Inr () \<longrightarrow> durable (pss_internal_store p') = durable (pss_internal_store p) \<and>
       (\<forall>d'. fst (pss_safety_data p') = Inr d' \<longrightarrow> durable (pss_internal_store p) = Some d'))"
proof (intro conjI impI allI)
  assume "r = Inr ()"
  then obtain s u where s: "storage_set SAFETY_DATA (SafetyDataDoc d) (pss_internal_store p) = (Inr u, s)" "pss_internal_store p' = s"
    using assms by (auto simp: pss_set_safety_data_def split: prod.splits sum.splits)
  then show "fst (pss_safety_data (pss_new (pss_internal_store p') True)) = Inr d"
    using storage_set_get [OF s(1)] by (auto simp: pss_safety_data_def pss_new_def get_value_def ok_or_def)
next
  assume "r \<noteq> Inr ()"
  then show dur: "durable (pss_internal_store p') = durable (pss_internal_store p)"
    using pss_set_safety_data_effect(2) [OF assms] by simp
  fix d' assume "fst (pss_safety_data p') = Inr d'"
  then obtain p'' where "pss_safety_data p' = (Inr d', p'')" by (cases "pss_safety_data p'") simp
  then show "durable (pss_internal_store p) = Some d'"
    using pss_safety_data_reads(3) pss_set_safety_data_effect(1) [OF assms] dur by metis
qed

text \<open>A file with safety data, and the faults of its next writes.\<close>

definition ex_disk :: "disk_fault option list \<Rightarrow> persistent_safety_storage" where
  "ex_disk faults =
     \<lparr>pss_enable_cached_safety_data = True, pss_cached_safety_data = None,
      pss_internal_store = OnDiskStorage
        \<lparr>ods_file = Json_map [SAFETY_DATA \<mapsto> \<lparr>gr_last_update = 0, gr_value = SafetyDataDoc (safety_data_new 1 0 0 0 None 0)\<rparr>],
         ods_faults = faults, ods_time_service = 0\<rparr>\<rparr>"

lemma ex_disk_write_fails:
  "pss_set_safety_data (safety_data_new 1 5 0 0 None 0) (ex_disk [Some Write_fails]) =
     (Inl (SecureStorageUnexpectedError (TextOfStorage (StorageInternalError ''unable to write''))), ex_disk [])"
  by (simp add: pss_set_safety_data_def ex_disk_def on_disk_set_def sbind_def sread_def on_disk_read_def on_disk_write_def
      next_fault_def)

theorem safety_data_survives_witness:
  "durable (pss_internal_store (ex_disk [])) = durable (pss_internal_store (ex_disk [Some Write_fails])) \<and>
   fst (pss_safety_data (ex_disk [])) = Inr (safety_data_new 1 0 0 0 None 0) \<and>
   durable (pss_internal_store (ex_disk [Some Write_fails])) = Some (safety_data_new 1 0 0 0 None 0)"
proof -
  have "fst (pss_safety_data (ex_disk [])) = Inr (safety_data_new 1 0 0 0 None 0)"
    by (simp add: pss_safety_data_def ex_disk_def get_value_def on_disk_get_def on_disk_read_def ok_or_def)
  then show ?thesis using safety_data_survives [OF ex_disk_write_fails] by simp
qed

text \<open>C13. Once the author is in the storage, opening it again keeps the safety data, whatever identities and
  waypoint the configuration names, unless it is a test configuration: opening with one of those
  always resets the safety data to that of a validator that has never voted. Either way the cache of
  the storage that is opened holds nothing but what is durable.\<close>

theorem reopening_keeps_safety_data:
  assumes "open_safety_storage hex pk config s = Some p"
    and "pss_author (pss_new s (src_enable_cached_safety_data config)) = Inr author"
  shows "durable (pss_internal_store p) =
      (if src_test config = None then durable s else Some (safety_data_new 1 0 0 0 None 0)) \<and>
    pss_coherent p"
proof (cases "src_test config")
  case None
  then show ?thesis
    using assms
    by (auto simp: open_safety_storage_def Let_def set_overriding_keys_durable pss_coherent_def split: sum.splits)
      (simp_all add: pss_new_def)
next
  case (Some test_config)
  then obtain sk w where "pss_initialize s (stc_author test_config) sk w (src_enable_cached_safety_data config) = Some p"
    using assms(1) by (auto simp: open_safety_storage_def bind_eq_Some_conv split: sum.splits)
  then show ?thesis using pss_initialize_effect Some by auto
qed

theorem reopening_keeps_safety_data_witness:
  "\<exists>p. open_safety_storage (\<lambda>_. []) (\<lambda>_. [])
      \<lparr>src_test = None, src_enable_cached_safety_data = True, src_initial_safety_rules_config = NoInitialConfig\<rparr>
      (InMemoryStorage \<lparr>ims_data = [OWNER_ACCOUNT \<mapsto> \<lparr>gr_last_update = 0, gr_value = AuthorDoc 1\<rparr>,
         SAFETY_DATA \<mapsto> \<lparr>gr_last_update = 0, gr_value = SafetyDataDoc (safety_data_new 3 7 2 4 None 6)\<rparr>], ims_time_service = 0\<rparr>) = Some p \<and>
     durable (pss_internal_store p) = Some (safety_data_new 3 7 2 4 None 6)"
proof -
  let ?s = "InMemoryStorage \<lparr>ims_data = [OWNER_ACCOUNT \<mapsto> \<lparr>gr_last_update = 0, gr_value = AuthorDoc 1\<rparr>,
         SAFETY_DATA \<mapsto> \<lparr>gr_last_update = 0, gr_value = SafetyDataDoc (safety_data_new 3 7 2 4 None 6)\<rparr>], ims_time_service = 0\<rparr>"
  let ?c = "\<lparr>src_test = None, src_enable_cached_safety_data = True, src_initial_safety_rules_config = NoInitialConfig\<rparr>"
  have a: "pss_author (pss_new ?s True) = Inr 1"
    by (simp add: pss_author_def pss_new_def get_value_def in_memory_get_def ok_or_def)
  then obtain p where p: "open_safety_storage (\<lambda>_. []) (\<lambda>_. []) ?c ?s = Some p"
    by (simp add: open_safety_storage_def Let_def)
  then show ?thesis using reopening_keeps_safety_data [OF p] a by (simp add: durable_def)
qed

text \<open>C34. Initializing a storage that is in use is not noticed: no storage reports that a key exists
  already, and whatever was durable, the safety data is set back to that of a validator that has never
  voted.\<close>

theorem reinitialization_forgets_votes:
  assumes "pss_initialize s author sk w cached = Some p"
  shows "durable (pss_internal_store p) = Some (safety_data_new 1 0 0 0 None 0) \<and>
    (\<forall>name. fst (storage_set CONSENSUS_KEY (PrivateKeyDoc sk) s) \<noteq> Inl (KeyAlreadyExists name))"
  using pss_initialize_effect(2) [OF assms] storage_set_not_exists [of CONSENSUS_KEY "PrivateKeyDoc sk" s] by simp

theorem reinitialization_forgets_votes_witness:
  "\<exists>p. pss_initialize (InMemoryStorage \<lparr>ims_data = [SAFETY_DATA \<mapsto> \<lparr>gr_last_update = 0,
       gr_value = SafetyDataDoc (safety_data_new 3 7 2 4 None 6)\<rparr>], ims_time_service = 0\<rparr>) 1 [] \<lparr>wp_version = 0, wp_value = 0\<rparr> True = Some p \<and>
     durable (pss_internal_store p) = Some (safety_data_new 1 0 0 0 None 0)"
proof -
  let ?s = "InMemoryStorage \<lparr>ims_data = [SAFETY_DATA \<mapsto> \<lparr>gr_last_update = 0,
       gr_value = SafetyDataDoc (safety_data_new 3 7 2 4 None 6)\<rparr>], ims_time_service = 0\<rparr>"
  obtain p where p: "pss_initialize ?s 1 [] \<lparr>wp_version = 0, wp_value = 0\<rparr> True = Some p"
    by (simp add: pss_initialize_def initialize_keys_and_accounts_def in_memory_set_def Let_def pss_set_safety_data_def
        pss_set_waypoint_def sbind_def)
  then show ?thesis using reinitialization_forgets_votes [OF p] by simp
qed

text \<open>C35. Initialization succeeds although the write of the consensus key failed, whatever the failure: if the
  writes of the owner, the safety data and the waypoint that follow succeed, the result is a storage
  with fresh safety data that still has the old consensus key, or none; then reading the key is an
  error.\<close>

theorem initialization_ignores_failed_key_write:
  assumes key: "storage_set CONSENSUS_KEY (PrivateKeyDoc sk) s = (Inl e, s1)"
    and owner: "storage_set OWNER_ACCOUNT (AuthorDoc author) s1 = (Inr (), s2)"
    and data: "storage_set SAFETY_DATA (SafetyDataDoc (safety_data_new 1 0 0 0 None 0)) s2 = (Inr (), s3)"
    and waypoint: "storage_set WAYPOINT (WaypointDoc w) s3 = (Inr (), s4)"
  shows "\<exists>p. pss_initialize s author sk w cached = Some p \<and> pss_internal_store p = s4 \<and>
    durable s4 = Some (safety_data_new 1 0 0 0 None 0) \<and> contents s4 CONSENSUS_KEY = contents s CONSENSUS_KEY \<and>
    (contents s CONSENSUS_KEY = None \<longrightarrow> (\<exists>err. default_consensus_sk p = Inl err))"
proof -
  let ?d = "safety_data_new 1 0 0 0 None 0"
  let ?p = "\<lparr>pss_enable_cached_safety_data = cached, pss_cached_safety_data = Some ?d, pss_internal_store = s4\<rparr>"
  have "\<forall>name. e \<noteq> KeyAlreadyExists name" using storage_set_not_exists [of CONSENSUS_KEY "PrivateKeyDoc sk" s] key by auto
  then have "initialize_keys_and_accounts author sk s = (Inr (), s2)"
    using key owner by (cases e) (simp_all add: initialize_keys_and_accounts_def)
  then have run: "pss_initialize s author sk w cached = Some ?p"
    using data waypoint by (simp add: pss_initialize_def pss_set_safety_data_def pss_set_waypoint_def sbind_def)
  have keep: "contents s4 CONSENSUS_KEY = contents s CONSENSUS_KEY"
    using storage_set_contents [OF key] storage_set_contents [OF owner] storage_set_contents [OF data]
      storage_set_contents [OF waypoint] by simp
  have "\<exists>err. default_consensus_sk ?p = Inl err" if "contents s CONSENSUS_KEY = None"
    using get_value_contents [of as_private_key s4 CONSENSUS_KEY] keep that
    by (cases "default_consensus_sk ?p") (auto simp: default_consensus_sk_def)
  then show ?thesis using run keep pss_initialize_effect(2) [OF run] by auto
qed

theorem initialization_ignores_failed_key_write_witness:
  "\<exists>p e. pss_initialize (OnDiskStorage \<lparr>ods_file = Empty_file, ods_faults = [Some Write_fails], ods_time_service = 0\<rparr>)
       1 [] \<lparr>wp_version = 0, wp_value = 0\<rparr> True = Some p \<and> default_consensus_sk p = Inl e"
proof -
  let ?s = "OnDiskStorage \<lparr>ods_file = Empty_file, ods_faults = [Some Write_fails], ods_time_service = 0\<rparr> :: document storage"
  note writes = on_disk_set_def sbind_def sread_def on_disk_read_def on_disk_write_def next_fault_def
  obtain e s1 where key: "storage_set CONSENSUS_KEY (PrivateKeyDoc []) ?s = (Inl e, s1)"
    and s1: "s1 = OnDiskStorage \<lparr>ods_file = Empty_file, ods_faults = [], ods_time_service = 0\<rparr>"
    by (simp add: writes)
  obtain s2 where owner: "storage_set OWNER_ACCOUNT (AuthorDoc 1) s1 = (Inr (), s2)"
    and s2: "\<exists>m. s2 = OnDiskStorage \<lparr>ods_file = Json_map m, ods_faults = [], ods_time_service = 0\<rparr>"
    by (simp add: s1 writes)
  obtain s3 where data: "storage_set SAFETY_DATA (SafetyDataDoc (safety_data_new 1 0 0 0 None 0)) s2 = (Inr (), s3)"
    and s3: "\<exists>m. s3 = OnDiskStorage \<lparr>ods_file = Json_map m, ods_faults = [], ods_time_service = 0\<rparr>"
    using s2 by (auto simp: writes)
  obtain s4 where waypoint: "storage_set WAYPOINT (WaypointDoc \<lparr>wp_version = 0, wp_value = 0\<rparr>) s3 = (Inr (), s4)"
    using s3 by (auto simp: writes)
  have "contents ?s CONSENSUS_KEY = None" by simp
  then show ?thesis using initialization_ignores_failed_key_write [OF key owner data waypoint, of True] by blast
qed

end
