(* ===== verification/Safety_Rules.thy ===== *)
theory Safety_Rules
  imports Safety_Storage
begin

text \<open>
  The component that holds the signing key of a validator and decides what it signs:
  \<open>safety_rules.rs\<close>, \<open>safety_rules_2chain.rs\<close>, \<open>consensus_state.rs\<close> and the service of
  \<open>serializer.rs\<close> in \<open>consensus/safety-rules/src\<close>. Every method maps the state to its
  result and the state it leaves. The cryptography, the hash functions and the hexadecimal
  encoding are the record \<open>sr_env\<close>; the clock is an argument. Logging and counters are left
  out.
\<close>

section \<open>State\<close>

record sr_env =
  env_crypto :: crypto
  env_block_crypto :: block_crypto
  env_node_hasher :: node_hasher
  env_waypoint_hasher :: waypoint_hasher
  env_public_key_of :: "private_key \<Rightarrow> public_key"
  env_hex_encode :: "u8 list \<Rightarrow> string"

record safety_rules =
  sr_persistent_storage :: persistent_safety_storage
  sr_validator_signer :: "validator_signer option"
  sr_epoch_state :: "epoch_state option"
  sr_skip_sig_verify :: bool

type_synonym 'a sr_result = "(safety_rules, sr_error, 'a) method_result"

definition safety_rules_new :: "persistent_safety_storage \<Rightarrow> bool \<Rightarrow> safety_rules" where
  "safety_rules_new persistent_storage skip_sig_verify =
     \<lparr>sr_persistent_storage = persistent_storage, sr_validator_signer = None, sr_epoch_state = None,
      sr_skip_sig_verify = skip_sig_verify\<rparr>"

text \<open>A method of the storage, called on the field.\<close>

definition on_storage :: "(persistent_safety_storage, sr_error, 'a) method_result \<Rightarrow> 'a sr_result" where
  "on_storage m sr =
     (case m (sr_persistent_storage sr) of (r, p) \<Rightarrow> (r, sr\<lparr>sr_persistent_storage := p\<rparr>))"

record consensus_state =
  cs_safety_data :: safety_data
  cs_waypoint :: waypoint
  cs_in_validator_set :: bool

definition consensus_state_new :: "safety_data \<Rightarrow> waypoint \<Rightarrow> bool \<Rightarrow> consensus_state" where
  "consensus_state_new d w in_validator_set =
     \<lparr>cs_safety_data = d, cs_waypoint = w, cs_in_validator_set = in_validator_set\<rparr>"

section \<open>Rules\<close>

definition next_round :: "round_t \<Rightarrow> sr_error + round_t" where
  "next_round rnd = ok_or (IncorrectRound rnd) (checked_add rnd 1)"

definition get_signer :: "safety_rules \<Rightarrow> sr_error + validator_signer" where
  "get_signer sr = ok_or (NotInitialized ''validator_signer'') (sr_validator_signer sr)"

definition get_epoch_state :: "safety_rules \<Rightarrow> sr_error + epoch_state" where
  "get_epoch_state sr = ok_or (NotInitialized ''epoch_state'') (sr_epoch_state sr)"

definition sr_sign :: "'m bls \<Rightarrow> 'm \<Rightarrow> safety_rules \<Rightarrow> sr_error + bls_signature" where
  "sr_sign bls message sr =
     rbind (get_signer sr) (\<lambda>s.
     map_err (\<lambda>_. SerializationError (TextOf ''signing'')) (signer_sign bls s message))"

definition observe_qc :: "quorum_cert \<Rightarrow> safety_data \<Rightarrow> bool \<times> safety_data" where
  "observe_qc qc d =
     (let one_chain = bi_round (certified_block qc);
          two_chain = bi_round (parent_block qc);
          (updated, d) = (if one_chain > sd_one_chain_round d
                          then (True, d\<lparr>sd_one_chain_round := one_chain\<rparr>) else (False, d))
      in if two_chain > sd_preferred_round d
         then (True, d\<lparr>sd_preferred_round := two_chain\<rparr>) else (updated, d))"

definition update_highest_timeout_round :: "two_chain_timeout \<Rightarrow> safety_data \<Rightarrow> safety_data" where
  "update_highest_timeout_round t d =
     (if tct_round t > sd_highest_timeout_round d then d\<lparr>sd_highest_timeout_round := tct_round t\<rparr> else d)"

definition verify_and_update_preferred_round ::
    "quorum_cert \<Rightarrow> safety_data \<Rightarrow> sr_error + bool \<times> safety_data" where
  "verify_and_update_preferred_round qc d =
     (let one_chain_round = bi_round (certified_block qc)
      in if one_chain_round < sd_preferred_round d
         then Inl (IncorrectPreferredRound one_chain_round (sd_preferred_round d))
         else Inr (observe_qc qc d))"

definition verify_author :: "account_address option \<Rightarrow> safety_rules \<Rightarrow> sr_error + unit" where
  "verify_author author sr =
     rbind (get_signer sr) (\<lambda>s.
     rbind (ok_or (InvalidProposal (TextOf ''No author found in the proposal'')) author) (\<lambda>a.
     ensure (vs_author s = a) (InvalidProposal (TextOf ''Proposal author is not validator signer!''))))"

definition verify_epoch :: "u64 \<Rightarrow> safety_data \<Rightarrow> sr_error + unit" where
  "verify_epoch epoch d = ensure (epoch = sd_epoch d) (IncorrectEpoch epoch (sd_epoch d))"

definition verify_and_update_last_vote_round :: "round_t \<Rightarrow> safety_data \<Rightarrow> sr_error + safety_data" where
  "verify_and_update_last_vote_round rnd d =
     (if rnd \<le> sd_last_voted_round d then Inl (IncorrectLastVotedRound rnd (sd_last_voted_round d))
      else Inr (d\<lparr>sd_last_voted_round := rnd\<rparr>))"

definition verify_qc :: "crypto \<Rightarrow> quorum_cert \<Rightarrow> safety_rules \<Rightarrow> sr_error + unit" where
  "verify_qc cr qc sr =
     rbind (get_epoch_state sr) (\<lambda>es.
     if sr_skip_sig_verify sr then Inr ()
     else sr_from_anyhow InvalidQuorumCertificate (quorum_cert_verify cr (es_verifier es) qc))"

definition verify_tc :: "crypto \<Rightarrow> two_chain_timeout_certificate \<Rightarrow> safety_rules \<Rightarrow> sr_error + unit" where
  "verify_tc cr tc sr =
     rbind (get_epoch_state sr) (\<lambda>es.
     if sr_skip_sig_verify sr then Inr ()
     else sr_from_anyhow InvalidTimeoutCertificate (timeout_certificate_verify cr (es_verifier es) tc))"

definition verify_maybe_tc :: "crypto \<Rightarrow> two_chain_timeout_certificate option \<Rightarrow> safety_rules \<Rightarrow> sr_error + unit" where
  "verify_maybe_tc cr timeout_cert sr =
     (case timeout_cert of Some tc \<Rightarrow> verify_tc cr tc sr | None \<Rightarrow> Inr ())"

definition verify_proposal :: "sr_env \<Rightarrow> u64 \<Rightarrow> vote_proposal \<Rightarrow> vote_data sr_result" where
  "verify_proposal env current_ts vp =
     (let proposed_block = vp_block vp; cr = env_crypto env
      in sbind (on_storage pss_safety_data) (\<lambda>d. sread (\<lambda>sr.
         rbind (verify_epoch (b_epoch proposed_block) d) (\<lambda>_.
         rbind (verify_qc cr (b_quorum_cert proposed_block) sr) (\<lambda>_.
         rbind (if sr_skip_sig_verify sr then Inr ()
                else rbind (get_epoch_state sr) (\<lambda>es.
                     sr_from_anyhow InvalidProposal
                       (validate_signature cr (env_block_crypto env) (es_verifier es) proposed_block))) (\<lambda>_.
         rbind (sr_from_anyhow InvalidProposal (block_verify_well_formed current_ts proposed_block)) (\<lambda>_.
         sr_from_anyhow InvalidAccumulatorExtension (gen_vote_data (env_node_hasher env) vp))))))))"

definition verify_order_vote_proposal :: "crypto \<Rightarrow> order_vote_proposal \<Rightarrow> unit sr_result" where
  "verify_order_vote_proposal cr ovp =
     (let proposed_block = ovp_block ovp; qc = ovp_quorum_cert ovp
      in sbind (on_storage pss_safety_data) (\<lambda>d. sread (\<lambda>sr.
         rbind (verify_epoch (b_epoch proposed_block) d) (\<lambda>_.
         if certified_block qc \<noteq> ovp_block_info ovp
         then Inl (InvalidOneChainQuorumCertificate (bi_id (certified_block qc)) (bi_id (ovp_block_info ovp)))
         else if bi_id (certified_block qc) \<noteq> b_id proposed_block
         then Inl (InvalidOneChainQuorumCertificate (bi_id (certified_block qc)) (b_id proposed_block))
         else verify_qc cr qc sr))))"

definition maybe_tc_round :: "two_chain_timeout_certificate option \<Rightarrow> round_t" where
  "maybe_tc_round maybe_tc = (case maybe_tc of None \<Rightarrow> 0 | Some tc \<Rightarrow> tc_round tc)"

definition maybe_hqc_round :: "two_chain_timeout_certificate option \<Rightarrow> round_t" where
  "maybe_hqc_round maybe_tc = (case maybe_tc of None \<Rightarrow> 0 | Some tc \<Rightarrow> highest_hqc_round tc)"

text \<open>The disjunctions are short-circuit: the second \<open>next_round\<close> may not be evaluated.\<close>

definition safe_to_timeout ::
    "two_chain_timeout \<Rightarrow> two_chain_timeout_certificate option \<Rightarrow> safety_data \<Rightarrow> sr_error + unit" where
  "safe_to_timeout t maybe_tc d =
     (let rnd = tct_round t; qc_round = hqc_round t; tcr = maybe_tc_round maybe_tc
      in rbind (next_round qc_round) (\<lambda>next_qc.
         rbind (if rnd = next_qc then Inr True else rbind (next_round tcr) (\<lambda>next_tc. Inr (rnd = next_tc))) (\<lambda>consecutive.
         ensure (consecutive \<and> qc_round \<ge> sd_one_chain_round d)
           (NotSafeToTimeout rnd qc_round tcr (sd_one_chain_round d)))))"

definition safe_to_vote :: "block \<Rightarrow> two_chain_timeout_certificate option \<Rightarrow> sr_error + unit" where
  "safe_to_vote b maybe_tc =
     (let rnd = b_round b; qc_round = bi_round (certified_block (b_quorum_cert b));
          tcr = maybe_tc_round maybe_tc; hqc = maybe_hqc_round maybe_tc
      in rbind (next_round qc_round) (\<lambda>next_qc.
         rbind (if rnd = next_qc then Inr True
                else rbind (next_round tcr) (\<lambda>next_tc. Inr (rnd = next_tc \<and> qc_round \<ge> hqc))) (\<lambda>safe.
         ensure safe (NotSafeToVote rnd qc_round tcr hqc))))"

definition safe_for_order_vote :: "block \<Rightarrow> safety_data \<Rightarrow> sr_error + unit" where
  "safe_for_order_vote b d =
     ensure (b_round b > sd_highest_timeout_round d) (NotSafeForOrderVote (b_round b) (sd_highest_timeout_round d))"

definition construct_ledger_info_2chain :: "block \<Rightarrow> hash_value \<Rightarrow> sr_error + ledger_info" where
  "construct_ledger_info_2chain proposed_block consensus_data_hash =
     (let block1 = b_round proposed_block;
          block0 = bi_round (certified_block (b_quorum_cert proposed_block))
      in rbind (next_round block0) (\<lambda>next0.
         let commit = (next0 = block1 \<and> block0 > 0);
             commit_info = (if commit then certified_block (b_quorum_cert proposed_block) else block_info_empty)
         in Inr (ledger_info_new commit_info consensus_data_hash)))"

section \<open>Operations\<close>

definition guarded_consensus_state :: "consensus_state sr_result" where
  "guarded_consensus_state =
     sbind (sread (pss_waypoint \<circ> sr_persistent_storage)) (\<lambda>_.
     sbind (on_storage pss_safety_data) (\<lambda>_.
     sbind (on_storage pss_safety_data) (\<lambda>d.
     sbind (sread (pss_waypoint \<circ> sr_persistent_storage)) (\<lambda>w sr.
     sreturn (consensus_state_new d w (sr_validator_signer sr \<noteq> None)) sr))))"

text \<open>The last part of \<open>guarded_initialize\<close>: the key that the validator set expects.\<close>

definition reconcile_key :: "sr_env \<Rightarrow> epoch_state \<Rightarrow> account_address \<Rightarrow> unit sr_result" where
  "reconcile_key env es author sr =
     (let initialize_result =
        (case get_public_key (es_verifier es) author of
           None \<Rightarrow> (Inl (ValidatorNotInSet author), sr)
         | Some expected_key \<Rightarrow>
             if map_option (\<lambda>s. env_public_key_of env (vs_private_key s)) (sr_validator_signer sr) = Some expected_key
             then (Inr (), sr)
             else (case consensus_sk_by_pk (env_hex_encode env) (env_public_key_of env)
                          (sr_persistent_storage sr) expected_key of
                     Inr consensus_key \<Rightarrow>
                       (Inr (), sr\<lparr>sr_validator_signer :=
                                     Some \<lparr>vs_author = author, vs_private_key = consensus_key\<rparr>\<rparr>)
                   | Inl (SecureStorageMissingDataError e) \<Rightarrow> (Inl (ValidatorKeyNotFound e), sr)
                   | Inl e \<Rightarrow> (Inl e, sr)))
      in case initialize_result of
           (Inl e, sr') \<Rightarrow> (Inl e, sr'\<lparr>sr_validator_signer := None\<rparr>)
         | ok \<Rightarrow> ok)"

text \<open>Its middle part: the comparison of the epoch of the storage with that of the proof.\<close>

definition start_epoch :: "waypoint \<Rightarrow> waypoint \<Rightarrow> epoch_state \<Rightarrow> unit sr_result" where
  "start_epoch w new_waypoint es =
     sbind (on_storage pss_safety_data) (\<lambda>d.
     let current_epoch = sd_epoch d
     in if current_epoch > es_epoch es
        then slift (Inl (WaypointOutOfDate (wp_version w) (wp_version new_waypoint) current_epoch (es_epoch es)))
        else if current_epoch < es_epoch es
        then on_storage (pss_set_safety_data (safety_data_new (es_epoch es) 0 0 0 None 0))
        else sreturn ())"

definition set_epoch_state :: "epoch_state \<Rightarrow> unit sr_result" where
  "set_epoch_state es sr = (Inr (), sr\<lparr>sr_epoch_state := Some es\<rparr>)"

definition guarded_initialize :: "sr_env \<Rightarrow> epoch_change_proof \<Rightarrow> unit sr_result" where
  "guarded_initialize env p =
     sbind (sread (pss_waypoint \<circ> sr_persistent_storage)) (\<lambda>w.
     sbind (slift (sr_from_anyhow InvalidEpochChangeProof
              (epoch_change_proof_verify (cr_ledger_info (env_crypto env))
                 (waypoint_verifier (env_waypoint_hasher env) w) p))) (\<lambda>last_li.
     let li = lis_ledger_info last_li
     in sbind (slift (ok_or InvalidLedgerInfo (li_next_epoch_state li))) (\<lambda>es.
        sbind (slift (sr_from_anyhow InternalError (new_epoch_boundary (env_waypoint_hasher env) li))) (\<lambda>new_waypoint.
        sbind (if wp_version new_waypoint > wp_version w then on_storage (pss_set_waypoint new_waypoint)
               else sreturn ()) (\<lambda>_.
        sbind (start_epoch w new_waypoint es) (\<lambda>_.
        sbind (set_epoch_state es) (\<lambda>_.
        sbind (sread (pss_author \<circ> sr_persistent_storage)) (\<lambda>author.
        reconcile_key env es author))))))))"

definition guarded_sign_proposal :: "sr_env \<Rightarrow> block_data \<Rightarrow> bls_signature sr_result" where
  "guarded_sign_proposal env bd =
     sbind (sread get_signer) (\<lambda>_.
     sbind (sread (verify_author (bd_author bd))) (\<lambda>_.
     sbind (on_storage pss_safety_data) (\<lambda>d.
     sbind (slift (verify_epoch (bd_epoch bd) d)) (\<lambda>_.
     sbind (slift (if bd_round bd \<le> sd_last_voted_round d
                   then Inl (InvalidProposal (TextOf ''Proposed round is not higher than last voted round''))
                   else Inr ())) (\<lambda>_.
     sbind (sread (verify_qc (env_crypto env) (bd_quorum_cert bd))) (\<lambda>_.
     sbind (slift (verify_and_update_preferred_round (bd_quorum_cert bd) d)) (\<lambda>_.
     sread (sr_sign (bc_bls (env_block_crypto env)) bd))))))))"

definition guarded_sign_commit_vote ::
    "sr_env \<Rightarrow> ledger_info_with_signatures \<Rightarrow> ledger_info \<Rightarrow> bls_signature sr_result" where
  "guarded_sign_commit_vote env ledger_info_w_sigs new_ledger_info =
     (let old_ledger_info = lis_ledger_info ledger_info_w_sigs; bls = cr_ledger_info (env_crypto env)
      in sread (\<lambda>sr.
           rbind (get_signer sr) (\<lambda>_.
           if \<not> is_ordered_only (li_commit_info old_ledger_info) \<and>
              li_commit_info old_ledger_info \<noteq> li_commit_info new_ledger_info
           then Inl (InvalidOrderedLedgerInfo old_ledger_info)
           else if \<not> match_ordered_only (li_commit_info old_ledger_info) (li_commit_info new_ledger_info)
           then Inl (InconsistentExecutionResult (li_commit_info old_ledger_info) (li_commit_info new_ledger_info))
           else rbind (if sr_skip_sig_verify sr then Inr ()
                       else rbind (get_epoch_state sr) (\<lambda>es.
                            sr_from_anyhow InvalidQuorumCertificate
                              (into_anyhow (verify_signatures bls (es_verifier es) ledger_info_w_sigs)))) (\<lambda>_.
                sr_sign bls new_ledger_info sr))))"

definition update_last_voted_round_for_timeout :: "two_chain_timeout \<Rightarrow> safety_data \<Rightarrow> sr_error + safety_data" where
  "update_last_voted_round_for_timeout t d =
     (if tct_round t < sd_last_voted_round d
      then Inl (IncorrectLastVotedRound (tct_round t) (sd_last_voted_round d))
      else if tct_round t > sd_last_voted_round d
      then verify_and_update_last_vote_round (tct_round t) d
      else Inr d)"

definition guarded_sign_timeout_with_qc ::
    "sr_env \<Rightarrow> two_chain_timeout \<Rightarrow> two_chain_timeout_certificate option \<Rightarrow> bls_signature sr_result" where
  "guarded_sign_timeout_with_qc env t timeout_cert =
     (let cr = env_crypto env
      in sbind (sread get_signer) (\<lambda>_.
         sbind (on_storage pss_safety_data) (\<lambda>d.
         sbind (slift (verify_epoch (tct_epoch t) d)) (\<lambda>_.
         sbind (sread (\<lambda>sr. if sr_skip_sig_verify sr then Inr ()
                  else rbind (get_epoch_state sr) (\<lambda>es.
                       sr_from_anyhow InvalidTimeout (two_chain_timeout_verify cr (es_verifier es) t)))) (\<lambda>_.
         sbind (sread (verify_maybe_tc cr timeout_cert)) (\<lambda>_.
         sbind (slift (safe_to_timeout t timeout_cert d)) (\<lambda>_.
         sbind (slift (update_last_voted_round_for_timeout t d)) (\<lambda>d.
         sbind (on_storage (pss_set_safety_data (update_highest_timeout_round t d))) (\<lambda>_.
         sread (sr_sign (cr_timeout cr) (signing_format t)))))))))))"

text \<open>
  The second half of \<open>guarded_construct_and_sign_vote_two_chain\<close>, when there is no earlier
  vote of the round to return.
\<close>

definition sign_new_vote ::
    "crypto \<Rightarrow> block \<Rightarrow> two_chain_timeout_certificate option \<Rightarrow> vote_data \<Rightarrow> safety_data \<Rightarrow> vote sr_result" where
  "sign_new_vote cr proposed_block timeout_cert vd d =
     sbind (slift (verify_and_update_last_vote_round (bd_round (b_block_data proposed_block)) d)) (\<lambda>d.
     sbind (slift (safe_to_vote proposed_block timeout_cert)) (\<lambda>_.
     let d = snd (observe_qc (b_quorum_cert proposed_block) d)
     in sbind (sread get_signer) (\<lambda>s.
        let author = vs_author s
        in sbind (slift (construct_ledger_info_2chain proposed_block (cr_vote_data_hash cr vd))) (\<lambda>li.
           sbind (sread (sr_sign (cr_ledger_info cr) li)) (\<lambda>signature.
           let v = vote_new_with_signature vd author li signature
           in sbind (on_storage (pss_set_safety_data (d\<lparr>sd_last_vote := Some v\<rparr>))) (\<lambda>_.
              sreturn v))))))"

definition guarded_construct_and_sign_vote_two_chain ::
    "sr_env \<Rightarrow> u64 \<Rightarrow> vote_proposal \<Rightarrow> two_chain_timeout_certificate option \<Rightarrow> vote sr_result" where
  "guarded_construct_and_sign_vote_two_chain env current_ts vp timeout_cert =
     (let cr = env_crypto env; proposed_block = vp_block vp
      in sbind (sread get_signer) (\<lambda>_.
         sbind (verify_proposal env current_ts vp) (\<lambda>vd.
         sbind (sread (verify_maybe_tc cr timeout_cert)) (\<lambda>_.
         sbind (on_storage pss_safety_data) (\<lambda>d.
         case sd_last_vote d of
           Some v \<Rightarrow>
             if bi_round (vd_proposed (v_vote_data v)) = b_round proposed_block then sreturn v
             else sign_new_vote cr proposed_block timeout_cert vd d
         | None \<Rightarrow> sign_new_vote cr proposed_block timeout_cert vd d)))))"

definition guarded_construct_and_sign_order_vote :: "sr_env \<Rightarrow> order_vote_proposal \<Rightarrow> order_vote sr_result" where
  "guarded_construct_and_sign_order_vote env ovp =
     (let cr = env_crypto env; proposed_block = ovp_block ovp
      in sbind (sread get_signer) (\<lambda>_.
         sbind (verify_order_vote_proposal cr ovp) (\<lambda>_.
         sbind (on_storage pss_safety_data) (\<lambda>d.
         let d = snd (observe_qc (ovp_quorum_cert ovp) d)
         in sbind (slift (safe_for_order_vote proposed_block d)) (\<lambda>_.
            sbind (sread get_signer) (\<lambda>s.
            let author = vs_author s; li = ledger_info_new (ovp_block_info ovp) 0
            in sbind (sread (sr_sign (cr_ledger_info cr) li)) (\<lambda>signature.
               let ov = order_vote_new_with_signature author li signature
               in sbind (on_storage (pss_set_safety_data d)) (\<lambda>_.
                  sreturn ov))))))))"

section \<open>The service\<close>

text \<open>
  Requests and responses arrive and leave as JSON; here they are the values that the JSON
  encodes.
\<close>

datatype safety_rules_input =
    ConsensusState
  | Initialize epoch_change_proof
  | SignProposal block_data
  | SignTimeoutWithQC two_chain_timeout "two_chain_timeout_certificate option"
  | ConstructAndSignVoteTwoChain vote_proposal "two_chain_timeout_certificate option"
  | ConstructAndSignOrderVote order_vote_proposal
  | SignCommitVote ledger_info_with_signatures ledger_info

datatype safety_rules_output =
    OutConsensusState "sr_error + consensus_state"
  | OutUnit "sr_error + unit"
  | OutSignature "sr_error + bls_signature"
  | OutVote "sr_error + vote"
  | OutOrderVote "sr_error + order_vote"

definition handle_message ::
    "sr_env \<Rightarrow> u64 \<Rightarrow> safety_rules_input \<Rightarrow> safety_rules \<Rightarrow> safety_rules_output \<times> safety_rules" where
  "handle_message env current_ts input sr =
     (case input of
        ConsensusState \<Rightarrow> map_prod OutConsensusState id (guarded_consensus_state sr)
      | Initialize p \<Rightarrow> map_prod OutUnit id (guarded_initialize env p sr)
      | SignProposal bd \<Rightarrow> map_prod OutSignature id (guarded_sign_proposal env bd sr)
      | SignTimeoutWithQC t maybe_tc \<Rightarrow>
          map_prod OutSignature id (guarded_sign_timeout_with_qc env t maybe_tc sr)
      | ConstructAndSignVoteTwoChain vp maybe_tc \<Rightarrow>
          map_prod OutVote id (guarded_construct_and_sign_vote_two_chain env current_ts vp maybe_tc sr)
      | ConstructAndSignOrderVote ovp \<Rightarrow>
          map_prod OutOrderVote id (guarded_construct_and_sign_order_vote env ovp sr)
      | SignCommitVote liws li \<Rightarrow>
          map_prod OutSignature id (guarded_sign_commit_vote env liws li sr))"

section \<open>What an operation reads and writes\<close>

lemma sbind_eq_iff:
  "sbind m f s = (r, t) \<longleftrightarrow>
     (\<exists>e. m s = (Inl e, t) \<and> r = Inl e) \<or> (\<exists>a s'. m s = (Inr a, s') \<and> f a s' = (r, t))"
  by (auto simp: sbind_def split: prod.splits sum.splits)

abbreviation sr_durable :: "safety_rules \<Rightarrow> safety_data option" where
  "sr_durable sr \<equiv> durable (pss_internal_store (sr_persistent_storage sr))"

abbreviation sr_coherent :: "safety_rules \<Rightarrow> bool" where
  "sr_coherent sr \<equiv> pss_coherent (sr_persistent_storage sr)"

text \<open>A step that leaves the key, the validator set and the configuration alone.\<close>

definition same_config :: "safety_rules \<Rightarrow> safety_rules \<Rightarrow> bool" where
  "same_config sr sr' \<longleftrightarrow>
     sr_validator_signer sr' = sr_validator_signer sr \<and> sr_epoch_state sr' = sr_epoch_state sr \<and>
     sr_skip_sig_verify sr' = sr_skip_sig_verify sr \<and>
     pss_enable_cached_safety_data (sr_persistent_storage sr') = pss_enable_cached_safety_data (sr_persistent_storage sr)"

text \<open>A step that at most fills the cache.\<close>

definition only_reads :: "safety_rules \<Rightarrow> safety_rules \<Rightarrow> bool" where
  "only_reads sr sr' \<longleftrightarrow>
     same_config sr sr' \<and> sr_coherent sr' \<and>
     pss_internal_store (sr_persistent_storage sr') = pss_internal_store (sr_persistent_storage sr)"

lemma only_reads_refl [simp]: "sr_coherent sr \<Longrightarrow> only_reads sr sr"
  by (simp add: only_reads_def same_config_def)

lemma only_reads_trans: "only_reads s1 s2 \<Longrightarrow> only_reads s2 s3 \<Longrightarrow> only_reads s1 s3"
  by (simp add: only_reads_def same_config_def)

lemma same_config_trans: "same_config s1 s2 \<Longrightarrow> same_config s2 s3 \<Longrightarrow> same_config s1 s3"
  by (simp add: same_config_def)

lemma only_readsD:
  assumes "only_reads sr sr'"
  shows "same_config sr sr'" "sr_coherent sr'" "sr_durable sr' = sr_durable sr"
    "sr_validator_signer sr' = sr_validator_signer sr" "sr_epoch_state sr' = sr_epoch_state sr"
    "sr_skip_sig_verify sr' = sr_skip_sig_verify sr"
  using assms by (simp_all add: only_reads_def same_config_def)

lemma on_storage_eq:
  "on_storage m sr = (r, sr') \<longleftrightarrow>
     (\<exists>p. m (sr_persistent_storage sr) = (r, p) \<and> sr' = sr\<lparr>sr_persistent_storage := p\<rparr>)"
  by (auto simp: on_storage_def split: prod.splits)

lemma on_storage_safety_data:
  assumes "on_storage pss_safety_data sr = (r, sr')" "sr_coherent sr"
  shows "only_reads sr sr'" and "r = Inr d \<Longrightarrow> sr_durable sr = Some d"
  using assms by (auto simp: on_storage_eq only_reads_def same_config_def pss_safety_data_reads)

lemma on_storage_set_safety_data:
  assumes "on_storage (pss_set_safety_data d) sr = (r, sr')"
  shows "same_config sr sr'" and "sr_coherent sr'"
    and "sr_durable sr' = (if r = Inr () then Some d else sr_durable sr)"
  using assms by (auto simp: on_storage_eq same_config_def pss_set_safety_data_effect)

lemma on_storage_set_waypoint:
  assumes "on_storage (pss_set_waypoint w) sr = (r, sr')"
  shows "same_config sr sr'" and "sr_coherent sr' = sr_coherent sr" and "sr_durable sr' = sr_durable sr"
  using assms by (auto simp: on_storage_eq same_config_def pss_set_waypoint_effect)

lemma verify_proposal_reads:
  "verify_proposal env now vp sr = (r, sr') \<Longrightarrow> sr_coherent sr \<Longrightarrow> only_reads sr sr'"
  by (auto simp: verify_proposal_def Let_def sbind_eq_iff result_simps dest: on_storage_safety_data(1))

lemma verify_order_vote_proposal_reads:
  "verify_order_vote_proposal cr ovp sr = (r, sr') \<Longrightarrow> sr_coherent sr \<Longrightarrow> only_reads sr sr'"
  by (auto simp: verify_order_vote_proposal_def Let_def sbind_eq_iff result_simps dest: on_storage_safety_data(1))

lemma sr_from_anyhow_Inr [result_simps]: "sr_from_anyhow c m = Inr a \<longleftrightarrow> m = Inr a"
  by (simp add: sr_from_anyhow_def result_simps)

lemma verify_epoch_Inr [result_simps]: "verify_epoch e d = Inr u \<longleftrightarrow> e = sd_epoch d"
  by (simp add: verify_epoch_def result_simps)

lemma verify_qc_Inr:
  "verify_qc cr qc sr = Inr u \<longleftrightarrow>
     (\<exists>es. sr_epoch_state sr = Some es \<and>
        (sr_skip_sig_verify sr \<or> quorum_cert_verify cr (es_verifier es) qc = Inr ()))"
  by (auto simp: verify_qc_def get_epoch_state_def result_simps)

lemma verify_tc_Inr:
  "verify_tc cr tc sr = Inr u \<longleftrightarrow>
     (\<exists>es. sr_epoch_state sr = Some es \<and>
        (sr_skip_sig_verify sr \<or> timeout_certificate_verify cr (es_verifier es) tc = Inr ()))"
  by (auto simp: verify_tc_def get_epoch_state_def result_simps)

lemma verify_proposal_Inr:
  assumes "verify_proposal env now vp sr = (Inr vd, sr')" "sr_coherent sr"
  obtains d es where "sr_durable sr = Some d" "sr_epoch_state sr = Some es" "b_epoch (vp_block vp) = sd_epoch d"
    "sr_skip_sig_verify sr \<or> quorum_cert_verify (env_crypto env) (es_verifier es) (b_quorum_cert (vp_block vp)) = Inr ()"
    "block_verify_well_formed now (vp_block vp) = Inr ()"
    "gen_vote_data (env_node_hasher env) vp = Inr vd"
proof -
  obtain d sr1 where d: "on_storage pss_safety_data sr = (Inr d, sr1)"
    and *: "b_epoch (vp_block vp) = sd_epoch d" "verify_qc (env_crypto env) (b_quorum_cert (vp_block vp)) sr1 = Inr ()"
      "block_verify_well_formed now (vp_block vp) = Inr ()" "gen_vote_data (env_node_hasher env) vp = Inr vd"
    using assms(1) by (auto simp: verify_proposal_def Let_def result_simps)
  note rd = on_storage_safety_data [OF d assms(2)]
  show thesis using that [of d] rd(2) * only_readsD [OF rd(1)] by (auto simp: verify_qc_Inr)
qed

section \<open>The effect of each operation on the durable state\<close>

lemma observe_qc_max:
  "snd (observe_qc qc d) =
     d\<lparr>sd_one_chain_round := max (sd_one_chain_round d) (bi_round (certified_block qc)),
       sd_preferred_round := max (sd_preferred_round d) (bi_round (parent_block qc))\<rparr>"
  by (cases d) (auto simp: observe_qc_def Let_def max_def)

lemma next_round_Inr [result_simps]: "next_round r = Inr s \<longleftrightarrow> checked_add r 1 = Some s"
  by (simp add: next_round_def result_simps)

lemma safe_to_timeout_Inr:
  "safe_to_timeout t tc d = Inr u \<Longrightarrow>
     sd_one_chain_round d \<le> hqc_round t \<and>
     (checked_add (hqc_round t) 1 = Some (tct_round t) \<or> checked_add (maybe_tc_round tc) 1 = Some (tct_round t))"
  by (auto simp: safe_to_timeout_def Let_def result_simps split: if_splits)

lemma safe_to_vote_Inr:
  "safe_to_vote b tc = Inr u \<Longrightarrow>
     checked_add (bi_round (certified_block (b_quorum_cert b))) 1 = Some (b_round b) \<or>
     checked_add (maybe_tc_round tc) 1 = Some (b_round b) \<and>
       maybe_hqc_round tc \<le> bi_round (certified_block (b_quorum_cert b))"
  by (auto simp: safe_to_vote_def Let_def result_simps split: if_splits)

text \<open>A timeout that may be signed with the safety data \<open>d\<close>, and the data it leaves.\<close>

definition timeout_allowed :: "two_chain_timeout \<Rightarrow> two_chain_timeout_certificate option \<Rightarrow> safety_data \<Rightarrow> bool" where
  "timeout_allowed t tc d \<longleftrightarrow>
     tct_epoch t = sd_epoch d \<and> safe_to_timeout t tc d = Inr () \<and> sd_last_voted_round d \<le> tct_round t"

definition after_timeout :: "two_chain_timeout \<Rightarrow> safety_data \<Rightarrow> safety_data" where
  "after_timeout t d =
     d\<lparr>sd_last_voted_round := tct_round t,
       sd_highest_timeout_round := max (sd_highest_timeout_round d) (tct_round t)\<rparr>"

lemma after_timeout_update:
  assumes "update_last_voted_round_for_timeout t d = Inr d'"
  shows "update_highest_timeout_round t d' = after_timeout t d" "sd_last_voted_round d \<le> tct_round t"
  using assms
  by (cases d; auto simp: update_last_voted_round_for_timeout_def verify_and_update_last_vote_round_def
      update_highest_timeout_round_def after_timeout_def max_def not_less split: if_splits)+

lemma sign_timeout_effect:
  assumes "guarded_sign_timeout_with_qc env t tc sr = (r, sr')" "sr_coherent sr"
  shows "same_config sr sr' \<and> sr_coherent sr' \<and>
    ((\<exists>e. r = Inl e) \<and> sr_durable sr' = sr_durable sr \<or>
     (\<exists>d. sr_durable sr = Some d \<and> timeout_allowed t tc d \<and> sr_durable sr' = Some (after_timeout t d)))"
proof -
  have "only_reads sr sr' \<and> (\<exists>e. r = Inl e) \<or>
    (\<exists>d d' r1 sr1. on_storage pss_safety_data sr = (Inr d, sr1) \<and> tct_epoch t = sd_epoch d \<and>
       safe_to_timeout t tc d = Inr () \<and> update_last_voted_round_for_timeout t d = Inr d' \<and>
       on_storage (pss_set_safety_data (update_highest_timeout_round t d')) sr1 = (r1, sr') \<and>
       (\<forall>e. r1 = Inl e \<longrightarrow> r = Inl e))"
    using assms(1) unfolding guarded_sign_timeout_with_qc_def Let_def
    by (elim sbind_eq_iff [THEN iffD1, elim_format] disjE exE conjE)
      (auto simp: result_simps assms(2) dest: on_storage_safety_data(1) [OF _ assms(2)])
  then show ?thesis
  proof (elim disjE exE conjE)
    fix d d' r1 sr1
    assume d: "on_storage pss_safety_data sr = (Inr d, sr1)" "tct_epoch t = sd_epoch d" "safe_to_timeout t tc d = Inr ()"
      and upd: "update_last_voted_round_for_timeout t d = Inr d'"
      and st: "on_storage (pss_set_safety_data (update_highest_timeout_round t d')) sr1 = (r1, sr')"
      and r: "\<forall>e. r1 = Inl e \<longrightarrow> r = Inl e"
    note rd = on_storage_safety_data [OF d(1) assms(2)] and eff = on_storage_set_safety_data [OF st]
    have "same_config sr sr'" using only_readsD(1) [OF rd(1)] eff(1) by (rule same_config_trans)
    then show ?thesis
      using rd(2) d(2,3) eff(2,3) only_readsD(3) [OF rd(1)] after_timeout_update [OF upd] r
      by (cases r1) (auto simp: timeout_allowed_def)
  qed (auto dest: only_readsD)
qed

lemma sign_timeout_Inr:
  assumes "guarded_sign_timeout_with_qc env t tc sr = (Inr s, sr')" "sr_coherent sr"
  obtains es where "sr_epoch_state sr = Some es \<or> sr_skip_sig_verify sr \<and> tc = None"
    "sr_skip_sig_verify sr \<or> two_chain_timeout_verify (env_crypto env) (es_verifier es) t = Inr ()"
    "sr_skip_sig_verify sr \<or> tc = None \<or> timeout_certificate_verify (env_crypto env) (es_verifier es) (the tc) = Inr ()"
proof -
  obtain d sr1 where d: "on_storage pss_safety_data sr = (Inr d, sr1)"
    and *: "sr_skip_sig_verify sr1 \<or> (\<exists>es. sr_epoch_state sr1 = Some es \<and>
          two_chain_timeout_verify (env_crypto env) (es_verifier es) t = Inr ())"
      "verify_maybe_tc (env_crypto env) tc sr1 = Inr ()"
    using assms(1) unfolding guarded_sign_timeout_with_qc_def Let_def
    by (auto simp: result_simps get_epoch_state_def split: if_splits)
  note rd = only_readsD [OF on_storage_safety_data(1) [OF d assms(2)]]
  show thesis
    using that * rd(5,6) by (auto simp: verify_maybe_tc_def verify_tc_Inr split: option.splits)
qed

text \<open>A vote that may be signed with the safety data \<open>d\<close>, and the data it leaves.\<close>

definition vote_allowed :: "block \<Rightarrow> two_chain_timeout_certificate option \<Rightarrow> safety_data \<Rightarrow> bool" where
  "vote_allowed b tc d \<longleftrightarrow>
     b_epoch b = sd_epoch d \<and> sd_last_voted_round d < b_round b \<and> safe_to_vote b tc = Inr ()"

definition after_vote :: "block \<Rightarrow> vote \<Rightarrow> safety_data \<Rightarrow> safety_data" where
  "after_vote b v d =
     d\<lparr>sd_last_voted_round := b_round b,
       sd_one_chain_round := max (sd_one_chain_round d) (bi_round (certified_block (b_quorum_cert b))),
       sd_preferred_round := max (sd_preferred_round d) (bi_round (parent_block (b_quorum_cert b))),
       sd_last_vote := Some v\<rparr>"

lemma sign_new_vote_effect:
  assumes "sign_new_vote cr b tc vd d sr = (r, sr')" "sr_coherent sr"
  shows "same_config sr sr' \<and> sr_coherent sr' \<and>
    ((\<exists>e. r = Inl e) \<and> sr_durable sr' = sr_durable sr \<or>
     (\<exists>v. r = Inr v \<and> v_vote_data v = vd \<and>
        construct_ledger_info_2chain b (cr_vote_data_hash cr vd) = Inr (v_ledger_info v) \<and>
        sd_last_voted_round d < b_round b \<and> safe_to_vote b tc = Inr () \<and> sr_durable sr' = Some (after_vote b v d)))"
proof -
  consider (abort) "sr' = sr" "\<exists>e. r = Inl e"
    | (failed) d' e where "on_storage (pss_set_safety_data d') sr = (Inl e, sr')" "r = Inl e"
    | (written) d' v where "verify_and_update_last_vote_round (b_round b) d = Inr d'" "safe_to_vote b tc = Inr ()"
       "on_storage (pss_set_safety_data ((snd (observe_qc (b_quorum_cert b) d'))\<lparr>sd_last_vote := Some v\<rparr>)) sr = (Inr (), sr')"
       "construct_ledger_info_2chain b (cr_vote_data_hash cr vd) = Inr (v_ledger_info v)" "v_vote_data v = vd" "r = Inr v"
    using assms(1) unfolding sign_new_vote_def Let_def b_round_def [symmetric]
    by (elim sbind_eq_iff [THEN iffD1, elim_format] disjE exE conjE)
      (auto simp: result_simps vote_new_with_signature_def)
  then show ?thesis
  proof cases
    case failed
    then show ?thesis using on_storage_set_safety_data [OF failed(1)] by simp
  next
    case written
    have d': "sd_last_voted_round d < b_round b" "d' = d\<lparr>sd_last_voted_round := b_round b\<rparr>"
      using written(1) by (auto simp: verify_and_update_last_vote_round_def split: if_splits)
    have "(snd (observe_qc (b_quorum_cert b) d'))\<lparr>sd_last_vote := Some v\<rparr> = after_vote b v d"
      by (cases d) (simp add: observe_qc_max d'(2) after_vote_def)
    then show ?thesis
      using on_storage_set_safety_data [OF written(3)] written(2,4-6) d'(1) by simp
  qed (use assms(2) in \<open>simp add: same_config_def\<close>)
qed

text \<open>The checks that a proposal has passed before a vote is considered.\<close>

definition proposal_verified ::
    "sr_env \<Rightarrow> u64 \<Rightarrow> vote_proposal \<Rightarrow> two_chain_timeout_certificate option \<Rightarrow> safety_rules \<Rightarrow> safety_data \<Rightarrow> vote_data \<Rightarrow> bool" where
  "proposal_verified env now vp tc sr d vd \<longleftrightarrow>
     b_epoch (vp_block vp) = sd_epoch d \<and> block_verify_well_formed now (vp_block vp) = Inr () \<and>
     gen_vote_data (env_node_hasher env) vp = Inr vd \<and>
     (\<exists>es. sr_epoch_state sr = Some es \<and>
        (\<not> sr_skip_sig_verify sr \<longrightarrow>
           quorum_cert_verify (env_crypto env) (es_verifier es) (b_quorum_cert (vp_block vp)) = Inr () \<and>
           (\<forall>c. tc = Some c \<longrightarrow> timeout_certificate_verify (env_crypto env) (es_verifier es) c = Inr ())))"

lemma verify_maybe_tc_Inr:
  "verify_maybe_tc cr tc sr = Inr u \<longleftrightarrow> (\<forall>c. tc = Some c \<longrightarrow> verify_tc cr c sr = Inr ())"
  by (simp add: verify_maybe_tc_def split: option.splits)

lemma construct_vote_prefix:
  assumes vd: "verify_proposal env now vp sr = (Inr vd, sr1)" and tc: "verify_maybe_tc (env_crypto env) tc sr1 = Inr ()"
    and d: "on_storage pss_safety_data sr1 = (Inr d, sr2)" and coherent: "sr_coherent sr"
  shows "only_reads sr sr2" "sr_durable sr = Some d" "proposal_verified env now vp tc sr d vd"
proof -
  note r1 = verify_proposal_reads [OF vd coherent]
  note r2 = on_storage_safety_data [OF d only_readsD(2) [OF r1]]
  show "only_reads sr sr2" by (rule only_reads_trans [OF r1 r2(1)])
  show dur: "sr_durable sr = Some d" using r2(2) only_readsD(3) [OF r1] by simp
  show "proposal_verified env now vp tc sr d vd"
    by (rule verify_proposal_Inr [OF vd coherent])
      (use tc dur only_readsD(5,6) [OF r1] in \<open>auto simp: proposal_verified_def verify_maybe_tc_Inr verify_tc_Inr\<close>)
qed

lemma construct_vote_effect:
  assumes "guarded_construct_and_sign_vote_two_chain env now vp tc sr = (r, sr')" "sr_coherent sr"
  shows "same_config sr sr' \<and> sr_coherent sr' \<and>
    ((\<exists>e. r = Inl e) \<and> sr_durable sr' = sr_durable sr \<or>
     (\<exists>d v vd. sr_durable sr = Some d \<and> r = Inr v \<and> proposal_verified env now vp tc sr d vd \<and>
        (sd_last_vote d = Some v \<and> bi_round (vd_proposed (v_vote_data v)) = b_round (vp_block vp) \<and>
           sr_durable sr' = Some d \<or>
         v_vote_data v = vd \<and> vote_allowed (vp_block vp) tc d \<and>
           construct_ledger_info_2chain (vp_block vp) (cr_vote_data_hash (env_crypto env) vd) = Inr (v_ledger_info v) \<and>
           sr_durable sr' = Some (after_vote (vp_block vp) v d))))"
proof -
  let ?b = "vp_block vp" and ?cr = "env_crypto env"
  consider (abort) "only_reads sr sr'" "\<exists>e. r = Inl e"
    | (voted) vd sr1 d v where "verify_proposal env now vp sr = (Inr vd, sr1)" "verify_maybe_tc ?cr tc sr1 = Inr ()"
      "on_storage pss_safety_data sr1 = (Inr d, sr')" "sd_last_vote d = Some v"
      "bi_round (vd_proposed (v_vote_data v)) = b_round ?b" "r = Inr v"
    | (new) vd sr1 d sr2 where "verify_proposal env now vp sr = (Inr vd, sr1)" "verify_maybe_tc ?cr tc sr1 = Inr ()"
      "on_storage pss_safety_data sr1 = (Inr d, sr2)" "sign_new_vote ?cr ?b tc vd d sr2 = (r, sr')"
    using assms(1) unfolding guarded_construct_and_sign_vote_two_chain_def Let_def
    by (elim sbind_eq_iff [THEN iffD1, elim_format] disjE exE conjE)
      (auto simp: result_simps assms(2) split: option.splits if_splits
         dest: verify_proposal_reads [OF _ assms(2)] on_storage_safety_data(1) only_readsD(2)
         intro: only_reads_trans)
  then show ?thesis
  proof cases
    case abort
    then show ?thesis using only_readsD by blast
  next
    case voted
    note pre = construct_vote_prefix [OF voted(1-3) assms(2)]
    show ?thesis using pre(2,3) only_readsD [OF pre(1)] voted(4-6) by auto
  next
    case new
    note pre = construct_vote_prefix [OF new(1-3) assms(2)]
    note rd = only_readsD [OF pre(1)]
    have "b_epoch ?b = sd_epoch d" using pre(3) by (simp add: proposal_verified_def)
    then show ?thesis
      using sign_new_vote_effect [OF new(4) rd(2)] pre(2,3) rd(1,3) same_config_trans [OF rd(1)]
      by (auto simp: vote_allowed_def)
  qed
qed

text \<open>An order vote that may be signed, and the data it leaves.\<close>

definition after_order_vote :: "order_vote_proposal \<Rightarrow> safety_data \<Rightarrow> safety_data" where
  "after_order_vote ovp d = snd (observe_qc (ovp_quorum_cert ovp) d)"

definition order_vote_allowed :: "sr_env \<Rightarrow> order_vote_proposal \<Rightarrow> safety_rules \<Rightarrow> safety_data \<Rightarrow> bool" where
  "order_vote_allowed env ovp sr d \<longleftrightarrow>
     b_epoch (ovp_block ovp) = sd_epoch d \<and> certified_block (ovp_quorum_cert ovp) = ovp_block_info ovp \<and>
     bi_id (ovp_block_info ovp) = b_id (ovp_block ovp) \<and> sd_highest_timeout_round d < b_round (ovp_block ovp) \<and>
     (\<exists>es. sr_epoch_state sr = Some es \<and>
        (\<not> sr_skip_sig_verify sr \<longrightarrow>
           quorum_cert_verify (env_crypto env) (es_verifier es) (ovp_quorum_cert ovp) = Inr ()))"

lemma verify_order_vote_proposal_Inr:
  assumes "verify_order_vote_proposal cr ovp sr = (Inr u, sr')" "sr_coherent sr"
  obtains d es where "sr_durable sr = Some d" "sr_epoch_state sr = Some es" "b_epoch (ovp_block ovp) = sd_epoch d"
    "certified_block (ovp_quorum_cert ovp) = ovp_block_info ovp" "bi_id (ovp_block_info ovp) = b_id (ovp_block ovp)"
    "sr_skip_sig_verify sr \<or> quorum_cert_verify cr (es_verifier es) (ovp_quorum_cert ovp) = Inr ()"
proof -
  obtain d sr1 where d: "on_storage pss_safety_data sr = (Inr d, sr1)"
    and *: "b_epoch (ovp_block ovp) = sd_epoch d" "certified_block (ovp_quorum_cert ovp) = ovp_block_info ovp"
      "bi_id (ovp_block_info ovp) = b_id (ovp_block ovp)" "verify_qc cr (ovp_quorum_cert ovp) sr1 = Inr ()"
    using assms(1) by (auto simp: verify_order_vote_proposal_def Let_def result_simps split: if_splits)
  note rd = on_storage_safety_data [OF d assms(2)]
  show thesis using that [of d] rd(2) * only_readsD [OF rd(1)] by (auto simp: verify_qc_Inr)
qed

lemma order_vote_proposal_reads:
  "verify_order_vote_proposal cr ovp sr = (r1, sr1) \<Longrightarrow> on_storage pss_safety_data sr1 = (r2, sr2) \<Longrightarrow> sr_coherent sr \<Longrightarrow>
     only_reads sr sr2"
  using only_reads_trans only_readsD(2) verify_order_vote_proposal_reads on_storage_safety_data(1) by meson

lemma construct_order_vote_effect:
  assumes "guarded_construct_and_sign_order_vote env ovp sr = (r, sr')" "sr_coherent sr"
  shows "same_config sr sr' \<and> sr_coherent sr' \<and>
    ((\<exists>e. r = Inl e) \<and> sr_durable sr' = sr_durable sr \<or>
     (\<exists>d ov. sr_durable sr = Some d \<and> r = Inr ov \<and> ov_ledger_info ov = ledger_info_new (ovp_block_info ovp) 0 \<and>
        order_vote_allowed env ovp sr d \<and> sr_durable sr' = Some (after_order_vote ovp d)))"
proof -
  consider (abort) "only_reads sr sr'" "\<exists>e. r = Inl e"
    | (failed) sr1 d sr2 e where "verify_order_vote_proposal (env_crypto env) ovp sr = (Inr (), sr1)"
      "on_storage pss_safety_data sr1 = (Inr d, sr2)"
      "on_storage (pss_set_safety_data (after_order_vote ovp d)) sr2 = (Inl e, sr')" "r = Inl e"
    | (written) sr1 d sr2 ov where "verify_order_vote_proposal (env_crypto env) ovp sr = (Inr (), sr1)"
      "on_storage pss_safety_data sr1 = (Inr d, sr2)" "safe_for_order_vote (ovp_block ovp) (after_order_vote ovp d) = Inr ()"
      "on_storage (pss_set_safety_data (after_order_vote ovp d)) sr2 = (Inr (), sr')" "r = Inr ov"
      "ov_ledger_info ov = ledger_info_new (ovp_block_info ovp) 0"
    using assms(1) unfolding guarded_construct_and_sign_order_vote_def Let_def after_order_vote_def [symmetric]
    by (elim sbind_eq_iff [THEN iffD1, elim_format] disjE exE conjE)
      (auto simp: result_simps assms(2) order_vote_new_with_signature_def
         dest: verify_order_vote_proposal_reads [OF _ assms(2)] order_vote_proposal_reads [OF _ _ assms(2)])
  then show ?thesis
  proof cases
    case abort
    then show ?thesis using only_readsD by blast
  next
    case failed
    note rd = only_readsD [OF order_vote_proposal_reads [OF failed(1,2) assms(2)]]
    show ?thesis
      using on_storage_set_safety_data [OF failed(3)] rd(1,3) same_config_trans failed(4) by auto
  next
    case written
    note r1 = verify_order_vote_proposal_reads [OF written(1) assms(2)]
    note r2 = on_storage_safety_data [OF written(2) only_readsD(2) [OF r1]]
    note rd = only_readsD [OF order_vote_proposal_reads [OF written(1,2) assms(2)]]
    have d: "sr_durable sr = Some d" using r2(2) only_readsD(3) [OF r1] by simp
    have "order_vote_allowed env ovp sr d"
      by (rule verify_order_vote_proposal_Inr [OF written(1) assms(2)])
        (use d written(3) in \<open>auto simp: order_vote_allowed_def safe_for_order_vote_def after_order_vote_def
           observe_qc_max result_simps\<close>)
    then show ?thesis
      using on_storage_set_safety_data [OF written(4)] rd(1) same_config_trans d written(5,6) by auto
  qed
qed

lemma start_epoch_effect:
  assumes "start_epoch w nw es sr = (r, sr')" "sr_coherent sr"
  shows "same_config sr sr' \<and> sr_coherent sr' \<and>
    ((\<exists>e. r = Inl e) \<and> sr_durable sr' = sr_durable sr \<or>
     r = Inr () \<and> (\<exists>d. sr_durable sr = Some d \<and>
       (sd_epoch d = es_epoch es \<and> sr_durable sr' = Some d \<or>
        sd_epoch d < es_epoch es \<and> sr_durable sr' = Some (safety_data_new (es_epoch es) 0 0 0 None 0))))"
proof -
  consider (abort) "only_reads sr sr'" "\<exists>e. r = Inl e"
    | (same) d where "on_storage pss_safety_data sr = (Inr d, sr')" "sd_epoch d = es_epoch es" "r = Inr ()"
    | (new) d sr1 where "on_storage pss_safety_data sr = (Inr d, sr1)" "sd_epoch d < es_epoch es"
      "on_storage (pss_set_safety_data (safety_data_new (es_epoch es) 0 0 0 None 0)) sr1 = (r, sr')"
    using assms(1) unfolding start_epoch_def Let_def
    by (elim sbind_eq_iff [THEN iffD1, elim_format] disjE exE conjE)
      (auto simp: result_simps split: if_splits dest: on_storage_safety_data(1) [OF _ assms(2)])
  then show ?thesis
  proof cases
    case abort
    then show ?thesis using only_readsD by blast
  next
    case same
    note rd = on_storage_safety_data [OF same(1) assms(2)]
    show ?thesis using rd(2) only_readsD [OF rd(1)] same(2,3) by auto
  next
    case new
    note rd = on_storage_safety_data [OF new(1) assms(2)] and eff = on_storage_set_safety_data [OF new(3)]
    show ?thesis
      using rd(2) only_readsD(1,3) [OF rd(1)] eff same_config_trans new(2) by (cases r) auto
  qed
qed

lemma reconcile_key_effect:
  assumes "reconcile_key env es author sr = (r, sr')"
  shows "sr_persistent_storage sr' = sr_persistent_storage sr \<and> sr_epoch_state sr' = sr_epoch_state sr \<and>
    sr_skip_sig_verify sr' = sr_skip_sig_verify sr"
  using assms
  by (auto simp: reconcile_key_def Let_def split: option.splits if_splits sum.splits sr_error.splits)

text \<open>
  Initialization either leaves the epoch alone or enters the epoch of the last ledger info of a
  verified proof, with fresh safety data if that epoch is new.
\<close>

definition proof_epoch_state :: "sr_env \<Rightarrow> safety_rules \<Rightarrow> epoch_change_proof \<Rightarrow> epoch_state \<Rightarrow> bool" where
  "proof_epoch_state env sr p es \<longleftrightarrow>
     (\<exists>w last_li. pss_waypoint (sr_persistent_storage sr) = Inr w \<and>
        epoch_change_proof_verify (cr_ledger_info (env_crypto env)) (waypoint_verifier (env_waypoint_hasher env) w) p =
          Inr last_li \<and>
        li_next_epoch_state (lis_ledger_info last_li) = Some es)"

definition enters_epoch :: "epoch_state \<Rightarrow> safety_rules \<Rightarrow> safety_rules \<Rightarrow> bool" where
  "enters_epoch es sr sr' \<longleftrightarrow>
     sr_epoch_state sr' = Some es \<and>
     (\<exists>d. sr_durable sr = Some d \<and>
       (sd_epoch d = es_epoch es \<and> sr_durable sr' = Some d \<or>
        sd_epoch d < es_epoch es \<and> sr_durable sr' = Some (safety_data_new (es_epoch es) 0 0 0 None 0)))"

lemma initialize_effect:
  assumes "guarded_initialize env p sr = (r, sr')" "sr_coherent sr"
  shows "sr_coherent sr' \<and> sr_skip_sig_verify sr' = sr_skip_sig_verify sr \<and>
    pss_enable_cached_safety_data (sr_persistent_storage sr') = pss_enable_cached_safety_data (sr_persistent_storage sr) \<and>
    ((\<exists>e. r = Inl e) \<and> sr_epoch_state sr' = sr_epoch_state sr \<and> sr_durable sr' = sr_durable sr \<or>
     (\<exists>es. proof_epoch_state env sr p es \<and> enters_epoch es sr sr'))"
proof -
  define W where "W w nw = (if wp_version nw > wp_version w then on_storage (pss_set_waypoint nw) else sreturn ())" for w nw :: waypoint
  have W: "same_config sr sr1 \<and> sr_coherent sr1 \<and> sr_durable sr1 = sr_durable sr" if "W w nw sr = (r1, sr1)" for w nw r1 sr1
    using that assms(2) on_storage_set_waypoint
    by (auto simp: W_def result_simps same_config_def split: if_splits)
  consider (early) "\<exists>e. r = Inl e" "sr' = sr"
    | (waypoint) w nw e where "W w nw sr = (Inl e, sr')" "r = Inl e"
    | (epoch) w nw es e sr1 where "W w nw sr = (Inr (), sr1)" "start_epoch w nw es sr1 = (Inl e, sr')" "r = Inl e"
    | (entered) w nw es sr1 sr2 where "proof_epoch_state env sr p es" "W w nw sr = (Inr (), sr1)"
       "start_epoch w nw es sr1 = (Inr (), sr2)" "sr_epoch_state sr' = Some es"
       "sr_persistent_storage sr' = sr_persistent_storage sr2" "sr_skip_sig_verify sr' = sr_skip_sig_verify sr2"
    using assms(1) unfolding guarded_initialize_def Let_def W_def [symmetric]
    by (elim sbind_eq_iff [THEN iffD1, elim_format] disjE exE conjE)
      (auto simp: result_simps set_epoch_state_def proof_epoch_state_def dest!: reconcile_key_effect)
  then show ?thesis
  proof cases
    case early
    then show ?thesis using assms(2) by simp
  next
    case waypoint
    then show ?thesis using W [OF waypoint(1)] by (simp add: same_config_def)
  next
    case epoch
    then show ?thesis using W [OF epoch(1)] start_epoch_effect [OF epoch(2)] by (simp add: same_config_def)
  next
    case entered
    have "enters_epoch es sr sr'"
      using W [OF entered(2)] start_epoch_effect [OF entered(3)] entered(4,5) by (simp add: enters_epoch_def)
    then show ?thesis
      using W [OF entered(2)] start_epoch_effect [OF entered(3)] entered(1,5,6) by (auto simp: same_config_def)
  qed
qed

lemma reading_operations:
  assumes "sr_coherent sr"
  shows "guarded_consensus_state sr = (r1, sr') \<Longrightarrow> only_reads sr sr'"
    and "guarded_sign_proposal env bd sr = (r2, sr') \<Longrightarrow> only_reads sr sr'"
    and "guarded_sign_commit_vote env liws li sr = (r2, sr') \<Longrightarrow> only_reads sr sr'"
proof -
  assume "guarded_consensus_state sr = (r1, sr')"
  then show "only_reads sr sr'" unfolding guarded_consensus_state_def
    by (elim sbind_eq_iff [THEN iffD1, elim_format] disjE exE conjE)
      (auto simp: result_simps assms dest: on_storage_safety_data(1) [OF _ assms] on_storage_safety_data(1) only_readsD(2)
        intro: only_reads_trans)
next
  assume "guarded_sign_proposal env bd sr = (r2, sr')"
  then show "only_reads sr sr'" unfolding guarded_sign_proposal_def
    by (elim sbind_eq_iff [THEN iffD1, elim_format] disjE exE conjE)
      (auto simp: result_simps assms dest: on_storage_safety_data(1) [OF _ assms])
next
  assume "guarded_sign_commit_vote env liws li sr = (r2, sr')"
  then show "only_reads sr sr'" using assms by (auto simp: guarded_sign_commit_vote_def Let_def result_simps)
qed

section \<open>Safety data only moves forward\<close>

definition sd_le :: "safety_data \<Rightarrow> safety_data \<Rightarrow> bool" where
  "sd_le d d' \<longleftrightarrow>
     sd_epoch d < sd_epoch d' \<or>
     sd_epoch d = sd_epoch d' \<and> sd_last_voted_round d \<le> sd_last_voted_round d' \<and>
       sd_preferred_round d \<le> sd_preferred_round d' \<and> sd_one_chain_round d \<le> sd_one_chain_round d' \<and>
       sd_highest_timeout_round d \<le> sd_highest_timeout_round d'"

definition durable_le :: "safety_data option \<Rightarrow> safety_data option \<Rightarrow> bool" where
  "durable_le o1 o2 \<longleftrightarrow> (\<forall>d. o1 = Some d \<longrightarrow> (\<exists>d'. o2 = Some d' \<and> sd_le d d'))"

lemma sd_le_refl [simp]: "sd_le d d" by (simp add: sd_le_def)

lemma sd_le_trans: "sd_le d1 d2 \<Longrightarrow> sd_le d2 d3 \<Longrightarrow> sd_le d1 d3"
  by (fastforce simp: sd_le_def)

lemma durable_le_refl [simp]: "durable_le m m" by (simp add: durable_le_def)

lemma durable_le_trans: "durable_le o1 o2 \<Longrightarrow> durable_le o2 o3 \<Longrightarrow> durable_le o1 o3"
  by (fastforce simp: durable_le_def intro: sd_le_trans)

lemma sd_le_after:
  "timeout_allowed t tc d \<Longrightarrow> sd_le d (after_timeout t d)"
  "vote_allowed b tc d \<Longrightarrow> sd_le d (after_vote b v d)"
  "sd_le d (after_order_vote ovp d)"
  "sd_epoch d < e \<Longrightarrow> sd_le d (safety_data_new e 0 0 0 None 0)"
  by (auto simp: sd_le_def timeout_allowed_def after_timeout_def vote_allowed_def after_vote_def
      after_order_vote_def observe_qc_max safety_data_new_def)

lemma only_reads_effect:
  "only_reads sr sr' \<Longrightarrow>
     sr_coherent sr' \<and> durable_le (sr_durable sr) (sr_durable sr') \<and> sr_skip_sig_verify sr' = sr_skip_sig_verify sr \<and>
     pss_enable_cached_safety_data (sr_persistent_storage sr') = pss_enable_cached_safety_data (sr_persistent_storage sr)"
  by (simp add: only_reads_def same_config_def)

lemma handle_message_effect:
  assumes "handle_message env now input sr = (out, sr')" "sr_coherent sr"
  shows "sr_coherent sr' \<and> durable_le (sr_durable sr) (sr_durable sr') \<and>
    sr_skip_sig_verify sr' = sr_skip_sig_verify sr \<and>
    pss_enable_cached_safety_data (sr_persistent_storage sr') = pss_enable_cached_safety_data (sr_persistent_storage sr)"
proof (cases input)
  case (Initialize p)
  then obtain r where r: "guarded_initialize env p sr = (r, sr')"
    using assms(1) by (auto simp: handle_message_def map_prod_def split: prod.splits)
  then show ?thesis
    using initialize_effect [OF r assms(2)] by (auto simp: enters_epoch_def durable_le_def sd_le_after)
next
  case (SignTimeoutWithQC t tc)
  then obtain r where r: "guarded_sign_timeout_with_qc env t tc sr = (r, sr')"
    using assms(1) by (auto simp: handle_message_def map_prod_def split: prod.splits)
  then show ?thesis
    using sign_timeout_effect [OF r assms(2)] by (auto simp: same_config_def durable_le_def sd_le_after)
next
  case (ConstructAndSignVoteTwoChain vp tc)
  then obtain r where r: "guarded_construct_and_sign_vote_two_chain env now vp tc sr = (r, sr')"
    using assms(1) by (auto simp: handle_message_def map_prod_def split: prod.splits)
  then show ?thesis
    using construct_vote_effect [OF r assms(2)] by (auto simp: same_config_def durable_le_def sd_le_after)
next
  case (ConstructAndSignOrderVote ovp)
  then obtain r where r: "guarded_construct_and_sign_order_vote env ovp sr = (r, sr')"
    using assms(1) by (auto simp: handle_message_def map_prod_def split: prod.splits)
  then show ?thesis
    using construct_order_vote_effect [OF r assms(2)] by (auto simp: same_config_def durable_le_def sd_le_after)
qed (use assms in \<open>auto simp: handle_message_def map_prod_def split: prod.splits
  dest!: reading_operations [OF assms(2)] only_reads_effect\<close>)

text \<open>
  A process that stops and starts again keeps what is in the storage, and nothing else. The storage is
  reopened with its contents, as the file of the on-disk storage is; the in-memory storage, which
  does not outlive a process, is reopened in the same way.
\<close>

definition restart :: "safety_rules \<Rightarrow> safety_rules" where
  "restart sr =
     safety_rules_new
       (pss_new (pss_internal_store (sr_persistent_storage sr))
          (pss_enable_cached_safety_data (sr_persistent_storage sr)))
       (sr_skip_sig_verify sr)"

lemma restart_effect:
  "sr_coherent (restart sr)" "sr_durable (restart sr) = sr_durable sr"
  "sr_skip_sig_verify (restart sr) = sr_skip_sig_verify sr" "sr_epoch_state (restart sr) = None"
  "sr_validator_signer (restart sr) = None"
  "pss_enable_cached_safety_data (sr_persistent_storage (restart sr)) = pss_enable_cached_safety_data (sr_persistent_storage sr)"
  by (simp_all add: restart_def safety_rules_new_def) (simp_all add: pss_new_def)

end
