(* ===== verification/Signing_History.thy ===== *)
theory Signing_History
  imports Safety_Rules
begin

text \<open>
  What one validator signs over its lifetime, whatever it is asked, with storage faults and
  restarts in between. A run of the service of \<open>Safety_Rules\<close> leaves a history of signed
  messages; the lemmas relate the history to the durable safety data.
\<close>

section \<open>Runs of one validator\<close>

text \<open>
  The signed messages that the protocol counts. An order vote is kept with the epoch and the
  round of the block that was presented, a commit vote with the ledger info it was based on.
\<close>

datatype signed =
    SignedVote vote_data ledger_info
  | SignedTimeout timeout_signing_repr
  | SignedOrderVote block_info u64 round_t
  | SignedCommitVote ledger_info ledger_info

fun signed_by :: "safety_rules_input \<Rightarrow> safety_rules_output \<Rightarrow> signed set" where
  "signed_by (ConstructAndSignVoteTwoChain vp tc) (OutVote (Inr v)) = {SignedVote (v_vote_data v) (v_ledger_info v)}"
| "signed_by (SignTimeoutWithQC t tc) (OutSignature (Inr s)) = {SignedTimeout (signing_format t)}"
| "signed_by (ConstructAndSignOrderVote ovp) (OutOrderVote (Inr ov)) =
     {SignedOrderVote (li_commit_info (ov_ledger_info ov)) (b_epoch (ovp_block ovp)) (b_round (ovp_block ovp))}"
| "signed_by (SignCommitVote old new) (OutSignature (Inr s)) = {SignedCommitVote (lis_ledger_info old) new}"
| "signed_by _ _ = {}"

lemma signed_by_cases:
  assumes "m \<in> signed_by input out"
  obtains (vote) vp tc v where "input = ConstructAndSignVoteTwoChain vp tc" "out = OutVote (Inr v)"
      "m = SignedVote (v_vote_data v) (v_ledger_info v)"
  | (timeout) t tc s where "input = SignTimeoutWithQC t tc" "out = OutSignature (Inr s)" "m = SignedTimeout (signing_format t)"
  | (order) ovp ov where "input = ConstructAndSignOrderVote ovp" "out = OutOrderVote (Inr ov)"
      "m = SignedOrderVote (li_commit_info (ov_ledger_info ov)) (b_epoch (ovp_block ovp)) (b_round (ovp_block ovp))"
  | (commit) old new s where "input = SignCommitVote old new" "out = OutSignature (Inr s)"
      "m = SignedCommitVote (lis_ledger_info old) new"
  using assms by (cases "(input, out)" rule: signed_by.cases) auto

datatype node_step = Request u64 safety_rules_input | Restart

fun node_exec :: "sr_env \<Rightarrow> node_step \<Rightarrow> safety_rules \<Rightarrow> signed set \<times> safety_rules" where
  "node_exec env (Request now input) sr =
     (case handle_message env now input sr of (out, sr') \<Rightarrow> (signed_by input out, sr'))"
| "node_exec env Restart sr = ({}, restart sr)"

fun run_node :: "sr_env \<Rightarrow> node_step list \<Rightarrow> signed set \<Rightarrow> safety_rules \<Rightarrow> signed set \<times> safety_rules" where
  "run_node env [] hist sr = (hist, sr)"
| "run_node env (s # steps) hist sr =
     (case node_exec env s sr of (new, sr') \<Rightarrow> run_node env steps (hist \<union> new) sr')"

section \<open>What the safety data says about the history\<close>

abbreviation vote_data_epoch :: "vote_data \<Rightarrow> u64" where "vote_data_epoch vd \<equiv> bi_epoch (vd_proposed vd)"
abbreviation vote_data_round :: "vote_data \<Rightarrow> round_t" where "vote_data_round vd \<equiv> bi_round (vd_proposed vd)"
abbreviation vote_data_parent_round :: "vote_data \<Rightarrow> round_t" where
  "vote_data_parent_round vd \<equiv> bi_round (vd_parent vd)"

text \<open>The safety data bounds every message of its epoch; older epochs are closed.\<close>

fun covered :: "safety_data \<Rightarrow> signed \<Rightarrow> bool" where
  "covered d (SignedVote vd li) \<longleftrightarrow>
     vote_data_epoch vd < sd_epoch d \<or>
     vote_data_epoch vd = sd_epoch d \<and> vote_data_round vd \<le> sd_last_voted_round d \<and>
       vote_data_parent_round vd \<le> sd_one_chain_round d"
| "covered d (SignedTimeout t) \<longleftrightarrow>
     tsr_epoch t < sd_epoch d \<or>
     tsr_epoch t = sd_epoch d \<and> tsr_round t \<le> sd_last_voted_round d \<and> tsr_round t \<le> sd_highest_timeout_round d"
| "covered d (SignedOrderVote bi e r) \<longleftrightarrow>
     e < sd_epoch d \<or> e = sd_epoch d \<and> bi_round bi \<le> sd_one_chain_round d"
| "covered d (SignedCommitVote old new) \<longleftrightarrow> True"

definition last_vote_signed :: "signed set \<Rightarrow> safety_data \<Rightarrow> bool" where
  "last_vote_signed hist d \<longleftrightarrow>
     (\<forall>v. sd_last_vote d = Some v \<longrightarrow>
        SignedVote (v_vote_data v) (v_ledger_info v) \<in> hist \<and> vote_data_epoch (v_vote_data v) = sd_epoch d)"

text \<open>
  What two messages of one validator never do: vote twice in a round, or time out of a round
  with a certificate older than what was voted or order-voted on up to that round.
\<close>

fun compatible :: "signed \<Rightarrow> signed \<Rightarrow> bool" where
  "compatible (SignedVote vd li) (SignedVote vd' li') \<longleftrightarrow>
     (vote_data_epoch vd = vote_data_epoch vd' \<and> vote_data_round vd = vote_data_round vd' \<longrightarrow> vd = vd' \<and> li = li')"
| "compatible (SignedVote vd li) (SignedTimeout t) \<longleftrightarrow>
     (vote_data_epoch vd = tsr_epoch t \<and> vote_data_round vd \<le> tsr_round t \<longrightarrow>
        vote_data_parent_round vd \<le> tsr_hqc_round t)"
| "compatible (SignedOrderVote bi e r) (SignedTimeout t) \<longleftrightarrow>
     (e = tsr_epoch t \<and> r \<le> tsr_round t \<longrightarrow> bi_round bi \<le> tsr_hqc_round t)"
| "compatible _ _ \<longleftrightarrow> True"

definition history_safe :: "signed set \<Rightarrow> bool" where
  "history_safe hist \<longleftrightarrow> (\<forall>m \<in> hist. \<forall>m' \<in> hist. compatible m m')"

definition node_inv :: "signed set \<Rightarrow> safety_rules \<Rightarrow> bool" where
  "node_inv hist sr \<longleftrightarrow>
     sr_coherent sr \<and> history_safe hist \<and>
     (\<forall>d. sr_durable sr = Some d \<longrightarrow> (\<forall>m \<in> hist. covered d m) \<and> last_vote_signed hist d)"

lemma covered_mono: "covered d m \<Longrightarrow> sd_le d d' \<Longrightarrow> covered d' m"
  by (cases m) (auto simp: sd_le_def)

lemma history_safe_insert:
  assumes "history_safe hist" "compatible m m" "\<And>m'. m' \<in> hist \<Longrightarrow> compatible m m' \<and> compatible m' m"
  shows "history_safe (insert m hist)"
  using assms by (auto simp: history_safe_def)

text \<open>A message that the new safety data covers, and that agrees with all the old ones.\<close>

lemma node_inv_signed:
  assumes inv: "node_inv hist sr" and old: "sr_durable sr = Some d" and new: "sr_durable sr' = Some d'" "sr_coherent sr'"
    and le: "sd_le d d'" and m: "covered d' m" "compatible m m" "\<And>m'. m' \<in> hist \<Longrightarrow> covered d m' \<Longrightarrow> compatible m m' \<and> compatible m' m"
    and lv: "last_vote_signed (insert m hist) d'"
  shows "node_inv (insert m hist) sr'"
  unfolding node_inv_def
proof (intro conjI allI impI)
  show "history_safe (insert m hist)"
    by (rule history_safe_insert) (use inv old m in \<open>auto simp: node_inv_def\<close>)
qed (use inv old new le m lv covered_mono in \<open>auto simp: node_inv_def\<close>)

lemma node_inv_unsigned:
  assumes "node_inv hist sr" "sr_coherent sr'" "durable_le (sr_durable sr) (sr_durable sr')"
    and "sr_durable sr = None \<Longrightarrow> sr_durable sr' = None"
    and "\<And>d d'. sr_durable sr = Some d \<Longrightarrow> sr_durable sr' = Some d' \<Longrightarrow> sd_last_vote d' = None \<or> sd_last_vote d' = sd_last_vote d \<and> sd_epoch d' = sd_epoch d"
  shows "node_inv hist sr'"
  unfolding node_inv_def
proof (intro conjI allI impI)
  fix d' assume d': "sr_durable sr' = Some d'"
  with assms(4) obtain d where d: "sr_durable sr = Some d" by fastforce
  with assms(3) d' have "sd_le d d'" by (auto simp: durable_le_def)
  then show "\<forall>m \<in> hist. covered d' m" using assms(1) d covered_mono by (auto simp: node_inv_def)
  show "last_vote_signed hist d'" using assms(1) assms(5) [OF d d'] d by (auto simp: node_inv_def last_vote_signed_def)
qed (use assms(1,2) in \<open>auto simp: node_inv_def\<close>)

section \<open>Every operation keeps the invariant\<close>

lemma gen_vote_data_facts:
  assumes "gen_vote_data H vp = Inr vd"
  shows "vote_data_epoch vd = b_epoch (vp_block vp)" "vote_data_round vd = b_round (vp_block vp)"
    "bi_id (vd_proposed vd) = b_id (vp_block vp)" "vd_parent vd = certified_block (b_quorum_cert (vp_block vp))"
  using assms
  by (auto simp: gen_vote_data_def vote_data_ordering_only_def vote_data_with_extension_proof_def vote_data_new_def
      gen_block_info_def block_info_new_def result_simps split: if_splits)

lemma node_inv_timeout:
  assumes inv: "node_inv hist sr" and d: "sr_durable sr = Some d" "timeout_allowed t tc d"
    and new: "sr_durable sr' = Some (after_timeout t d)" "sr_coherent sr'"
  shows "node_inv (insert (SignedTimeout (signing_format t)) hist) sr'"
proof (rule node_inv_signed [OF inv d(1) new])
  have one: "sd_one_chain_round d \<le> hqc_round t"
    using d(2) safe_to_timeout_Inr by (auto simp: timeout_allowed_def)
  show "covered (after_timeout t d) (SignedTimeout (signing_format t))"
    using d(2) by (simp add: timeout_allowed_def after_timeout_def signing_format_def)
  fix m' assume "covered d m'"
  then show "compatible (SignedTimeout (signing_format t)) m' \<and> compatible m' (SignedTimeout (signing_format t))"
    using d(2) one by (cases m') (auto simp: signing_format_def timeout_allowed_def)
next
  show "last_vote_signed (insert (SignedTimeout (signing_format t)) hist) (after_timeout t d)"
    using inv d(1) by (auto simp: node_inv_def last_vote_signed_def after_timeout_def)
qed (use d(2) in \<open>simp_all add: sd_le_after\<close>)

lemma node_inv_vote:
  assumes inv: "node_inv hist sr" and d: "sr_durable sr = Some d" "vote_allowed b tc d"
    and v: "vote_data_epoch (v_vote_data v) = b_epoch b" "vote_data_round (v_vote_data v) = b_round b"
      "vd_parent (v_vote_data v) = certified_block (b_quorum_cert b)"
    and new: "sr_durable sr' = Some (after_vote b v d)" "sr_coherent sr'"
  shows "node_inv (insert (SignedVote (v_vote_data v) (v_ledger_info v)) hist) sr'"
proof (rule node_inv_signed [OF inv d(1) new])
  let ?m = "SignedVote (v_vote_data v) (v_ledger_info v)"
  show "covered (after_vote b v d) ?m" "last_vote_signed (insert ?m hist) (after_vote b v d)"
    using d(2) v by (auto simp: vote_allowed_def after_vote_def last_vote_signed_def)
  have b: "b_epoch b = sd_epoch d" "sd_last_voted_round d < b_round b" using d(2) by (simp_all add: vote_allowed_def)
  have later: "r \<noteq> b_round b \<and> \<not> b_round b \<le> r" if "r \<le> sd_last_voted_round d" for r
    using that b(2) by auto
  fix m' assume "covered d m'"
  then show "compatible ?m m' \<and> compatible m' ?m"
    by (cases m') (auto simp: v b(1) dest: later)
qed (use d(2) in \<open>simp_all add: sd_le_after\<close>)

lemma node_inv_order_vote:
  assumes inv: "node_inv hist sr" and d: "sr_durable sr = Some d" "order_vote_allowed env ovp sr d"
    and new: "sr_durable sr' = Some (after_order_vote ovp d)" "sr_coherent sr'"
  shows "node_inv (insert (SignedOrderVote (ovp_block_info ovp) (b_epoch (ovp_block ovp)) (b_round (ovp_block ovp))) hist) sr'"
proof (rule node_inv_signed [OF inv d(1) new])
  let ?m = "SignedOrderVote (ovp_block_info ovp) (b_epoch (ovp_block ovp)) (b_round (ovp_block ovp))"
  show "covered (after_order_vote ovp d) ?m" "last_vote_signed (insert ?m hist) (after_order_vote ovp d)"
    using inv d by (auto simp: order_vote_allowed_def after_order_vote_def observe_qc_max node_inv_def last_vote_signed_def)
  have b: "b_epoch (ovp_block ovp) = sd_epoch d" "sd_highest_timeout_round d < b_round (ovp_block ovp)"
    using d(2) by (simp_all add: order_vote_allowed_def)
  have later: "\<not> b_round (ovp_block ovp) \<le> r" if "r \<le> sd_highest_timeout_round d" for r
    using that b(2) by auto
  fix m' assume "covered d m'"
  then show "compatible ?m m' \<and> compatible m' ?m"
    by (cases m') (auto simp: b(1) dest: later)
qed (simp_all add: sd_le_after)

lemma node_inv_commit_vote:
  assumes "node_inv hist sr" "only_reads sr sr'"
  shows "node_inv (insert (SignedCommitVote old new) hist) sr'"
proof -
  have "compatible (SignedCommitVote old new) m \<and> compatible m (SignedCommitVote old new)" for m
    by (cases m) simp_all
  then have "history_safe (insert (SignedCommitVote old new) hist)"
    using assms(1) history_safe_insert by (auto simp: node_inv_def)
  then show ?thesis
    using assms only_readsD [OF assms(2)] by (auto simp: node_inv_def last_vote_signed_def)
qed

lemma node_inv_reads: "node_inv hist sr \<Longrightarrow> only_reads sr sr' \<Longrightarrow> node_inv hist sr'"
  using only_readsD by (auto simp: node_inv_def)

lemma node_inv_initialize:
  assumes inv: "node_inv hist sr" and r: "guarded_initialize env p sr = (r, sr')"
  shows "node_inv hist sr'"
proof (rule node_inv_unsigned [OF inv])
  have "sr_coherent sr" using inv by (simp add: node_inv_def)
  note eff = initialize_effect [OF r this]
  show "sr_coherent sr'" using eff by blast
  show "durable_le (sr_durable sr) (sr_durable sr')"
    using eff by (auto simp: enters_epoch_def durable_le_def sd_le_after)
  show "sr_durable sr = None \<Longrightarrow> sr_durable sr' = None" using eff by (auto simp: enters_epoch_def)
  show "sd_last_vote d' = None \<or> sd_last_vote d' = sd_last_vote d \<and> sd_epoch d' = sd_epoch d"
    if "sr_durable sr = Some d" "sr_durable sr' = Some d'" for d d'
    using eff that by (auto simp: enters_epoch_def safety_data_new_def)
qed

lemma node_inv_sign_timeout:
  assumes inv: "node_inv hist sr" and r: "guarded_sign_timeout_with_qc env t tc sr = (r, sr')"
  shows "node_inv (hist \<union> signed_by (SignTimeoutWithQC t tc) (OutSignature r)) sr'"
proof -
  have "sr_coherent sr" using inv by (simp add: node_inv_def)
  from sign_timeout_effect [OF r this] consider
    e where "r = Inl e" "sr_durable sr' = sr_durable sr" "sr_coherent sr'"
    | d where "sr_durable sr = Some d" "timeout_allowed t tc d" "sr_durable sr' = Some (after_timeout t d)" "sr_coherent sr'"
    by blast
  then show ?thesis
  proof cases
    case 1
    then show ?thesis using inv by (simp add: node_inv_def)
  next
    case 2
    show ?thesis
    proof (cases r)
      case (Inl e)
      have "node_inv hist sr'"
        by (rule node_inv_unsigned [OF inv])
          (use 2 in \<open>auto simp: durable_le_def sd_le_after\<close>, simp_all add: after_timeout_def)
      then show ?thesis using Inl by simp
    next
      case (Inr s)
      then show ?thesis using node_inv_timeout [OF inv 2] by simp
    qed
  qed
qed

lemma node_inv_construct_vote:
  assumes inv: "node_inv hist sr" and r: "guarded_construct_and_sign_vote_two_chain env now vp tc sr = (r, sr')"
  shows "node_inv (hist \<union> signed_by (ConstructAndSignVoteTwoChain vp tc) (OutVote r)) sr'"
proof -
  have "sr_coherent sr" using inv by (simp add: node_inv_def)
  from construct_vote_effect [OF r this] consider
    (failed) e where "r = Inl e" "sr_durable sr' = sr_durable sr" "sr_coherent sr'"
    | (old) d v where "r = Inr v" "sr_durable sr = Some d" "sd_last_vote d = Some v" "sr_durable sr' = Some d" "sr_coherent sr'"
    | (new) d v where "r = Inr v" "sr_durable sr = Some d" "vote_allowed (vp_block vp) tc d"
      "gen_vote_data (env_node_hasher env) vp = Inr (v_vote_data v)"
      "sr_durable sr' = Some (after_vote (vp_block vp) v d)" "sr_coherent sr'"
    unfolding proposal_verified_def by metis
  then show ?thesis
  proof cases
    case failed
    then show ?thesis using inv by (simp add: node_inv_def)
  next
    case old
    then have "SignedVote (v_vote_data v) (v_ledger_info v) \<in> hist"
      using inv by (auto simp: node_inv_def last_vote_signed_def)
    then show ?thesis using old inv by (simp add: node_inv_def insert_absorb)
  next
    case new
    then show ?thesis
      using node_inv_vote [OF inv new(2,3) _ _ _ new(5,6)] gen_vote_data_facts [OF new(4)] by simp
  qed
qed

lemma node_inv_construct_order_vote:
  assumes inv: "node_inv hist sr" and r: "guarded_construct_and_sign_order_vote env ovp sr = (r, sr')"
  shows "node_inv (hist \<union> signed_by (ConstructAndSignOrderVote ovp) (OutOrderVote r)) sr'"
proof -
  have "sr_coherent sr" using inv by (simp add: node_inv_def)
  from construct_order_vote_effect [OF r this] consider
    (failed) e where "r = Inl e" "sr_durable sr' = sr_durable sr" "sr_coherent sr'"
    | (new) d ov where "r = Inr ov" "sr_durable sr = Some d" "order_vote_allowed env ovp sr d"
      "ov_ledger_info ov = ledger_info_new (ovp_block_info ovp) 0"
      "sr_durable sr' = Some (after_order_vote ovp d)" "sr_coherent sr'"
    by blast
  then show ?thesis
  proof cases
    case failed
    then show ?thesis using inv by (simp add: node_inv_def)
  next
    case new
    then show ?thesis using node_inv_order_vote [OF inv new(2,3,5,6)] by (simp add: ledger_info_new_def)
  qed
qed

lemma node_inv_handle_message:
  assumes inv: "node_inv hist sr" and h: "handle_message env now input sr = (out, sr')"
  shows "node_inv (hist \<union> signed_by input out) sr'"
proof -
  have c: "sr_coherent sr" using inv by (simp add: node_inv_def)
  note rd = reading_operations [OF c]
  show ?thesis
  proof (cases input)
    case ConsensusState
    then show ?thesis using h rd(1) node_inv_reads [OF inv] by (auto simp: handle_message_def map_prod_def split: prod.splits)
  next
    case (Initialize p)
    then show ?thesis using h node_inv_initialize [OF inv] by (auto simp: handle_message_def map_prod_def split: prod.splits)
  next
    case (SignProposal bd)
    then show ?thesis using h rd(2) node_inv_reads [OF inv] by (auto simp: handle_message_def map_prod_def split: prod.splits)
  next
    case (SignTimeoutWithQC t tc)
    then show ?thesis using h node_inv_sign_timeout [OF inv] by (auto simp: handle_message_def map_prod_def split: prod.splits)
  next
    case (ConstructAndSignVoteTwoChain vp tc)
    then show ?thesis using h node_inv_construct_vote [OF inv] by (auto simp: handle_message_def map_prod_def split: prod.splits)
  next
    case (ConstructAndSignOrderVote ovp)
    then show ?thesis using h node_inv_construct_order_vote [OF inv] by (auto simp: handle_message_def map_prod_def split: prod.splits)
  next
    case (SignCommitVote old new)
    then obtain r where r: "guarded_sign_commit_vote env old new sr = (r, sr')" "out = OutSignature r"
      using h by (auto simp: handle_message_def map_prod_def split: prod.splits)
    then show ?thesis
      using SignCommitVote node_inv_commit_vote [OF inv rd(3)] node_inv_reads [OF inv rd(3)] by (cases r) auto
  qed
qed

lemma node_inv_restart: "node_inv hist sr \<Longrightarrow> node_inv hist (restart sr)"
  using restart_effect by (auto simp: node_inv_def)

lemma node_inv_run:
  "run_node env steps hist sr = (hist', sr') \<Longrightarrow> node_inv hist sr \<Longrightarrow> node_inv hist' sr' \<and> hist \<subseteq> hist'"
proof (induction steps arbitrary: hist sr)
  case (Cons s steps)
  obtain new sr1 where s: "node_exec env s sr = (new, sr1)" by (cases "node_exec env s sr")
  have "node_inv (hist \<union> new) sr1"
    using s Cons.prems(2) node_inv_handle_message node_inv_restart
    by (cases s) (auto split: prod.splits)
  then show ?case using Cons.IH Cons.prems(1) s by fastforce
qed simp

section \<open>A concrete run\<close>

text \<open>
  Each of the four validators of \<open>ex_verifier\<close> starts from an empty storage, enters epoch 1,
  votes for a block of round 1 on top of genesis and, shown its certificate, for its order.
\<close>

definition ex_env :: sr_env where
  "ex_env =
     \<lparr>env_crypto = ex_crypto,
      env_block_crypto = \<lparr>bc_hash = (\<lambda>_. 6), bc_bls = toy_bls\<rparr>,
      env_node_hasher = ex_hasher, env_waypoint_hasher = ex_hw,
      env_public_key_of = (\<lambda>_. []), env_hex_encode = (\<lambda>_. [])\<rparr>"

lemma ex_env_simps [simp]:
  "env_crypto ex_env = ex_crypto"
  "env_block_crypto ex_env = \<lparr>bc_hash = (\<lambda>_. 6), bc_bls = toy_bls\<rparr>"
  "env_waypoint_hasher ex_env = ex_hw" "env_public_key_of ex_env sk = []"
  by (simp_all add: ex_env_def)

definition ex_data :: "account_address \<Rightarrow> safety_data \<Rightarrow> string \<rightharpoonup> document get_response" where
  "ex_data a d =
     [CONSENSUS_KEY \<mapsto> \<lparr>gr_last_update = 0, gr_value = PrivateKeyDoc []\<rparr>,
      OWNER_ACCOUNT \<mapsto> \<lparr>gr_last_update = 0, gr_value = AuthorDoc a\<rparr>,
      WAYPOINT \<mapsto> \<lparr>gr_last_update = 0, gr_value = WaypointDoc ex_waypoint\<rparr>,
      SAFETY_DATA \<mapsto> \<lparr>gr_last_update = 0, gr_value = SafetyDataDoc d\<rparr>]"

definition ex_storage :: "account_address \<Rightarrow> safety_data \<Rightarrow> persistent_safety_storage" where
  "ex_storage a d =
     \<lparr>pss_enable_cached_safety_data = True, pss_cached_safety_data = Some d,
      pss_internal_store = InMemoryStorage \<lparr>ims_data = ex_data a d, ims_time_service = 0\<rparr>\<rparr>"

definition ex_empty_store :: "document storage" where
  "ex_empty_store = InMemoryStorage \<lparr>ims_data = Map.empty, ims_time_service = 0\<rparr>"

abbreviation ex_sd0 :: safety_data where "ex_sd0 \<equiv> safety_data_new 1 0 0 0 None 0"

lemma ex_initialize_storage: "pss_initialize ex_empty_store a [] ex_waypoint True = Some (ex_storage a ex_sd0)"
proof -
  have "(\<lambda>k. if k = SAFETY_DATA then ex_data a ex_sd0 k else if k = WAYPOINT then ex_data a ex_sd0 k else
    if k = OWNER_ACCOUNT then ex_data a ex_sd0 k else if k = CONSENSUS_KEY then ex_data a ex_sd0 k else None) = ex_data a ex_sd0"
    by (rule ext) (simp add: ex_data_def)
  moreover have "[CONSENSUS_KEY \<mapsto> \<lparr>gr_last_update = 0, gr_value = PrivateKeyDoc []\<rparr>,
      OWNER_ACCOUNT \<mapsto> \<lparr>gr_last_update = 0, gr_value = AuthorDoc a\<rparr>,
      SAFETY_DATA \<mapsto> \<lparr>gr_last_update = 0, gr_value = SafetyDataDoc ex_sd0\<rparr>,
      WAYPOINT \<mapsto> \<lparr>gr_last_update = 0, gr_value = WaypointDoc ex_waypoint\<rparr>] = ex_data a ex_sd0"
    by (rule ext) (simp add: ex_data_def)
  ultimately show ?thesis
    by (simp add: pss_initialize_def initialize_keys_and_accounts_def ex_empty_store_def in_memory_set_def Let_def
        pss_set_safety_data_def pss_set_waypoint_def sbind_def ex_storage_def)
qed

lemma ex_storage_reads [simp]:
  "pss_safety_data (ex_storage a d) = (Inr d, ex_storage a d)"
  "pss_waypoint (ex_storage a d) = Inr ex_waypoint" "pss_author (ex_storage a d) = Inr a"
  "default_consensus_sk (ex_storage a d) = Inr []"
  by (simp_all add: ex_storage_def pss_safety_data_def pss_waypoint_def pss_author_def default_consensus_sk_def
      get_value_def in_memory_get_def ex_data_def ok_or_def)

lemma ex_consensus_sk:
  "consensus_sk_by_pk (env_hex_encode ex_env) (env_public_key_of ex_env) (ex_storage a d) [] = Inr []"
proof -
  have "get_value as_private_key (pss_internal_store (ex_storage a d)) (CONSENSUS_KEY @ ''_'') =
    Inl (KeyNotSet (CONSENSUS_KEY @ ''_''))"
    by (simp add: get_value_def ex_storage_def in_memory_get_def ok_or_def ex_data_def CONSENSUS_KEY_def
        OWNER_ACCOUNT_def WAYPOINT_def SAFETY_DATA_def)
  moreover have "env_hex_encode ex_env [] = []" by (simp add: ex_env_def)
  ultimately show ?thesis by (simp add: consensus_sk_by_pk_def Let_def)
qed

lemma ex_storage_set [simp]: "pss_set_safety_data d' (ex_storage a d) = (Inr (), ex_storage a d')"
  by (simp add: ex_storage_def pss_set_safety_data_def in_memory_set_def ex_data_def)

definition ex_sr :: "account_address \<Rightarrow> safety_data \<Rightarrow> safety_rules" where
  "ex_sr a d =
     \<lparr>sr_persistent_storage = ex_storage a d,
      sr_validator_signer = Some \<lparr>vs_author = a, vs_private_key = []\<rparr>,
      sr_epoch_state = Some (ex_epoch_state 1), sr_skip_sig_verify = False\<rparr>"

definition ex_start :: "account_address \<Rightarrow> safety_rules" where
  "ex_start a = safety_rules_new (ex_storage a ex_sd0) False"

definition ex_proof :: epoch_change_proof where
  "ex_proof = \<lparr>ecp_ledger_info_with_sigs = [ex_genesis], ecp_more = False\<rparr>"

text \<open>Initialization, right at the start or after a restart, whether the cache is filled or not.\<close>

lemma ex_handle_initialize:
  assumes "a \<in> {1, 2, 3, 4}" "sd_epoch d = 1" "c \<in> {None, Some d}"
  shows "handle_message ex_env 0 (Initialize ex_proof)
      (safety_rules_new ((ex_storage a d)\<lparr>pss_cached_safety_data := c\<rparr>) False) = (OutUnit (Inr ()), ex_sr a d)"
proof -
  let ?p = "(ex_storage a d)\<lparr>pss_cached_safety_data := c\<rparr>"
  have v: "epoch_change_proof_verify toy_bls (waypoint_verifier ex_hw ex_waypoint) ex_proof = Inr ex_genesis"
    by (simp add: epoch_change_proof_verify_def ex_proof_def waypoint_verifier_def waypoint_verify_def ex_waypoint_def
        waypoint_new_any_def) (simp add: ex_genesis_def)
  have li: "li_next_epoch_state (lis_ledger_info ex_genesis) = Some (ex_epoch_state 1)" by (simp add: ex_genesis_def)
  have w: "new_epoch_boundary ex_hw (lis_ledger_info ex_genesis) = Inr ex_waypoint"
    by (simp add: new_epoch_boundary_def ends_epoch_def li ex_waypoint_def)
  have k: "get_public_key ex_verifier a = Some []"
    using assms(1) by (auto simp: get_public_key_def ex_index ex_info_def)
  have p: "pss_waypoint ?p = Inr ex_waypoint" "pss_safety_data ?p = (Inr d, ex_storage a d)"
    using assms(3) by (auto simp: ex_storage_def pss_waypoint_def pss_safety_data_def get_value_def in_memory_get_def
        ex_data_def ok_or_def)
  show ?thesis
    by (simp add: handle_message_def guarded_initialize_def safety_rules_new_def sbind_def sread_def slift_def
        v li w p sr_from_anyhow_def ok_or_def sreturn_def start_epoch_def on_storage_def Let_def assms(2)
        set_epoch_state_def reconcile_key_def k ex_consensus_sk ex_sr_def)
qed

lemma ex_handle_first_initialize:
  "a \<in> {1, 2, 3, 4} \<Longrightarrow>
     handle_message ex_env 0 (Initialize ex_proof) (ex_start a) = (OutUnit (Inr ()), ex_sr a ex_sd0)"
  using ex_handle_initialize [of a ex_sd0 "Some ex_sd0"]
  by (simp add: ex_start_def) (simp add: ex_storage_def safety_data_new_def)

lemma ex_handle_reinitialize:
  "a \<in> {1, 2, 3, 4} \<Longrightarrow> sd_epoch d = 1 \<Longrightarrow>
     handle_message ex_env 0 (Initialize ex_proof) (restart (ex_sr a d)) = (OutUnit (Inr ()), ex_sr a d)"
  using ex_handle_initialize [of a d None] by (simp add: restart_def ex_sr_def ex_storage_def pss_new_def)

definition ex_block :: block where
  "ex_block = block_new_nil (env_block_crypto ex_env) 1 ex_genesis_qc []"

definition ex_proposal :: vote_proposal where
  "ex_proposal =
     \<lparr>vp_accumulator_extension_proof = \<lparr>aep_frozen_subtree_roots = [], aep_num_leaves = 0, aep_leaves = []\<rparr>, vp_block = ex_block, vp_next_epoch_state = None,
      vp_decoupled_execution = True\<rparr>"

definition ex_sd1 :: "account_address \<Rightarrow> safety_data" where
  "ex_sd1 a = safety_data_new 1 1 0 0 (Some (ex_vote a)) 0"

lemma ex_block_simps [simp]:
  "b_epoch ex_block = 1" "b_round ex_block = 1" "b_id ex_block = 6" "b_quorum_cert ex_block = ex_genesis_qc"
  "b_timestamp_usecs ex_block = 9" "bd_block_type (b_block_data ex_block) = NilBlock []" "bd_round (b_block_data ex_block) = 1"
  by (simp_all add: ex_block_def block_new_nil_def block_of_data_def bd_new_nil_def b_epoch_def b_round_def
      b_quorum_cert_def b_timestamp_usecs_def block_data_hash_def)

lemma ex_block_well_formed: "block_verify_well_formed now ex_block = Inr ()"
  by (simp add: block_verify_well_formed_def Let_def is_genesis_block_def is_nil_block_def verify_payload_suffix_def
      b_payload_def bd_payload_def verify_failed_authors_def bd_failed_authors_def verify_timestamp_def
      has_reconfiguration_def round_plus_one_def checked_add_def checked_sub_def ok_or_def)

lemma ex_gen_vote_data: "gen_vote_data H ex_proposal = Inr ex_vote_data"
  by (simp add: gen_vote_data_def ex_proposal_def vote_data_ordering_only_def gen_block_info_def ex_vote_data_def
      ex_block_info_def)

lemma ex_checked_add_one [simp]: "checked_add (0 :: u64) 1 = Some 1" "checked_add (1 :: u64) 1 = Some 2"
  by (simp_all add: checked_add_def)

lemma ex_handle_vote:
  "handle_message ex_env 0 (ConstructAndSignVoteTwoChain ex_proposal None) (ex_sr a ex_sd0) =
     (OutVote (Inr (ex_vote a)), ex_sr a (ex_sd1 a))"
proof -
  have "verify_proposal ex_env 0 ex_proposal (ex_sr a ex_sd0) = (Inr ex_vote_data, ex_sr a ex_sd0)"
    by (simp add: verify_proposal_def Let_def ex_gen_vote_data sbind_def on_storage_def ex_sr_def sread_def
        verify_epoch_def verify_qc_def get_epoch_state_def ok_or_def sr_from_anyhow_def ex_genesis_qc_verifies
        validate_signature_def ex_block_well_formed)
      (simp add: ex_proposal_def safety_data_new_def ex_genesis_qc_verifies ex_block_well_formed)
  moreover have "sign_new_vote (env_crypto ex_env) ex_block None ex_vote_data ex_sd0 (ex_sr a ex_sd0) =
    (Inr (ex_vote a), ex_sr a (ex_sd1 a))"
    by (simp add: sign_new_vote_def sbind_def slift_def sread_def Let_def verify_and_update_last_vote_round_def
        safe_to_vote_def next_round_def ok_or_def get_signer_def ex_sr_def construct_ledger_info_2chain_def
        sr_sign_def signer_sign_def on_storage_def sreturn_def observe_qc_def ex_sd1_def safety_data_new_def
        ex_vote_def ex_vote_li_def)
  ultimately show ?thesis
    by (simp add: handle_message_def guarded_construct_and_sign_vote_two_chain_def Let_def sbind_def sread_def
        get_signer_def ok_or_def verify_maybe_tc_def on_storage_def)
      (simp add: ex_sr_def safety_data_new_def ex_proposal_def)
qed

definition ex_order_proposal :: order_vote_proposal where
  "ex_order_proposal = \<lparr>ovp_block = ex_block, ovp_block_info = ex_block_info, ovp_quorum_cert = ex_qc\<rparr>"

definition ex_sd2 :: "account_address \<Rightarrow> safety_data" where
  "ex_sd2 a = safety_data_new 1 1 0 1 (Some (ex_vote a)) 0"

lemma ex_handle_order_vote:
  "handle_message ex_env 0 (ConstructAndSignOrderVote ex_order_proposal) (ex_sr a (ex_sd1 a)) =
     (OutOrderVote (Inr (ex_order_vote a)), ex_sr a (ex_sd2 a))"
  by (simp add: handle_message_def guarded_construct_and_sign_order_vote_def Let_def sbind_def sread_def get_signer_def
      ok_or_def ex_sr_def verify_order_vote_proposal_def on_storage_def verify_epoch_def ex_order_proposal_def
      verify_qc_def get_epoch_state_def sr_from_anyhow_def ex_qc_verifies slift_def safe_for_order_vote_def
      observe_qc_def sr_sign_def signer_sign_def sreturn_def ex_order_vote_def ex_sd1_def ex_sd2_def safety_data_new_def)

definition ex_steps :: "node_step list" where
  "ex_steps =
     [Request 0 (Initialize ex_proof), Request 0 (ConstructAndSignVoteTwoChain ex_proposal None),
      Request 0 (ConstructAndSignOrderVote ex_order_proposal)]"

definition ex_hist :: "signed set" where
  "ex_hist = {SignedVote ex_vote_data ex_vote_li, SignedOrderVote ex_block_info 1 1}"

lemma ex_order_vote_signed:
  "signed_by (ConstructAndSignOrderVote ex_order_proposal) (OutOrderVote (Inr (ex_order_vote a))) =
     {SignedOrderVote ex_block_info 1 1}"
  by (simp add: ex_order_vote_def order_vote_new_with_signature_def ledger_info_new_def ex_order_proposal_def)

lemma ex_run: "a \<in> {1, 2, 3, 4} \<Longrightarrow> run_node ex_env ex_steps {} (ex_start a) = (ex_hist, ex_sr a (ex_sd2 a))"
  unfolding ex_steps_def run_node.simps node_exec.simps
  by (simp only: ex_handle_first_initialize ex_handle_vote ex_handle_order_vote prod.case ex_order_vote_signed)
    (auto simp: ex_hist_def)

text \<open>The run goes on with a timeout of round 2, which carries the certificate of round 1.\<close>

lemma ex_words [simp]: "(1 :: u64) < 2" "\<not> (2 :: u64) \<le> 1" "(1 :: u64) \<le> 2" "\<not> (2 :: u64) < 1"
  by (simp_all add: word_less_nat_alt word_le_nat_alt)

definition ex_timeout :: two_chain_timeout where
  "ex_timeout = two_chain_timeout_new 1 2 ex_qc"

definition ex_sd3 :: "account_address \<Rightarrow> safety_data" where
  "ex_sd3 a = safety_data_new 1 2 0 1 (Some (ex_vote a)) 2"

lemma ex_timeout_simps [simp]:
  "tct_epoch ex_timeout = 1" "tct_round ex_timeout = 2" "hqc_round ex_timeout = 1" "tct_quorum_cert ex_timeout = ex_qc"
  by (simp_all add: ex_timeout_def two_chain_timeout_new_def hqc_round_def)

lemma ex_handle_timeout:
  "handle_message ex_env 0 (SignTimeoutWithQC ex_timeout None) (ex_sr a (ex_sd2 a)) =
     (OutSignature (Inr [1]), ex_sr a (ex_sd3 a))"
  by (simp add: handle_message_def guarded_sign_timeout_with_qc_def Let_def sbind_def sread_def get_signer_def ok_or_def
      ex_sr_def on_storage_def slift_def verify_epoch_def get_epoch_state_def two_chain_timeout_verify_def ex_qc_verifies
      sr_from_anyhow_def verify_maybe_tc_def safe_to_timeout_def next_round_def update_last_voted_round_for_timeout_def
      verify_and_update_last_vote_round_def update_highest_timeout_round_def sr_sign_def signer_sign_def
      ex_sd2_def ex_sd3_def safety_data_new_def)

definition ex_timeout_repr :: timeout_signing_repr where
  "ex_timeout_repr = \<lparr>tsr_epoch = 1, tsr_round = 2, tsr_hqc_round = 1\<rparr>"

definition ex_timeout_steps :: "node_step list" where
  "ex_timeout_steps =
     ex_steps @ [Restart, Request 0 (Initialize ex_proof), Request 0 (SignTimeoutWithQC ex_timeout None)]"

lemma run_node_append:
  "run_node env (steps @ steps') hist sr = (case run_node env steps hist sr of (hist', sr') \<Rightarrow> run_node env steps' hist' sr')"
  by (induction steps arbitrary: hist sr) (auto split: prod.splits)

lemma ex_run_timeout:
  assumes "a \<in> {1, 2, 3, 4}"
  shows "run_node ex_env ex_timeout_steps {} (ex_start a) = (ex_hist \<union> {SignedTimeout ex_timeout_repr}, ex_sr a (ex_sd3 a))"
proof -
  have "sd_epoch (ex_sd2 a) = 1" by (simp add: ex_sd2_def safety_data_new_def)
  moreover have "signing_format ex_timeout = ex_timeout_repr" by (simp add: signing_format_def ex_timeout_repr_def)
  ultimately show ?thesis
    using assms by (simp add: ex_timeout_steps_def run_node_append ex_run ex_handle_reinitialize ex_handle_timeout)
qed

section \<open>Properties\<close>

lemma fresh_node_inv:
  "pss_initialize store author sk w cached = Some p \<Longrightarrow> node_inv {} (safety_rules_new p skip)"
  by (simp add: safety_rules_new_def node_inv_def history_safe_def last_vote_signed_def pss_initialize_effect)
    (simp add: safety_data_new_def)

text \<open>C2. A validator never signs two different votes for the same epoch and round: not when it is
  asked for anything else in between, not when writes to its storage fail, and not when it restarts.\<close>

theorem never_votes_twice:
  assumes "pss_initialize store author sk w cached = Some p"
    and "run_node env steps {} (safety_rules_new p skip) = (hist, sr)"
    and "SignedVote vd li \<in> hist" "SignedVote vd' li' \<in> hist"
    and "bi_epoch (vd_proposed vd) = bi_epoch (vd_proposed vd')" "bi_round (vd_proposed vd) = bi_round (vd_proposed vd')"
  shows "vd = vd' \<and> li = li'"
proof -
  have "history_safe hist"
    using node_inv_run [OF assms(2) fresh_node_inv [OF assms(1)]] by (simp add: node_inv_def)
  then have "compatible (SignedVote vd li) (SignedVote vd' li')" using assms(3,4) unfolding history_safe_def by blast
  then show ?thesis using assms(5,6) by simp
qed

theorem never_votes_twice_witness:
  "ex_vote_data = ex_vote_data \<and> ex_vote_li = ex_vote_li"
  by (rule never_votes_twice [OF ex_initialize_storage ex_run [of 1, unfolded ex_start_def]])
    (simp_all add: ex_hist_def)

text \<open>C3. A validator that times out of a round claims a certificate at least as high as the parent of
  every block it voted for, and as every block it voted to order, up to that round.\<close>

theorem timeouts_cover_votes:
  assumes "pss_initialize store author sk w cached = Some p"
    and "run_node env steps {} (safety_rules_new p skip) = (hist, sr)"
    and "SignedTimeout t \<in> hist"
  shows "(\<forall>vd li. SignedVote vd li \<in> hist \<longrightarrow> bi_epoch (vd_proposed vd) = tsr_epoch t \<longrightarrow>
           bi_round (vd_proposed vd) \<le> tsr_round t \<longrightarrow> bi_round (vd_parent vd) \<le> tsr_hqc_round t) \<and>
    (\<forall>bi r. SignedOrderVote bi (tsr_epoch t) r \<in> hist \<longrightarrow> r \<le> tsr_round t \<longrightarrow> bi_round bi \<le> tsr_hqc_round t)"
proof -
  have "history_safe hist"
    using node_inv_run [OF assms(2) fresh_node_inv [OF assms(1)]] by (simp add: node_inv_def)
  then have "compatible m (SignedTimeout t)" if "m \<in> hist" for m
    using that assms(3) unfolding history_safe_def by blast
  then show ?thesis by fastforce
qed

theorem timeouts_cover_votes_witness:
  "SignedVote ex_vote_data ex_vote_li \<in> ex_hist \<and> bi_round (vd_parent ex_vote_data) \<le> tsr_hqc_round ex_timeout_repr \<and>
   SignedOrderVote ex_block_info 1 1 \<in> ex_hist \<and> bi_round ex_block_info \<le> tsr_hqc_round ex_timeout_repr"
proof -
  have t: "tsr_epoch ex_timeout_repr = 1" "tsr_round ex_timeout_repr = 2" by (simp_all add: ex_timeout_repr_def)
  have h: "SignedVote ex_vote_data ex_vote_li \<in> ex_hist" "SignedOrderVote ex_block_info 1 1 \<in> ex_hist"
    by (simp_all add: ex_hist_def)
  have "bi_epoch (vd_proposed ex_vote_data) = 1" "bi_round (vd_proposed ex_vote_data) = 1"
    by (simp_all add: ex_vote_data_def vote_data_new_def ex_block_info_def block_info_new_def)
  moreover note cover = timeouts_cover_votes [OF ex_initialize_storage ex_run_timeout [of 1, unfolded ex_start_def], of ex_timeout_repr]
  ultimately have "bi_round (vd_parent ex_vote_data) \<le> tsr_hqc_round ex_timeout_repr"
    using cover [THEN conjunct1, rule_format, of ex_vote_data ex_vote_li] h t by simp
  moreover have "bi_round ex_block_info \<le> tsr_hqc_round ex_timeout_repr"
    using cover [THEN conjunct2, rule_format, of ex_block_info 1] h t by simp
  ultimately show ?thesis using h by simp
qed

text \<open>C4. Whatever a validator is asked, and however often it restarts, its durable safety data stays and
  never goes back: the epoch never decreases, and within an epoch neither does any round.\<close>

theorem safety_data_never_goes_back:
  assumes "pss_initialize store author sk w cached = Some p"
    and "run_node env steps {} (safety_rules_new p skip) = (hist, sr)" "run_node env steps' hist sr = (hist', sr')"
  shows "\<exists>d d'. sr_durable sr = Some d \<and> sr_durable sr' = Some d' \<and> sd_le d d'"
proof -
  have run: "durable_le (sr_durable sr) (sr_durable sr') \<and> sr_coherent sr'"
    if "run_node env steps hist sr = (hist', sr')" "sr_coherent sr" for steps hist sr hist' sr'
    using that
  proof (induction steps arbitrary: hist sr)
    case (Cons s steps)
    obtain new sr1 where s: "node_exec env s sr = (new, sr1)" by (cases "node_exec env s sr")
    have "durable_le (sr_durable sr) (sr_durable sr1) \<and> sr_coherent sr1"
      using s Cons.prems(2) handle_message_effect restart_effect(1,2) by (cases s) (auto split: prod.splits)
    then show ?case using Cons.IH [of "hist \<union> new" sr1] Cons.prems(1) s durable_le_trans by auto
  qed simp
  note p = pss_initialize_effect [OF assms(1)]
  have "durable_le (sr_durable (safety_rules_new p skip)) (sr_durable sr) \<and> sr_coherent sr"
    by (rule run [OF assms(2)]) (simp add: safety_rules_new_def p)
  moreover from this have "durable_le (sr_durable sr) (sr_durable sr')" using run [OF assms(3)] by simp
  ultimately show ?thesis by (auto simp: durable_le_def safety_rules_new_def p(2))
qed

theorem safety_data_never_goes_back_witness:
  "\<exists>d d'. sr_durable (ex_start 1) = Some d \<and> sr_durable (ex_sr 1 (ex_sd2 1)) = Some d' \<and> sd_le d d'"
  by (rule safety_data_never_goes_back [OF ex_initialize_storage, where author = 1 and skip = False and env = ex_env
      and steps = "[]" and steps' = ex_steps and hist = "{}"])
    (simp_all add: ex_run, simp add: ex_start_def)

text \<open>C7. When a vote leaves the safety rules it is already in the storage, where a restarted process
  finds it, and the last voted round covers it.\<close>

theorem vote_stored_before_release:
  assumes "pss_initialize store author sk w cached = Some p"
    and "run_node env steps {} (safety_rules_new p skip) = (hist, sr)"
    and "handle_message env now (ConstructAndSignVoteTwoChain vp tc) sr = (OutVote (Inr v), sr')"
  shows "\<exists>d. sr_durable (restart sr') = Some d \<and> sd_last_vote d = Some v \<and>
    sd_epoch d = bi_epoch (vd_proposed (v_vote_data v)) \<and> bi_round (vd_proposed (v_vote_data v)) \<le> sd_last_voted_round d"
proof -
  have inv: "node_inv hist sr" using node_inv_run [OF assms(2) fresh_node_inv [OF assms(1)]] by simp
  note inv' = node_inv_handle_message [OF inv assms(3)]
  have "guarded_construct_and_sign_vote_two_chain env now vp tc sr = (Inr v, sr')"
    using assms(3) by (auto simp: handle_message_def map_prod_def split: prod.splits)
  from construct_vote_effect [OF this] inv obtain d where d: "sr_durable sr' = Some d" "sd_last_vote d = Some v"
    by (auto simp: node_inv_def after_vote_def)
  then have "covered d (SignedVote (v_vote_data v) (v_ledger_info v))" "sd_epoch d = bi_epoch (vd_proposed (v_vote_data v))"
    using inv' by (auto simp: node_inv_def last_vote_signed_def)
  then show ?thesis using d by (auto simp: restart_effect)
qed

theorem vote_stored_before_release_witness:
  "\<exists>d. sr_durable (restart (ex_sr 1 (ex_sd1 1))) = Some d \<and> sd_last_vote d = Some (ex_vote 1) \<and>
     sd_epoch d = bi_epoch (vd_proposed (v_vote_data (ex_vote 1))) \<and>
     bi_round (vd_proposed (v_vote_data (ex_vote 1))) \<le> sd_last_voted_round d"
  by (rule vote_stored_before_release [OF ex_initialize_storage, where author = 1 and skip = False
      and env = ex_env and steps = "[Request 0 (Initialize ex_proof)]", OF _ ex_handle_vote])
    (simp add: ex_start_def [symmetric] ex_handle_first_initialize)

lemma on_storage_cached:
  "pss_enable_cached_safety_data (sr_persistent_storage sr) \<Longrightarrow> pss_cached_safety_data (sr_persistent_storage sr) = Some d \<Longrightarrow>
     on_storage pss_safety_data sr = (Inr d, sr)"
  by (simp add: on_storage_def pss_safety_data_def)

lemma on_storage_fills_cache:
  "on_storage pss_safety_data sr = (Inr d, sr') \<Longrightarrow> pss_enable_cached_safety_data (sr_persistent_storage sr) \<Longrightarrow>
     pss_cached_safety_data (sr_persistent_storage sr') = Some d"
  "on_storage (pss_set_safety_data d) sr = (Inr u, sr') \<Longrightarrow> pss_cached_safety_data (sr_persistent_storage sr') = Some d"
  by (auto simp: on_storage_eq pss_safety_data_def pss_set_safety_data_def split: option.splits sum.splits prod.splits)

lemma run_node_enabled:
  "run_node env steps hist sr = (hist', sr') \<Longrightarrow> sr_coherent sr \<Longrightarrow>
     pss_enable_cached_safety_data (sr_persistent_storage sr') = pss_enable_cached_safety_data (sr_persistent_storage sr)"
proof (induction steps arbitrary: hist sr)
  case (Cons s steps)
  obtain new sr1 where s: "node_exec env s sr = (new, sr1)" by (cases "node_exec env s sr")
  have "sr_coherent sr1 \<and>
      pss_enable_cached_safety_data (sr_persistent_storage sr1) = pss_enable_cached_safety_data (sr_persistent_storage sr)"
    using s Cons.prems(2) handle_message_effect restart_effect(1,6) by (cases s) (auto split: prod.splits)
  then show ?case using Cons.IH [of "hist \<union> new" sr1] Cons.prems(1) s by simp
qed simp

lemma construct_vote_fills_cache:
  assumes r: "guarded_construct_and_sign_vote_two_chain env now vp tc sr = (Inr v, sr')"
    and sr: "pss_enable_cached_safety_data (sr_persistent_storage sr)" "sr_coherent sr"
  shows "\<exists>d. pss_cached_safety_data (sr_persistent_storage sr') = Some d"
proof -
  obtain vd sr1 sr2 d where vd: "verify_proposal env now vp sr = (Inr vd, sr1)" "on_storage pss_safety_data sr1 = (Inr d, sr2)"
    and cases: "sr' = sr2 \<or> sign_new_vote (env_crypto env) (vp_block vp) tc vd d sr2 = (Inr v, sr')"
    using r by (auto simp: guarded_construct_and_sign_vote_two_chain_def Let_def result_simps split: option.splits if_splits)
  have "pss_enable_cached_safety_data (sr_persistent_storage sr1)"
    using verify_proposal_reads [OF vd(1) sr(2)] sr(1) by (simp add: only_reads_def same_config_def)
  then have "pss_cached_safety_data (sr_persistent_storage sr2) = Some d" using on_storage_fills_cache(1) [OF vd(2)] by simp
  moreover have "\<exists>d. pss_cached_safety_data (sr_persistent_storage sr') = Some d"
    if "sign_new_vote (env_crypto env) (vp_block vp) tc vd d sr2 = (Inr v, sr')"
    using that on_storage_fills_cache(2) unfolding sign_new_vote_def Let_def by (fastforce simp: result_simps)
  ultimately show ?thesis using cases by auto
qed

lemma verify_proposal_again:
  assumes "verify_proposal env now vp sr = (Inr vd, sr1)" "sr_coherent sr" "sr_durable sr = Some d"
    and "same_config sr sr'" "on_storage pss_safety_data sr' = (Inr d', sr')" "sd_epoch d' = sd_epoch d"
  shows "verify_proposal env now vp sr' = (Inr vd, sr')"
proof -
  obtain d0 where d0: "on_storage pss_safety_data sr = (Inr d0, sr1)"
    using assms(1) by (auto simp: verify_proposal_def Let_def result_simps)
  note rd = on_storage_safety_data [OF d0 assms(2)]
  have "d0 = d" using rd(2) assms(3) by simp
  then show ?thesis
    using assms(1,4-6) d0 only_readsD(5,6) [OF rd(1)]
    by (auto simp: verify_proposal_def Let_def result_simps verify_qc_def get_epoch_state_def same_config_def split: if_splits)
qed

text \<open>C31. Asked again for a vote it has just given, with the cache enabled, a validator gives the same vote
  and its state does not change.\<close>

theorem vote_request_idempotent:
  assumes "pss_initialize store author sk w True = Some p"
    and "run_node env steps {} (safety_rules_new p skip) = (hist, sr)"
    and "handle_message env now (ConstructAndSignVoteTwoChain vp tc) sr = (OutVote (Inr v), sr')"
  shows "handle_message env now (ConstructAndSignVoteTwoChain vp tc) sr' = (OutVote (Inr v), sr')"
proof -
  have c: "sr_coherent sr" using node_inv_run [OF assms(2) fresh_node_inv [OF assms(1)]] by (simp add: node_inv_def)
  have en: "pss_enable_cached_safety_data (sr_persistent_storage sr)"
    using run_node_enabled [OF assms(2)] pss_initialize_effect [OF assms(1)] by (simp add: safety_rules_new_def)
  have r: "guarded_construct_and_sign_vote_two_chain env now vp tc sr = (Inr v, sr')"
    using assms(3) by (auto simp: handle_message_def map_prod_def split: prod.splits)
  have after: "sd_epoch (after_vote b v d) = sd_epoch d" "sd_last_vote (after_vote b v d) = Some v" for b v d
    by (simp_all add: after_vote_def)
  from construct_vote_effect [OF r c] obtain d d' where cfg: "same_config sr sr'" "sr_coherent sr'"
    and d: "sr_durable sr = Some d" "sr_durable sr' = Some d'" "sd_epoch d' = sd_epoch d" "sd_last_vote d' = Some v"
      "bi_round (vd_proposed (v_vote_data v)) = b_round (vp_block vp)"
    using after gen_vote_data_facts(2) unfolding proposal_verified_def by (metis Inl_Inr_False Inr_inject)
  obtain dc where dc: "pss_cached_safety_data (sr_persistent_storage sr') = Some dc"
    using construct_vote_fills_cache [OF r en c] by blast
  have "dc = d'" using dc cfg(2) d(2) by (auto simp: pss_coherent_def)
  then have rd: "on_storage pss_safety_data sr' = (Inr d', sr')"
    using on_storage_cached [of sr' d'] dc en cfg(1) by (simp add: same_config_def)
  obtain s vd sr1 where first: "get_signer sr = Inr s" "verify_proposal env now vp sr = (Inr vd, sr1)"
    "verify_maybe_tc (env_crypto env) tc sr1 = Inr ()"
    using r by (auto simp: guarded_construct_and_sign_vote_two_chain_def Let_def result_simps)
  have "verify_maybe_tc (env_crypto env) tc sr' = Inr ()"
    using first(3) only_readsD(5,6) [OF verify_proposal_reads [OF first(2) c]] cfg(1)
    by (auto simp: verify_maybe_tc_Inr verify_tc_Inr same_config_def)
  moreover have "get_signer sr' = Inr s" using first(1) cfg(1) by (simp add: get_signer_def same_config_def)
  ultimately have "guarded_construct_and_sign_vote_two_chain env now vp tc sr' = (Inr v, sr')"
    using verify_proposal_again [OF first(2) c d(1) cfg(1) rd d(3)] rd d(4,5)
    by (simp add: guarded_construct_and_sign_vote_two_chain_def Let_def sbind_def sread_def sreturn_def)
  then show ?thesis by (simp add: handle_message_def)
qed

theorem vote_request_idempotent_witness:
  "handle_message ex_env 0 (ConstructAndSignVoteTwoChain ex_proposal None) (ex_sr 1 (ex_sd1 1)) =
     (OutVote (Inr (ex_vote 1)), ex_sr 1 (ex_sd1 1))"
  by (rule vote_request_idempotent [OF ex_initialize_storage, where author = 1 and skip = False
      and steps = "[Request 0 (Initialize ex_proof)]", OF _ ex_handle_vote])
    (simp add: ex_start_def [symmetric] ex_handle_first_initialize)

text \<open>C32. A validator without its key, as it is after every restart, signs nothing: until it is
  initialized every request to sign is answered with an error.\<close>

theorem nothing_signed_without_key:
  assumes "sr_validator_signer sr = None" "handle_message env now input sr = (out, sr')"
  shows "signed_by input out = {} \<and>
    (\<forall>s. out \<noteq> OutSignature (Inr s)) \<and> (\<forall>v. out \<noteq> OutVote (Inr v)) \<and> (\<forall>ov. out \<noteq> OutOrderVote (Inr ov))"
proof -
  have "get_signer sr = Inl (NotInitialized ''validator_signer'')" using assms(1) by (simp add: get_signer_def ok_or_def)
  then have "guarded_sign_proposal env bd sr = (Inl (NotInitialized ''validator_signer''), sr)"
    "guarded_sign_timeout_with_qc env t tc sr = (Inl (NotInitialized ''validator_signer''), sr)"
    "guarded_construct_and_sign_vote_two_chain env now vp tc sr = (Inl (NotInitialized ''validator_signer''), sr)"
    "guarded_construct_and_sign_order_vote env ovp sr = (Inl (NotInitialized ''validator_signer''), sr)"
    "guarded_sign_commit_vote env old new sr = (Inl (NotInitialized ''validator_signer''), sr)" for bd t tc vp ovp old new
    by (simp_all add: guarded_sign_proposal_def guarded_sign_timeout_with_qc_def guarded_construct_and_sign_order_vote_def
        guarded_construct_and_sign_vote_two_chain_def guarded_sign_commit_vote_def Let_def sbind_def sread_def)
  then show ?thesis
    using assms(2) by (cases input) (auto simp: handle_message_def map_prod_def split: prod.splits)
qed

theorem nothing_signed_without_key_witness:
  "signed_by (ConstructAndSignVoteTwoChain ex_proposal None) (OutVote (Inl (NotInitialized ''validator_signer''))) = {} \<and>
   (\<forall>s. OutVote (Inl (NotInitialized ''validator_signer'')) \<noteq> OutSignature (Inr s)) \<and>
   (\<forall>v. OutVote (Inl (NotInitialized ''validator_signer'')) \<noteq> OutVote (Inr v)) \<and>
   (\<forall>ov. OutVote (Inl (NotInitialized ''validator_signer'')) \<noteq> OutOrderVote (Inr ov))"
  by (rule nothing_signed_without_key [of "restart (ex_sr 1 ex_sd0)" ex_env 0 _ _ "restart (ex_sr 1 ex_sd0)"])
    (simp_all add: restart_effect handle_message_def guarded_construct_and_sign_vote_two_chain_def Let_def sbind_def
      sread_def get_signer_def ok_or_def)

end
