(* ===== verification/Consensus_Safety.thy ===== *)
theory Consensus_Safety
  imports Signing_History
begin

text \<open>
  The safety of the protocol that the safety rules implement. Validators run the service of
  \<open>Safety_Rules\<close>, with or without \<open>skip_sig_verify\<close>, with storage faults and restarts; up to
  a third of the voting power of an epoch is faulty and signs whatever it likes. The theorem is
  that two ledger infos with the signatures of a quorum commit blocks of one chain.

  It is a theorem about the safety rules within the validator, not about the safety rules alone:
  there are checks that they leave to their callers. What is assumed of the cryptography is
  \<open>genuine_input\<close>, and what is assumed of the callers is \<open>caller_checks\<close>.
\<close>

section \<open>The system\<close>

text \<open>
  \<open>st_validators\<close> is the validator set of each epoch, \<open>st_block\<close> the epoch and the round
  of the block with a given id, and \<open>st_vote_data\<close> the vote data that occur: their hashes do
  not collide.
\<close>

record setting =
  st_env :: sr_env
  st_validators :: "u64 \<Rightarrow> validator_verifier"
  st_faulty :: "account_address set"
  st_block :: "hash_value \<Rightarrow> u64 \<times> round_t"
  st_vote_data :: "vote_data set"

abbreviation st_crypto :: "setting \<Rightarrow> crypto" where "st_crypto st \<equiv> env_crypto (st_env st)"
abbreviation st_hash :: "setting \<Rightarrow> vote_data \<Rightarrow> hash_value" where "st_hash st \<equiv> cr_vote_data_hash (st_crypto st)"

text \<open>An aggregate signature over several messages has one message for each key.\<close>

definition bls_pairs_up :: "'m bls \<Rightarrow> bool" where
  "bls_pairs_up bls \<longleftrightarrow> (\<forall>s ms pks. bls_verify_aggregate bls s ms pks \<longrightarrow> length ms = length pks)"

definition setting_ok :: "setting \<Rightarrow> bool" where
  "setting_ok st \<longleftrightarrow>
     (\<forall>e. verifier_wf (st_validators st e) \<and>
        3 * sum (power_of (st_validators st e)) (st_faulty st \<inter> members (st_validators st e))
          \<le> sum (power_of (st_validators st e)) (members (st_validators st e))) \<and>
     inj_on (st_hash st) (st_vote_data st) \<and> 0 \<notin> st_hash st ` st_vote_data st \<and>
     bls_pairs_up (cr_timeout (st_crypto st))"

type_synonym histories = "account_address \<Rightarrow> signed set"

record system =
  sys_history :: histories
  sys_node :: "account_address \<Rightarrow> safety_rules"

fun signs_ledger_info :: "signed \<Rightarrow> ledger_info \<Rightarrow> bool" where
  "signs_ledger_info (SignedVote vd li) L \<longleftrightarrow> li = L"
| "signs_ledger_info (SignedTimeout t) L \<longleftrightarrow> False"
| "signs_ledger_info (SignedOrderVote bi e r) L \<longleftrightarrow> ledger_info_new bi 0 = L"
| "signs_ledger_info (SignedCommitVote old new) L \<longleftrightarrow> new = L"

text \<open>
  Signatures are not forged: when an aggregate verifies, each of its signers that is not faulty
  has signed.
\<close>

definition li_unforged :: "setting \<Rightarrow> histories \<Rightarrow> ledger_info_with_signatures \<Rightarrow> bool" where
  "li_unforged st H s \<longleftrightarrow>
     (\<forall>e. verify_signatures (cr_ledger_info (st_crypto st)) (st_validators st e) s = Inr () \<longrightarrow>
        (\<forall>a \<in> set (aggregate_signature_authors (st_validators st e) (lis_signatures s)). a \<notin> st_faulty st \<longrightarrow>
           (\<exists>m \<in> H a. signs_ledger_info m (lis_ledger_info s))))"

definition tc_unforged :: "setting \<Rightarrow> histories \<Rightarrow> two_chain_timeout_certificate \<Rightarrow> bool" where
  "tc_unforged st H tc \<longleftrightarrow>
     (\<forall>e. timeout_certificate_verify (st_crypto st) (st_validators st e) tc = Inr () \<longrightarrow>
        (\<forall>(a, m) \<in> set (tc_signed (st_validators st e) tc). a \<notin> st_faulty st \<longrightarrow> SignedTimeout m \<in> H a))"

definition block_known :: "setting \<Rightarrow> block \<Rightarrow> bool" where
  "block_known st b \<longleftrightarrow> st_block st (b_id b) = (b_epoch b, b_round b)"

text \<open>
  The signatures of a request are not forged, its hashes do not collide, and a proof of epoch
  changes from the waypoint of the validator ends at the validator set of its epoch.
\<close>

fun genuine_input :: "setting \<Rightarrow> histories \<Rightarrow> safety_rules \<Rightarrow> safety_rules_input \<Rightarrow> bool" where
  "genuine_input st H sr (Initialize p) \<longleftrightarrow>
     (\<forall>es. proof_epoch_state (st_env st) sr p es \<longrightarrow> es_verifier es = st_validators st (es_epoch es))"
| "genuine_input st H sr (ConstructAndSignVoteTwoChain vp tc) \<longleftrightarrow>
     block_known st (vp_block vp) \<and> li_unforged st H (qc_signed_ledger_info (b_quorum_cert (vp_block vp))) \<and>
     qc_vote_data (b_quorum_cert (vp_block vp)) \<in> st_vote_data st \<and>
     (\<forall>vd. gen_vote_data (env_node_hasher (st_env st)) vp = Inr vd \<longrightarrow> vd \<in> st_vote_data st) \<and>
     (\<forall>c. tc = Some c \<longrightarrow> tc_unforged st H c)"
| "genuine_input st H sr (ConstructAndSignOrderVote ovp) \<longleftrightarrow>
     block_known st (ovp_block ovp) \<and> li_unforged st H (qc_signed_ledger_info (ovp_quorum_cert ovp)) \<and>
     qc_vote_data (ovp_quorum_cert ovp) \<in> st_vote_data st"
| "genuine_input st H sr (SignCommitVote old new) \<longleftrightarrow> li_unforged st H old"
| "genuine_input st H sr _ \<longleftrightarrow> True"

text \<open>
  What the safety rules do not check themselves. The timeout certificate of a proposal is of the
  epoch of the block, which \<open>SyncInfo::verify\<close> checks: it is verified against the validators of
  the epoch only, who may be those of an older epoch too. A commit vote is for an ordered block
  with a round, certified in its own epoch, and takes over the consensus data hash or none. If
  \<open>skip_sig_verify\<close> is set, as it is for the local safety rules, the certificates have been
  verified against the validators of the epoch before.
\<close>

fun caller_checks :: "setting \<Rightarrow> safety_rules \<Rightarrow> safety_rules_input \<Rightarrow> bool" where
  "caller_checks st sr (ConstructAndSignVoteTwoChain vp tc) \<longleftrightarrow>
     (\<forall>c. tc = Some c \<longrightarrow> tc_epoch c = b_epoch (vp_block vp)) \<and>
     (sr_skip_sig_verify sr \<longrightarrow>
        quorum_cert_verify (st_crypto st) (st_validators st (b_epoch (vp_block vp))) (b_quorum_cert (vp_block vp)) = Inr () \<and>
        (\<forall>c. tc = Some c \<longrightarrow>
           timeout_certificate_verify (st_crypto st) (st_validators st (b_epoch (vp_block vp))) c = Inr ()))"
| "caller_checks st sr (ConstructAndSignOrderVote ovp) \<longleftrightarrow>
     (sr_skip_sig_verify sr \<longrightarrow>
        quorum_cert_verify (st_crypto st) (st_validators st (b_epoch (ovp_block ovp))) (ovp_quorum_cert ovp) = Inr ())"
| "caller_checks st sr (SignCommitVote old new) \<longleftrightarrow>
     0 < li_round (lis_ledger_info old) \<and>
     li_consensus_data_hash new \<in> {0, li_consensus_data_hash (lis_ledger_info old)} \<and>
     (if sr_skip_sig_verify sr
      then verify_signatures (cr_ledger_info (st_crypto st)) (st_validators st (li_epoch (lis_ledger_info old))) old = Inr ()
      else \<forall>es. sr_epoch_state sr = Some es \<longrightarrow> li_epoch (lis_ledger_info old) = es_epoch es)"
| "caller_checks st sr _ \<longleftrightarrow> True"

definition input_ok :: "setting \<Rightarrow> histories \<Rightarrow> safety_rules \<Rightarrow> safety_rules_input \<Rightarrow> bool" where
  "input_ok st H sr input \<longleftrightarrow> genuine_input st H sr input \<and> caller_checks st sr input"

definition fresh_node :: "safety_rules \<Rightarrow> bool" where
  "fresh_node sr \<longleftrightarrow>
     (\<exists>store author sk w cached skip p.
        pss_initialize store author sk w cached = Some p \<and> sr = safety_rules_new p skip)"

definition update_node :: "account_address \<Rightarrow> signed set \<Rightarrow> safety_rules \<Rightarrow> system \<Rightarrow> system" where
  "update_node n new sr sys =
     sys\<lparr>sys_history := (sys_history sys)(n := sys_history sys n \<union> new), sys_node := (sys_node sys)(n := sr)\<rparr>"

inductive reachable :: "setting \<Rightarrow> system \<Rightarrow> bool" for st :: setting where
  initial: "(\<And>n. n \<notin> st_faulty st \<Longrightarrow> sys_history sys n = {} \<and> fresh_node (sys_node sys n)) \<Longrightarrow> reachable st sys"
| request: "reachable st sys \<Longrightarrow> n \<notin> st_faulty st \<Longrightarrow> input_ok st (sys_history sys) (sys_node sys n) input \<Longrightarrow>
     handle_message (st_env st) now input (sys_node sys n) = (out, sr') \<Longrightarrow>
     reachable st (update_node n (signed_by input out) sr' sys)"
| restarted: "reachable st sys \<Longrightarrow> n \<notin> st_faulty st \<Longrightarrow>
     reachable st (update_node n {} (restart (sys_node sys n)) sys)"

section \<open>Certified and ordered blocks\<close>

definition quorum_where :: "setting \<Rightarrow> u64 \<Rightarrow> (account_address \<Rightarrow> bool) \<Rightarrow> bool" where
  "quorum_where st e P \<longleftrightarrow> (\<exists>S. vv_quorum (st_validators st e) S \<and> (\<forall>a \<in> S. a \<notin> st_faulty st \<longrightarrow> P a))"

definition certified :: "setting \<Rightarrow> histories \<Rightarrow> vote_data \<Rightarrow> bool" where
  "certified st H vd \<longleftrightarrow> quorum_where st (vote_data_epoch vd) (\<lambda>a. \<exists>li. SignedVote vd li \<in> H a)"

definition order_certified :: "setting \<Rightarrow> histories \<Rightarrow> block_info \<Rightarrow> bool" where
  "order_certified st H bi \<longleftrightarrow>
     quorum_where st (bi_epoch bi) (\<lambda>a. SignedOrderVote bi (bi_epoch bi) (bi_round bi) \<in> H a)"

definition ordered :: "setting \<Rightarrow> histories \<Rightarrow> block_info \<Rightarrow> bool" where
  "ordered st H bi \<longleftrightarrow>
     0 < bi_round bi \<and>
     (order_certified st H bi \<or>
      (\<exists>vd. certified st H vd \<and> vd_parent vd = bi \<and> unat (vote_data_round vd) = unat (bi_round bi) + 1))"

definition same_block :: "block_info \<Rightarrow> block_info \<Rightarrow> bool" where
  "same_block b b' \<longleftrightarrow> bi_epoch b = bi_epoch b' \<and> bi_round b = bi_round b' \<and> bi_id b = bi_id b'"

text \<open>The chain of certified blocks.\<close>

inductive descends :: "setting \<Rightarrow> histories \<Rightarrow> vote_data \<Rightarrow> block_info \<Rightarrow> bool" for st H where
  itself: "certified st H vd \<Longrightarrow> descends st H vd (vd_proposed vd)"
| parent: "certified st H vd \<Longrightarrow> vd_parent vd = vd_proposed vd' \<Longrightarrow> descends st H vd' b \<Longrightarrow> descends st H vd b"

section \<open>The invariant\<close>

text \<open>
  The round before that of the vote data has timed out, and no certificate claimed there is
  higher than the parent.
\<close>

definition round_timed_out :: "setting \<Rightarrow> histories \<Rightarrow> vote_data \<Rightarrow> bool" where
  "round_timed_out st H vd \<longleftrightarrow>
     quorum_where st (vote_data_epoch vd)
       (\<lambda>a. \<exists>t. SignedTimeout t \<in> H a \<and> tsr_epoch t = vote_data_epoch vd \<and>
             unat (vote_data_round vd) = unat (tsr_round t) + 1 \<and> tsr_hqc_round t \<le> vote_data_parent_round vd)"

definition vote_ok :: "setting \<Rightarrow> histories \<Rightarrow> vote_data \<Rightarrow> ledger_info \<Rightarrow> bool" where
  "vote_ok st H vd li \<longleftrightarrow>
     vd \<in> st_vote_data st \<and> li_consensus_data_hash li = st_hash st vd \<and>
     st_block st (bi_id (vd_proposed vd)) = (vote_data_epoch vd, vote_data_round vd) \<and>
     bi_epoch (vd_parent vd) = vote_data_epoch vd \<and> vote_data_parent_round vd < vote_data_round vd \<and>
     (li_commit_info li = block_info_empty \<or>
      li_commit_info li = vd_parent vd \<and> unat (vote_data_round vd) = unat (vote_data_parent_round vd) + 1) \<and>
     (vote_data_parent_round vd = 0 \<or> (\<exists>vd'. certified st H vd' \<and> vd_proposed vd' = vd_parent vd)) \<and>
     (unat (vote_data_round vd) = unat (vote_data_parent_round vd) + 1 \<or> round_timed_out st H vd)"

fun message_ok :: "setting \<Rightarrow> histories \<Rightarrow> signed \<Rightarrow> bool" where
  "message_ok st H (SignedVote vd li) \<longleftrightarrow> vote_ok st H vd li"
| "message_ok st H (SignedTimeout t) \<longleftrightarrow> True"
| "message_ok st H (SignedOrderVote bi e r) \<longleftrightarrow>
     (bi_round bi \<noteq> 0 \<longrightarrow> e = bi_epoch bi \<and> r = bi_round bi \<and> (\<exists>vd. certified st H vd \<and> vd_proposed vd = bi))"
| "message_ok st H (SignedCommitVote old new) \<longleftrightarrow>
     (\<exists>b. ordered st H b \<and> same_block b (li_commit_info new)) \<and>
     (li_consensus_data_hash new \<noteq> 0 \<longrightarrow>
        (\<exists>vd \<in> st_vote_data st. certified st H vd \<and> st_hash st vd = li_consensus_data_hash new))"

definition config_ok :: "setting \<Rightarrow> safety_rules \<Rightarrow> bool" where
  "config_ok st sr \<longleftrightarrow>
     (\<forall>es. sr_epoch_state sr = Some es \<longrightarrow>
        es_verifier es = st_validators st (es_epoch es) \<and> (\<exists>d. sr_durable sr = Some d \<and> sd_epoch d = es_epoch es))"

definition system_inv :: "setting \<Rightarrow> system \<Rightarrow> bool" where
  "system_inv st sys \<longleftrightarrow>
     (\<forall>n. n \<notin> st_faulty st \<longrightarrow>
        node_inv (sys_history sys n) (sys_node sys n) \<and> config_ok st (sys_node sys n) \<and>
        (\<forall>m \<in> sys_history sys n. message_ok st (sys_history sys) m))"

section \<open>Histories only grow\<close>

definition history_le :: "histories \<Rightarrow> histories \<Rightarrow> bool" where
  "history_le H H' \<longleftrightarrow> (\<forall>a. H a \<subseteq> H' a)"

lemma history_leD: "history_le H H' \<Longrightarrow> m \<in> H a \<Longrightarrow> m \<in> H' a"
  by (auto simp: history_le_def)

lemma quorum_where_mono: "quorum_where st e P \<Longrightarrow> (\<And>a. P a \<Longrightarrow> Q a) \<Longrightarrow> quorum_where st e Q"
  unfolding quorum_where_def by blast

lemma certified_mono: "history_le H H' \<Longrightarrow> certified st H vd \<Longrightarrow> certified st H' vd"
  unfolding certified_def by (erule quorum_where_mono) (auto dest: history_leD)

lemma ordered_mono:
  assumes "history_le H H'" "ordered st H b"
  shows "ordered st H' b"
proof -
  have "order_certified st H b \<Longrightarrow> order_certified st H' b"
    unfolding order_certified_def using history_leD [OF assms(1)] by (elim quorum_where_mono) auto
  then show ?thesis using assms certified_mono [OF assms(1)] unfolding ordered_def by blast
qed

lemma round_timed_out_mono: "history_le H H' \<Longrightarrow> round_timed_out st H vd \<Longrightarrow> round_timed_out st H' vd"
  unfolding round_timed_out_def by (erule quorum_where_mono) (auto dest: history_leD)

lemma vote_ok_mono: "history_le H H' \<Longrightarrow> vote_ok st H vd li \<Longrightarrow> vote_ok st H' vd li"
  using certified_mono round_timed_out_mono unfolding vote_ok_def by blast

lemma message_ok_mono: "history_le H H' \<Longrightarrow> message_ok st H m \<Longrightarrow> message_ok st H' m"
  using certified_mono ordered_mono vote_ok_mono by (cases m) (simp_all, (blast | metis)+)

section \<open>Quorums of an epoch\<close>

lemma setting_okD:
  assumes "setting_ok st"
  shows "verifier_wf (st_validators st e)" "inj_on (st_hash st) (st_vote_data st)"
    "vd \<in> st_vote_data st \<Longrightarrow> st_hash st vd \<noteq> 0" "bls_pairs_up (cr_timeout (st_crypto st))"
  using assms by (auto simp: setting_ok_def)

lemma quorum_where_common:
  assumes "setting_ok st" "quorum_where st e P" "quorum_where st e Q"
  obtains a where "a \<notin> st_faulty st" "P a" "Q a"
proof -
  let ?vv = "st_validators st e"
  obtain S T where S: "vv_quorum ?vv S" "\<forall>a \<in> S. a \<notin> st_faulty st \<longrightarrow> P a"
    and T: "vv_quorum ?vv T" "\<forall>a \<in> T. a \<notin> st_faulty st \<longrightarrow> Q a"
    using assms(2,3) unfolding quorum_where_def by blast
  have "\<exists>v \<in> S \<inter> T. v \<notin> st_faulty st \<inter> members ?vv"
    by (rule vvq.quorum_intersection_honest [OF setting_okD(1) [OF assms(1)] S(1) T(1)])
      (use assms(1) in \<open>auto simp: setting_ok_def\<close>)
  then obtain v where v: "v \<in> S" "v \<in> T" "v \<notin> st_faulty st \<inter> members ?vv" by blast
  moreover have "v \<in> members ?vv" using v(1) S(1) by (auto simp: vv_quorum_def)
  ultimately show thesis using that S(2) T(2) by blast
qed

lemma quorum_where_honest:
  assumes "setting_ok st" "quorum_where st e P"
  obtains a where "a \<notin> st_faulty st" "P a"
  using quorum_where_common [OF assms(1,2,2)] by blast

text \<open>The facts about honest messages, one by one.\<close>

lemma system_invD:
  assumes "system_inv st sys" "n \<notin> st_faulty st"
  shows "node_inv (sys_history sys n) (sys_node sys n)" "config_ok st (sys_node sys n)"
    and "m \<in> sys_history sys n \<Longrightarrow> message_ok st (sys_history sys) m"
    and "m \<in> sys_history sys n \<Longrightarrow> m' \<in> sys_history sys n \<Longrightarrow> compatible m m'"
  using assms by (auto simp: system_inv_def node_inv_def history_safe_def)

lemma certified_vote_ok:
  assumes "setting_ok st" "system_inv st sys" "certified st (sys_history sys) vd"
  obtains n li where "n \<notin> st_faulty st" "SignedVote vd li \<in> sys_history sys n" "vote_ok st (sys_history sys) vd li"
proof -
  obtain n li where n: "n \<notin> st_faulty st" "SignedVote vd li \<in> sys_history sys n"
    using quorum_where_honest [OF assms(1) assms(3) [unfolded certified_def]] by blast
  then show thesis using that system_invD(3) [OF assms(2) n(1)] by fastforce
qed

section \<open>Agreement\<close>

lemma certified_unique:
  assumes "setting_ok st" "system_inv st sys"
    and "certified st (sys_history sys) vd" "certified st (sys_history sys) vd'"
    and "vote_data_epoch vd = vote_data_epoch vd'" "vote_data_round vd = vote_data_round vd'"
  shows "vd = vd'"
proof -
  obtain n li li' where n: "n \<notin> st_faulty st"
    and m: "SignedVote vd li \<in> sys_history sys n" "SignedVote vd' li' \<in> sys_history sys n"
    using quorum_where_common [OF assms(1) assms(3) [unfolded certified_def] assms(4) [unfolded certified_def assms(5) [symmetric]]]
    by metis
  then have "compatible (SignedVote vd li) (SignedVote vd' li')" using system_invD(4) [OF assms(2)] by blast
  then show ?thesis using assms(5,6) by simp
qed

text \<open>An ordered block is certified.\<close>

lemma ordered_certified:
  assumes "setting_ok st" "system_inv st sys" "ordered st (sys_history sys) b"
  obtains vd where "certified st (sys_history sys) vd" "vd_proposed vd = b"
proof -
  have pos: "bi_round b \<noteq> 0" using assms(3) by (auto simp: ordered_def)
  from assms(3) consider (order) "order_certified st (sys_history sys) b"
    | (chain) vd where "certified st (sys_history sys) vd" "vd_parent vd = b" unfolding ordered_def by blast
  then show thesis
  proof cases
    case order
    then obtain n where n: "n \<notin> st_faulty st" "SignedOrderVote b (bi_epoch b) (bi_round b) \<in> sys_history sys n"
      using quorum_where_honest [OF assms(1)] unfolding order_certified_def by metis
    from system_invD(3) [OF assms(2) n] show thesis using that pos by auto
  next
    case chain
    then show thesis using certified_vote_ok [OF assms(1,2)] pos that unfolding vote_ok_def by metis
  qed
qed

text \<open>
  The heart of the protocol: once a block is ordered, no block with a higher round of the epoch
  is certified on top of an older one.
\<close>

lemma ordered_locks:
  assumes st: "setting_ok st" and inv: "system_inv st sys" and ord: "ordered st (sys_history sys) b"
    and cert: "certified st (sys_history sys) vd" "vote_data_epoch vd = bi_epoch b" "bi_round b < vote_data_round vd"
  shows "bi_round b \<le> vote_data_parent_round vd"
proof -
  obtain li where ok: "vote_ok st (sys_history sys) vd li" using certified_vote_ok [OF st inv cert(1)] by blast
  have lt: "unat (bi_round b) < unat (vote_data_round vd)" using cert(3) by (simp add: word_less_nat_alt)
  show ?thesis
  proof (cases "unat (vote_data_round vd) = unat (vote_data_parent_round vd) + 1")
    case True
    then show ?thesis using lt by (simp add: word_le_nat_alt)
  next
    case False
    let ?timed_out = "\<lambda>a. \<exists>t. SignedTimeout t \<in> sys_history sys a \<and> tsr_epoch t = bi_epoch b \<and>
      unat (vote_data_round vd) = unat (tsr_round t) + 1 \<and> tsr_hqc_round t \<le> vote_data_parent_round vd"
    have Q: "quorum_where st (bi_epoch b) ?timed_out" using ok False unfolding vote_ok_def round_timed_out_def cert(2) by blast
    from ord consider (order) "order_certified st (sys_history sys) b"
      | (chain) vd' where "certified st (sys_history sys) vd'" "vd_parent vd' = b"
        "unat (vote_data_round vd') = unat (bi_round b) + 1" unfolding ordered_def by blast
    then show ?thesis
    proof cases
      case order
      obtain n t where n: "n \<notin> st_faulty st" "SignedOrderVote b (bi_epoch b) (bi_round b) \<in> sys_history sys n"
        "SignedTimeout t \<in> sys_history sys n" and t: "tsr_epoch t = bi_epoch b"
        "unat (vote_data_round vd) = unat (tsr_round t) + 1" "tsr_hqc_round t \<le> vote_data_parent_round vd"
        using quorum_where_common [OF st order [unfolded order_certified_def] Q] by metis
      have "compatible (SignedOrderVote b (bi_epoch b) (bi_round b)) (SignedTimeout t)"
        using system_invD(4) [OF inv n(1)] n(2,3) by blast
      moreover have "bi_round b \<le> tsr_round t" using lt t(2) by (simp add: word_le_nat_alt)
      ultimately show ?thesis using t(1,3) by (auto intro: order.trans)
    next
      case chain
      have e: "vote_data_epoch vd' = bi_epoch b"
        using certified_vote_ok [OF st inv chain(1)] chain(2) unfolding vote_ok_def by metis
      show ?thesis
      proof (cases "unat (vote_data_round vd) = unat (bi_round b) + 1")
        case True
        then have "vd = vd'"
          using certified_unique [OF st inv cert(1) chain(1)] cert(2) e chain(3) by (simp add: word_unat_eq_iff)
        then show ?thesis using chain(2) by simp
      next
        case False
        obtain n t li' where n: "n \<notin> st_faulty st" "SignedVote vd' li' \<in> sys_history sys n"
          "SignedTimeout t \<in> sys_history sys n" and t: "tsr_epoch t = bi_epoch b"
          "unat (vote_data_round vd) = unat (tsr_round t) + 1" "tsr_hqc_round t \<le> vote_data_parent_round vd"
          using quorum_where_common [OF st chain(1) [unfolded certified_def e] Q] by metis
        have "compatible (SignedVote vd' li') (SignedTimeout t)" using system_invD(4) [OF inv n(1)] n(2,3) by blast
        moreover have "vote_data_round vd' \<le> tsr_round t" using lt t(2) False chain(3) by (simp add: word_le_nat_alt)
        ultimately show ?thesis using t(1,3) e chain(2) by (auto intro: order.trans)
      qed
    qed
  qed
qed

lemma certified_descends:
  assumes st: "setting_ok st" and inv: "system_inv st sys" and ord: "ordered st (sys_history sys) b"
  shows "certified st (sys_history sys) vd \<Longrightarrow> vote_data_epoch vd = bi_epoch b \<Longrightarrow> bi_round b \<le> vote_data_round vd \<Longrightarrow>
    descends st (sys_history sys) vd b"
proof (induction "unat (vote_data_round vd)" arbitrary: vd rule: less_induct)
  case less
  obtain vb where vb: "certified st (sys_history sys) vb" "vd_proposed vb = b" by (rule ordered_certified [OF st inv ord])
  show ?case
  proof (cases "vote_data_round vd = bi_round b")
    case True
    then have "vd = vb" using certified_unique [OF st inv less.prems(1) vb(1)] less.prems(2) vb(2) by simp
    then show ?thesis using descends.itself [OF vb(1)] vb(2) by simp
  next
    case False
    then have "bi_round b < vote_data_round vd" using less.prems(3) by simp
    then have lock: "bi_round b \<le> vote_data_parent_round vd"
      by (rule ordered_locks [OF st inv ord less.prems(1,2)])
    moreover have "0 < bi_round b" using ord by (simp add: ordered_def)
    ultimately have pos: "vote_data_parent_round vd \<noteq> 0" by auto
    obtain li where ok: "vote_ok st (sys_history sys) vd li" using certified_vote_ok [OF st inv less.prems(1)] by blast
    then obtain vd' where vd': "certified st (sys_history sys) vd'" "vd_proposed vd' = vd_parent vd"
      using pos unfolding vote_ok_def by blast
    have "descends st (sys_history sys) vd' b"
      by (rule less.hyps) (use ok vd' lock less.prems(2) in \<open>auto simp: vote_ok_def word_less_nat_alt\<close>)
    then show ?thesis using descends.parent [OF less.prems(1)] vd'(2) by metis
  qed
qed

section \<open>What the signatures of a quorum mean\<close>

lemma li_unforged_quorum:
  assumes "setting_ok st" "li_unforged st H s"
    and "verify_signatures (cr_ledger_info (st_crypto st)) (st_validators st e) s = Inr ()"
  shows "quorum_where st e (\<lambda>a. \<exists>m \<in> H a. signs_ledger_info m (lis_ledger_info s))"
  using assms verify_signatures_quorum [OF assms(3) setting_okD(1) [OF assms(1)]]
  unfolding quorum_where_def li_unforged_def by blast

lemma honest_signer_cases:
  assumes "system_inv st sys" "n \<notin> st_faulty st" "m \<in> sys_history sys n" "signs_ledger_info m L"
  obtains (vote) vd where "SignedVote vd L \<in> sys_history sys n" "vote_ok st (sys_history sys) vd L"
  | (order) bi e r where "SignedOrderVote bi e r \<in> sys_history sys n" "L = ledger_info_new bi 0"
      "bi_round bi \<noteq> 0 \<longrightarrow> e = bi_epoch bi \<and> r = bi_round bi"
  | (commit) "\<exists>b. ordered st (sys_history sys) b \<and> same_block b (li_commit_info L)"
      "li_consensus_data_hash L \<noteq> 0 \<longrightarrow>
         (\<exists>vd \<in> st_vote_data st. certified st (sys_history sys) vd \<and> st_hash st vd = li_consensus_data_hash L)"
  using assms system_invD(3) [OF assms(1,2,3)] by (cases m) auto

lemma signed_quorum_votes:
  assumes st: "setting_ok st" and inv: "system_inv st sys"
    and Q: "quorum_where st e (\<lambda>a. \<exists>m \<in> sys_history sys a. signs_ledger_info m L)"
    and vd: "vd \<in> st_vote_data st" "li_consensus_data_hash L = st_hash st vd"
  shows "quorum_where st e (\<lambda>a. \<exists>li. SignedVote vd li \<in> sys_history sys a) \<or> certified st (sys_history sys) vd"
proof -
  have nz: "li_consensus_data_hash L \<noteq> 0" using setting_okD(3) [OF st vd(1)] vd(2) by simp
  have inj: "vd' = vd" if "vd' \<in> st_vote_data st" "st_hash st vd' = li_consensus_data_hash L" for vd'
    using inj_onD [OF setting_okD(2) [OF st]] that vd by metis
  obtain S where S: "vv_quorum (st_validators st e) S"
    "\<forall>a \<in> S. a \<notin> st_faulty st \<longrightarrow> (\<exists>m \<in> sys_history sys a. signs_ledger_info m L)"
    using Q unfolding quorum_where_def by blast
  have "(\<exists>li. SignedVote vd li \<in> sys_history sys a) \<or> certified st (sys_history sys) vd"
    if a: "a \<in> S" "a \<notin> st_faulty st" for a
  proof -
    obtain m where m: "m \<in> sys_history sys a" "signs_ledger_info m L" using S(2) a by blast
    from inv a(2) m show ?thesis
    proof (cases rule: honest_signer_cases)
      case (vote vd')
      then have "vd' = vd" using inj by (simp add: vote_ok_def)
      then show ?thesis using vote(1) by blast
    next
      case order
      then show ?thesis using nz by (simp add: ledger_info_new_def)
    next
      case commit
      then show ?thesis using nz inj by metis
    qed
  qed
  then show ?thesis using S(1) unfolding quorum_where_def by blast
qed

lemma signed_quorum_ordered:
  assumes st: "setting_ok st" and inv: "system_inv st sys"
    and Q: "quorum_where st (li_epoch L) (\<lambda>a. \<exists>m \<in> sys_history sys a. signs_ledger_info m L)"
    and pos: "0 < li_round L"
  shows "(\<exists>b. ordered st (sys_history sys) b \<and> same_block b (li_commit_info L)) \<and>
    (li_consensus_data_hash L \<noteq> 0 \<longrightarrow>
       (\<exists>vd \<in> st_vote_data st. certified st (sys_history sys) vd \<and> st_hash st vd = li_consensus_data_hash L))"
    (is "?ordered \<and> ?hashed")
proof (rule ccontr)
  let ?H = "sys_history sys" and ?b = "li_commit_info L"
  assume no: "\<not> (?ordered \<and> ?hashed)"
  have direct: "(\<exists>vd. SignedVote vd L \<in> ?H n \<and> vote_ok st ?H vd L) \<or>
      (\<exists>e r. SignedOrderVote ?b e r \<in> ?H n \<and> li_consensus_data_hash L = 0 \<and> e = bi_epoch ?b \<and> r = bi_round ?b)"
    if n: "n \<notin> st_faulty st" and m: "\<exists>m \<in> ?H n. signs_ledger_info m L" for n
  proof -
    obtain m where "m \<in> ?H n" "signs_ledger_info m L" using m by blast
    from inv n this show ?thesis
      by (cases rule: honest_signer_cases) (use no pos in \<open>auto simp: ledger_info_new_def li_round_def\<close>)
  qed
  show False
  proof (cases "li_consensus_data_hash L = 0")
    case True
    have "\<not> vote_ok st ?H vd L" for vd using setting_okD(3) [OF st] True by (auto simp: vote_ok_def)
    then have "quorum_where st (bi_epoch ?b) (\<lambda>a. SignedOrderVote ?b (bi_epoch ?b) (bi_round ?b) \<in> ?H a)"
      using Q direct unfolding quorum_where_def li_epoch_def by blast
    then have "ordered st ?H ?b" using pos by (simp add: ordered_def order_certified_def li_round_def)
    then show False using no True by (auto simp: same_block_def)
  next
    case False
    obtain n0 where n0: "n0 \<notin> st_faulty st" "\<exists>m \<in> ?H n0. signs_ledger_info m L" by (rule quorum_where_honest [OF st Q])
    then obtain vd where vd: "vote_ok st ?H vd L" using direct False by blast
    have vd': "vd \<in> st_vote_data st" "st_hash st vd = li_consensus_data_hash L" "vd_parent vd = ?b"
      "unat (vote_data_round vd) = unat (bi_round ?b) + 1" "vote_data_epoch vd = li_epoch L"
      using vd pos by (auto simp: vote_ok_def li_round_def li_epoch_def block_info_empty_def)
    have "vd'' = vd" if "vote_ok st ?H vd'' L" for vd''
      using that inj_onD [OF setting_okD(2) [OF st], of vd'' vd] vd'(1,2) by (simp add: vote_ok_def)
    then have "certified st ?H vd"
      using Q direct False unfolding certified_def quorum_where_def vd'(5) by blast
    then show False using no pos vd'(1-4) by (auto simp: same_block_def ordered_def li_round_def)
  qed
qed

text \<open>A quorum certificate that an honest validator of the epoch accepts.\<close>

lemma verified_qc_votes:
  assumes st: "setting_ok st" and inv: "system_inv st sys"
    and qc: "quorum_cert_verify (st_crypto st) (st_validators st e) qc = Inr ()" "bi_round (certified_block qc) \<noteq> 0"
    and unforged: "li_unforged st (sys_history sys) (qc_signed_ledger_info qc)" "qc_vote_data qc \<in> st_vote_data st"
  shows "quorum_where st e (\<lambda>a. \<exists>li. SignedVote (qc_vote_data qc) li \<in> sys_history sys a) \<or>
    certified st (sys_history sys) (qc_vote_data qc)"
  by (rule signed_quorum_votes [OF st inv li_unforged_quorum [OF st unforged(1)] unforged(2)])
    (use quorum_cert_verify_signed(1) [OF qc] quorum_cert_verify_hash [OF qc(1)] in \<open>simp_all add: qc_ledger_info_def\<close>)

lemma verified_qc_certified:
  assumes "setting_ok st" "system_inv st sys"
    and "quorum_cert_verify (st_crypto st) (st_validators st e) qc = Inr ()" "bi_round (certified_block qc) \<noteq> 0"
    and "li_unforged st (sys_history sys) (qc_signed_ledger_info qc)" "qc_vote_data qc \<in> st_vote_data st"
    and "bi_epoch (certified_block qc) = e"
  shows "certified st (sys_history sys) (qc_vote_data qc)"
  using verified_qc_votes [OF assms(1-6)] assms(7) by (auto simp: certified_def certified_block_def)

text \<open>The certified block is what some honest validator voted for, so its id tells its round.\<close>

lemma verified_qc_block:
  assumes st: "setting_ok st" and inv: "system_inv st sys"
    and "quorum_cert_verify (st_crypto st) (st_validators st e) qc = Inr ()" "bi_round (certified_block qc) \<noteq> 0"
    and "li_unforged st (sys_history sys) (qc_signed_ledger_info qc)" "qc_vote_data qc \<in> st_vote_data st"
  shows "st_block st (bi_id (certified_block qc)) = (bi_epoch (certified_block qc), bi_round (certified_block qc))"
proof -
  obtain e' where "quorum_where st e' (\<lambda>a. \<exists>li. SignedVote (qc_vote_data qc) li \<in> sys_history sys a)"
    using verified_qc_votes [OF assms] unfolding certified_def by blast
  from quorum_where_honest [OF st this] obtain a li
    where a: "a \<notin> st_faulty st" "SignedVote (qc_vote_data qc) li \<in> sys_history sys a" by blast
  from system_invD(3) [OF inv a] show ?thesis by (simp add: vote_ok_def certified_block_def)
qed

lemma verified_tc_timed_out:
  assumes st: "setting_ok st" and tc: "timeout_certificate_verify (st_crypto st) (st_validators st e) tc = Inr ()"
    and unforged: "tc_unforged st H tc"
  shows "quorum_where st e (\<lambda>a. \<exists>t. SignedTimeout t \<in> H a \<and> tsr_epoch t = tc_epoch tc \<and> tsr_round t = tc_round tc \<and>
    tsr_hqc_round t \<le> highest_hqc_round tc)"
proof -
  let ?vv = "st_validators st e" and ?s = "aswr_sig (tc_signatures_with_rounds tc)"
  have "verify_aggregate_signatures (cr_timeout (st_crypto st)) ?vv (tc_messages ?vv tc) ?s = Inr ()"
    using tc by (auto simp: timeout_certificate_verify_def Let_def result_simps)
  then obtain sig where v: "\<forall>i \<in> set (iter_ones (validator_bitmask ?s)). i < length (validator_infos ?vv)"
    "bls_verify_aggregate (cr_timeout (st_crypto st)) sig (tc_messages ?vv tc)
       (map (\<lambda>i. vci_public_key (validator_infos ?vv ! i)) (iter_ones (validator_bitmask ?s)))"
    "vv_quorum ?vv (set (aggregate_signature_authors ?vv ?s))"
    using verify_aggregate_signatures_Inr [OF _ setting_okD(1) [OF st]] by metis
  then have "length (aggregate_signature_authors ?vv ?s) = length (tc_messages ?vv tc)"
    using setting_okD(4) [OF st] aggregate_signature_authors_map [OF v(1)] unfolding bls_pairs_up_def by fastforce
  then have signed: "\<exists>m. (a, m) \<in> set (tc_signed ?vv tc)" if "a \<in> set (aggregate_signature_authors ?vv ?s)" for a
    using that unfolding tc_signed_def by (metis in_set_impl_in_set_zip1)
  have "\<exists>t. SignedTimeout t \<in> H a \<and> tsr_epoch t = tc_epoch tc \<and> tsr_round t = tc_round tc \<and>
      tsr_hqc_round t \<le> highest_hqc_round tc"
    if a: "a \<in> set (aggregate_signature_authors ?vv ?s)" "a \<notin> st_faulty st" for a
  proof -
    obtain m where m: "(a, m) \<in> set (tc_signed ?vv tc)" using signed [OF a(1)] by blast
    then have "SignedTimeout m \<in> H a" using unforged tc a(2) unfolding tc_unforged_def by blast
    then show ?thesis using timeout_certificate_verify_bounds [OF tc m] by blast
  qed
  then show ?thesis using v(3) unfolding quorum_where_def by blast
qed

section \<open>Every step keeps the invariant\<close>

lemma block_verify_well_formed_parent:
  "block_verify_well_formed now b = Inr u \<Longrightarrow>
     bi_round (certified_block (b_quorum_cert b)) < b_round b \<and> bi_epoch (certified_block (b_quorum_cert b)) = b_epoch b"
  by (auto simp: block_verify_well_formed_def Let_def result_simps)

lemma checked_add_one_unat: "checked_add (r :: u64) 1 = Some s \<Longrightarrow> unat s = unat r + 1"
  using checked_add_Some_unat [of r 1 s] by simp

lemma construct_ledger_info_2chain_Inr:
  assumes "construct_ledger_info_2chain b h = Inr li"
  shows "li_consensus_data_hash li = h"
    "li_commit_info li = block_info_empty \<or>
     li_commit_info li = certified_block (b_quorum_cert b) \<and> unat (b_round b) = unat (bi_round (certified_block (b_quorum_cert b))) + 1"
  using assms
  by (auto simp: construct_ledger_info_2chain_def Let_def result_simps ledger_info_new_def dest: checked_add_one_unat split: if_splits)

lemma new_vote_ok:
  assumes st: "setting_ok st" and inv: "system_inv st sys" and n: "n \<notin> st_faulty st"
    and ok: "input_ok st (sys_history sys) (sys_node sys n) (ConstructAndSignVoteTwoChain vp tc)"
    and v: "proposal_verified (st_env st) now vp tc (sys_node sys n) d vd" "sr_durable (sys_node sys n) = Some d"
      "vote_allowed (vp_block vp) tc d"
      "construct_ledger_info_2chain (vp_block vp) (st_hash st vd) = Inr li"
  shows "vote_ok st (sys_history sys) vd li"
proof -
  let ?b = "vp_block vp" and ?qc = "b_quorum_cert (vp_block vp)"
  obtain es where es: "sr_epoch_state (sys_node sys n) = Some es" using v(1) by (auto simp: proposal_verified_def)
  have cfg: "es_verifier es = st_validators st (b_epoch ?b)"
    using system_invD(2) [OF inv n] es v(1,2) by (auto simp: config_ok_def proposal_verified_def)
  have qc: "quorum_cert_verify (st_crypto st) (st_validators st (b_epoch ?b)) ?qc = Inr ()"
    and tcv: "tc = Some c \<Longrightarrow> timeout_certificate_verify (st_crypto st) (st_validators st (b_epoch ?b)) c = Inr ()" for c
    using v(1) es cfg ok by (cases "sr_skip_sig_verify (sys_node sys n)"; auto simp: proposal_verified_def input_ok_def)+
  have wf: "bi_round (certified_block ?qc) < b_round ?b" "bi_epoch (certified_block ?qc) = b_epoch ?b"
    using v(1) block_verify_well_formed_parent by (auto simp: proposal_verified_def)
  have vd: "vote_data_epoch vd = b_epoch ?b" "vote_data_round vd = b_round ?b" "bi_id (vd_proposed vd) = b_id ?b"
    "vd_parent vd = certified_block ?qc"
    using v(1) gen_vote_data_facts by (auto simp: proposal_verified_def)
  have parent: "certified st (sys_history sys) (qc_vote_data ?qc)" if "bi_round (certified_block ?qc) \<noteq> 0"
    by (rule verified_qc_certified [OF st inv qc that]) (use ok wf(2) in \<open>auto simp: input_ok_def\<close>)
  have just: "unat (b_round ?b) = unat (bi_round (certified_block ?qc)) + 1 \<or> round_timed_out st (sys_history sys) vd"
  proof (cases tc)
    case None
    then show ?thesis
      using safe_to_vote_Inr [of ?b tc "()"] v(3) wf(1) checked_add_one_unat
      by (fastforce simp: vote_allowed_def maybe_tc_round_def word_less_nat_alt)
  next
    case (Some c)
    have "round_timed_out st (sys_history sys) vd"
      if h: "checked_add (tc_round c) 1 = Some (b_round ?b)" "highest_hqc_round c \<le> bi_round (certified_block ?qc)"
      unfolding round_timed_out_def vd(1)
      by (rule quorum_where_mono [OF verified_tc_timed_out [OF st tcv [OF Some], of "sys_history sys"]])
        (use ok Some h checked_add_one_unat [OF h(1)] in \<open>auto simp: input_ok_def vd(2,4) intro: order.trans\<close>)
    then show ?thesis
      using safe_to_vote_Inr [of ?b tc "()"] v(3) Some checked_add_one_unat
      by (auto simp: vote_allowed_def maybe_tc_round_def maybe_hqc_round_def)
  qed
  have "vd \<in> st_vote_data st" using ok v(1) by (simp add: proposal_verified_def input_ok_def)
  moreover have "block_known st ?b" using ok by (simp add: input_ok_def)
  ultimately show ?thesis
    using just parent wf construct_ledger_info_2chain_Inr [OF v(4)]
    unfolding vote_ok_def vd by (auto simp: block_known_def certified_block_def)
qed

lemma new_order_vote_ok:
  assumes st: "setting_ok st" and inv: "system_inv st sys" and n: "n \<notin> st_faulty st"
    and ok: "input_ok st (sys_history sys) (sys_node sys n) (ConstructAndSignOrderVote ovp)"
    and v: "order_vote_allowed (st_env st) ovp (sys_node sys n) d" "sr_durable (sys_node sys n) = Some d"
  shows "message_ok st (sys_history sys) (SignedOrderVote (ovp_block_info ovp) (b_epoch (ovp_block ovp)) (b_round (ovp_block ovp)))"
proof -
  let ?qc = "ovp_quorum_cert ovp" and ?b = "ovp_block ovp"
  obtain es where es: "sr_epoch_state (sys_node sys n) = Some es" using v(1) by (auto simp: order_vote_allowed_def)
  have cfg: "es_verifier es = st_validators st (b_epoch ?b)"
    using system_invD(2) [OF inv n] es v(1,2) by (auto simp: config_ok_def order_vote_allowed_def)
  have qc: "quorum_cert_verify (st_crypto st) (st_validators st (b_epoch ?b)) ?qc = Inr ()"
    and info: "certified_block ?qc = ovp_block_info ovp" "bi_id (ovp_block_info ovp) = b_id ?b"
    using v(1) es cfg ok by (auto simp: order_vote_allowed_def input_ok_def)
  have "bi_epoch (ovp_block_info ovp) = b_epoch ?b \<and> bi_round (ovp_block_info ovp) = b_round ?b \<and>
      certified st (sys_history sys) (qc_vote_data ?qc)" if pos: "bi_round (ovp_block_info ovp) \<noteq> 0"
  proof -
    have pos': "bi_round (certified_block ?qc) \<noteq> 0" using pos info(1) by simp
    have e: "bi_epoch (ovp_block_info ovp) = b_epoch ?b \<and> bi_round (ovp_block_info ovp) = b_round ?b"
      using verified_qc_block [OF st inv qc pos'] ok info by (simp add: block_known_def input_ok_def)
    then show ?thesis
      using verified_qc_certified [OF st inv qc pos'] ok info by (simp add: input_ok_def)
  qed
  then show ?thesis using info(1) by (auto simp: certified_block_def)
qed

lemma new_commit_vote_ok:
  assumes st: "setting_ok st" and inv: "system_inv st sys" and n: "n \<notin> st_faulty st"
    and ok: "input_ok st (sys_history sys) (sys_node sys n) (SignCommitVote old new)"
    and r: "guarded_sign_commit_vote (st_env st) old new (sys_node sys n) = (Inr s, sr')"
  shows "message_ok st (sys_history sys) (SignedCommitVote (lis_ledger_info old) new)"
proof -
  let ?L = "lis_ledger_info old"
  have match: "match_ordered_only (li_commit_info ?L) (li_commit_info new)"
    using r by (auto simp: guarded_sign_commit_vote_def Let_def result_simps split: if_splits)
  have signed: "verify_signatures (cr_ledger_info (st_crypto st)) (st_validators st (li_epoch ?L)) old = Inr ()"
  proof (cases "sr_skip_sig_verify (sys_node sys n)")
    case True
    then show ?thesis using ok by (simp add: input_ok_def)
  next
    case False
    then obtain es where es: "sr_epoch_state (sys_node sys n) = Some es"
      "verify_signatures (cr_ledger_info (st_crypto st)) (es_verifier es) old = Inr ()"
      using r by (auto simp: guarded_sign_commit_vote_def Let_def result_simps get_epoch_state_def split: if_splits)
    then show ?thesis using ok False system_invD(2) [OF inv n] by (auto simp: config_ok_def input_ok_def)
  qed
  have "quorum_where st (li_epoch ?L) (\<lambda>a. \<exists>m \<in> sys_history sys a. signs_ledger_info m ?L)"
    by (rule li_unforged_quorum [OF st _ signed]) (use ok in \<open>simp add: input_ok_def\<close>)
  from signed_quorum_ordered [OF st inv this] ok match show ?thesis
    by (auto simp: same_block_def match_ordered_only_def input_ok_def)
qed

lemma config_ok_step:
  assumes cfg: "config_ok st sr" and c: "sr_coherent sr" and ok: "input_ok st H sr input"
    and h: "handle_message (st_env st) now input sr = (out, sr')"
  shows "config_ok st sr'"
proof -
  have keep: "config_ok st sr'" if "same_config sr sr'" "\<And>d. sr_durable sr = Some d \<Longrightarrow> \<exists>d'. sr_durable sr' = Some d' \<and> sd_epoch d' = sd_epoch d"
    using cfg that by (fastforce simp: config_ok_def same_config_def)
  have reads: "config_ok st sr'" if "only_reads sr sr'"
    using only_readsD(1,3) [OF that] by (intro keep) auto
  show ?thesis
  proof (cases input)
    case (Initialize p)
    then obtain r where "guarded_initialize (st_env st) p sr = (r, sr')"
      using h by (auto simp: handle_message_def map_prod_def split: prod.splits)
    from initialize_effect [OF this c] show ?thesis
      using cfg ok Initialize by (auto simp: config_ok_def enters_epoch_def safety_data_new_def input_ok_def)
  next
    case (SignTimeoutWithQC t tc)
    then obtain r where "guarded_sign_timeout_with_qc (st_env st) t tc sr = (r, sr')"
      using h by (auto simp: handle_message_def map_prod_def split: prod.splits)
    from sign_timeout_effect [OF this c] show ?thesis by (intro keep) (auto simp: after_timeout_def)
  next
    case (ConstructAndSignVoteTwoChain vp tc)
    then obtain r where "guarded_construct_and_sign_vote_two_chain (st_env st) now vp tc sr = (r, sr')"
      using h by (auto simp: handle_message_def map_prod_def split: prod.splits)
    from construct_vote_effect [OF this c] show ?thesis by (intro keep) (auto simp: after_vote_def)
  next
    case (ConstructAndSignOrderVote ovp)
    then obtain r where "guarded_construct_and_sign_order_vote (st_env st) ovp sr = (r, sr')"
      using h by (auto simp: handle_message_def map_prod_def split: prod.splits)
    from construct_order_vote_effect [OF this c] show ?thesis
      by (intro keep) (auto simp: after_order_vote_def observe_qc_max)
  qed (use h reading_operations [OF c] reads in \<open>auto simp: handle_message_def map_prod_def split: prod.splits\<close>)
qed

lemma new_messages_ok:
  assumes st: "setting_ok st" and inv: "system_inv st sys" and n: "n \<notin> st_faulty st"
    and ok: "input_ok st (sys_history sys) (sys_node sys n) input"
    and h: "handle_message (st_env st) now input (sys_node sys n) = (out, sr')"
    and m: "m \<in> signed_by input out"
  shows "message_ok st (sys_history sys) m"
proof -
  let ?sr = "sys_node sys n"
  have nd: "node_inv (sys_history sys n) ?sr" by (rule system_invD(1) [OF inv n])
  then have c: "sr_coherent ?sr" by (simp add: node_inv_def)
  note hm = handle_message_def map_prod_def
  from m show ?thesis
  proof (cases rule: signed_by_cases)
    case (vote vp tc v)
    then have "guarded_construct_and_sign_vote_two_chain (st_env st) now vp tc ?sr = (Inr v, sr')"
      using h by (auto simp: hm split: prod.splits)
    from construct_vote_effect [OF this c] consider
      d where "sr_durable ?sr = Some d" "sd_last_vote d = Some v"
      | d where "sr_durable ?sr = Some d" "proposal_verified (st_env st) now vp tc ?sr d (v_vote_data v)"
        "vote_allowed (vp_block vp) tc d"
        "construct_ledger_info_2chain (vp_block vp) (st_hash st (v_vote_data v)) = Inr (v_ledger_info v)"
      by auto
    then have "vote_ok st (sys_history sys) (v_vote_data v) (v_ledger_info v)"
    proof cases
      case (1 d)
      then have "SignedVote (v_vote_data v) (v_ledger_info v) \<in> sys_history sys n"
        using nd by (auto simp: node_inv_def last_vote_signed_def)
      from system_invD(3) [OF inv n this] show ?thesis by simp
    next
      case (2 d)
      then show ?thesis using new_vote_ok [OF st inv n] ok vote(1) by blast
    qed
    then show ?thesis using vote(3) by simp
  next
    case (order ovp ov)
    then have "guarded_construct_and_sign_order_vote (st_env st) ovp ?sr = (Inr ov, sr')"
      using h by (auto simp: hm split: prod.splits)
    from construct_order_vote_effect [OF this c] obtain d where "sr_durable ?sr = Some d"
      "order_vote_allowed (st_env st) ovp ?sr d" "ov_ledger_info ov = ledger_info_new (ovp_block_info ovp) 0" by auto
    then show ?thesis using new_order_vote_ok [OF st inv n, of ovp d] ok order(1,3) by (simp add: ledger_info_new_def)
  next
    case (commit old new s)
    then have "guarded_sign_commit_vote (st_env st) old new ?sr = (Inr s, sr')"
      using h by (auto simp: hm split: prod.splits)
    then show ?thesis using new_commit_vote_ok [OF st inv n ok [unfolded commit(1)]] commit(3) by blast
  qed simp
qed

lemma system_inv_update:
  assumes inv: "system_inv st sys" and n: "n \<notin> st_faulty st"
    and nd: "node_inv (sys_history sys n \<union> new) sr'" "config_ok st sr'"
    and new: "\<And>m. m \<in> new \<Longrightarrow> message_ok st (sys_history sys) m"
  shows "system_inv st (update_node n new sr' sys)"
proof -
  let ?H = "sys_history (update_node n new sr' sys)"
  have le: "history_le (sys_history sys) ?H" by (simp add: history_le_def update_node_def)
  have "message_ok st ?H m" if "k \<notin> st_faulty st" "m \<in> ?H k" for k m
  proof -
    have "m \<in> sys_history sys k \<or> m \<in> new" using that(2) by (auto simp: update_node_def split: if_splits)
    then show ?thesis using message_ok_mono [OF le] new system_invD(3) [OF inv that(1)] by blast
  qed
  moreover have "node_inv (?H k) (sys_node (update_node n new sr' sys) k) \<and> config_ok st (sys_node (update_node n new sr' sys) k)"
    if "k \<notin> st_faulty st" for k
    using nd system_invD(1,2) [OF inv that] by (simp add: update_node_def)
  ultimately show ?thesis unfolding system_inv_def by blast
qed

lemma reachable_inv:
  assumes "setting_ok st"
  shows "reachable st sys \<Longrightarrow> system_inv st sys"
proof (induction rule: reachable.induct)
  case (initial sys)
  then show ?case
    using fresh_node_inv
    by (fastforce simp: system_inv_def fresh_node_def config_ok_def safety_rules_new_def)
next
  case (request sys n input now out sr')
  note inv = \<open>system_inv st sys\<close>
  note nd = system_invD(1) [OF inv request(2)]
  show ?case
  proof (rule system_inv_update [OF inv request(2)])
    show "node_inv (sys_history sys n \<union> signed_by input out) sr'" by (rule node_inv_handle_message [OF nd request(4)])
    show "config_ok st sr'"
      by (rule config_ok_step [OF system_invD(2) [OF inv request(2)] _ request(3,4)]) (use nd in \<open>simp add: node_inv_def\<close>)
  qed (rule new_messages_ok [OF assms inv request(2-4)])
next
  case (restarted sys n)
  note inv = \<open>system_inv st sys\<close>
  show ?case
  proof (rule system_inv_update [OF inv restarted(2)])
    show "node_inv (sys_history sys n \<union> {}) (restart (sys_node sys n))"
      using node_inv_restart [OF system_invD(1) [OF inv restarted(2)]] by simp
    show "config_ok st (restart (sys_node sys n))"
      using system_invD(2) [OF inv restarted(2)] by (simp add: config_ok_def restart_effect)
  qed simp
qed

text \<open>
  A sync info that verifies for the validators of the epoch passes the checks on a proposal that
  extends its quorum certificate.
\<close>

lemma sync_info_verify_caller_checks:
  assumes "sync_info_verify (st_crypto st) (st_validators st (b_epoch (vp_block vp))) si = Inr ()"
    and "b_quorum_cert (vp_block vp) = si_highest_quorum_cert si"
    and "block_verify_well_formed now (vp_block vp) = Inr ()"
  shows "caller_checks st sr (ConstructAndSignVoteTwoChain vp (si_highest_2chain_timeout_cert si))"
proof -
  have "sync_info_verify_structure si = Inr ()"
    "sync_info_verify_certificates (st_crypto st) (st_validators st (b_epoch (vp_block vp))) si = Inr ()"
    using assms(1) by (auto simp: sync_info_verify_def with_context_def result_simps)
  then show ?thesis
    using assms(2) block_verify_well_formed_parent [OF assms(3)]
    by (auto simp: sync_info_verify_structure_def sync_info_verify_certificates_def Let_def result_simps)
qed

section \<open>A concrete system\<close>

text \<open>
  The four validators of \<open>ex_verifier\<close>, the last one of them faulty: the other three enter
  epoch 1, vote for the block of \<open>Signing_History\<close> and then for its order.
\<close>

definition ex_setting :: setting where
  "ex_setting =
     \<lparr>st_env = ex_env, st_validators = (\<lambda>_. ex_verifier), st_faulty = - {1, 2, 3},
      st_block = (\<lambda>_. (1, 1)), st_vote_data = {qc_vote_data ex_genesis_qc, ex_vote_data}\<rparr>"

definition ex_ordered_li :: ledger_info_with_signatures where
  "ex_ordered_li = lis_new (ledger_info_new ex_block_info 0) ex_aggregate"

lemma ex_genesis_vote_data: "vd_proposed (qc_vote_data ex_genesis_qc) = ex_genesis_info"
  using ex_genesis_qc_simps(1) by (simp add: certified_block_def)

lemma ex_setting_ok: "setting_ok ex_setting"
proof -
  have "- {1, 2, 3} \<inter> members ex_verifier = {4}" by (auto simp: ex_members)
  then show ?thesis
    by (auto simp: setting_ok_def ex_setting_def ex_verifier_wf ex_members ex_power inj_on_def ex_genesis_vote_data
        bls_pairs_up_def)
qed

text \<open>The three validators take the same step one after the other; those in \<open>A\<close> have taken it.\<close>

definition ex_progress ::
    "signed set \<Rightarrow> signed set \<Rightarrow> (account_address \<Rightarrow> safety_rules) \<Rightarrow> (account_address \<Rightarrow> safety_rules) \<Rightarrow>
     account_address set \<Rightarrow> system" where
  "ex_progress h h' f f' A =
     \<lparr>sys_history = (\<lambda>a. if a \<in> A then h' else if a \<in> {1, 2, 3} then h else {}),
      sys_node = (\<lambda>a. if a \<in> A then f' a else if a \<in> {1, 2, 3} then f a else ex_start a)\<rparr>"

lemma ex_setting_simps [simp]:
  "st_env ex_setting = ex_env" "st_faulty ex_setting = - {1, 2, 3}" "st_validators ex_setting e = ex_verifier"
  "st_vote_data ex_setting = {qc_vote_data ex_genesis_qc, ex_vote_data}" "st_block ex_setting i = (1, 1)"
  by (simp_all add: ex_setting_def)

lemma ex_all_step:
  assumes r: "reachable ex_setting (ex_progress h h' f f' {})"
    and h: "\<And>a. a \<in> {1, 2, 3} \<Longrightarrow> handle_message ex_env 0 input (f a) = (out a, f' a)"
    and h': "\<And>a. h' = h \<union> signed_by input (out a)"
    and ok: "\<And>A a. A \<subseteq> {1, 2, 3} \<Longrightarrow> input_ok ex_setting (sys_history (ex_progress h h' f f' A)) (f a) input"
  shows "reachable ex_setting (ex_progress h' h'' f' f'' {})"
proof -
  have step: "reachable ex_setting (ex_progress h h' f f' (insert a A))"
    if A: "reachable ex_setting (ex_progress h h' f f' A)" "a \<in> {1, 2, 3}" "a \<notin> A" "A \<subseteq> {1, 2, 3}" for a A
  proof -
    have node: "sys_node (ex_progress h h' f f' A) a = f a" using A(2,3) by (simp add: ex_progress_def)
    have "reachable ex_setting (update_node a (signed_by input (out a)) (f' a) (ex_progress h h' f f' A))"
      by (rule reachable.request [OF A(1), where now = 0]) (use A(2,4) ok h node in auto)
    moreover have "update_node a (signed_by input (out a)) (f' a) (ex_progress h h' f f' A) = ex_progress h h' f f' (insert a A)"
      using A(2,3) h' [of a] by (auto simp: update_node_def ex_progress_def fun_eq_iff)
    ultimately show ?thesis by simp
  qed
  have "reachable ex_setting (ex_progress h h' f f' (insert 3 (insert 2 (insert 1 {}))))"
    by (intro step r) auto
  moreover have "ex_progress h h' f f' (insert 3 (insert 2 (insert 1 {}))) = ex_progress h' h'' f' f'' {}"
    by (auto simp: ex_progress_def fun_eq_iff)
  ultimately show ?thesis by simp
qed

lemma ex_sr_checks_signatures [simp]: "\<not> sr_skip_sig_verify (ex_sr a d)"
  by (simp add: ex_sr_def)

abbreviation ex_voted :: "signed set" where "ex_voted \<equiv> {SignedVote ex_vote_data ex_vote_li}"

lemma ex_reachable: "reachable ex_setting (ex_progress ex_hist ex_hist (\<lambda>a. ex_sr a (ex_sd2 a)) (\<lambda>a. ex_sr a (ex_sd2 a)) {})"
proof -
  have "fresh_node (ex_start a)" for a
    using ex_initialize_storage [of a] unfolding fresh_node_def ex_start_def by blast
  then have "reachable ex_setting (ex_progress {} {} ex_start (\<lambda>a. ex_sr a ex_sd0) {})"
    by (intro reachable.initial) (simp add: ex_progress_def)
  then have "reachable ex_setting (ex_progress {} ex_voted (\<lambda>a. ex_sr a ex_sd0) (\<lambda>a. ex_sr a (ex_sd1 a)) {})"
  proof (rule ex_all_step)
    show "a \<in> {1, 2, 3} \<Longrightarrow> handle_message ex_env 0 (Initialize ex_proof) (ex_start a) = (OutUnit (Inr ()), ex_sr a ex_sd0)" for a
      by (rule ex_handle_first_initialize) auto
    show "input_ok ex_setting H sr (Initialize ex_proof)" for H sr
      by (auto simp: input_ok_def proof_epoch_state_def epoch_change_proof_verify_def ex_proof_def ex_genesis_def result_simps Let_def)
  qed simp
  then have "reachable ex_setting (ex_progress ex_voted ex_hist (\<lambda>a. ex_sr a (ex_sd1 a)) (\<lambda>a. ex_sr a (ex_sd2 a)) {})"
  proof (rule ex_all_step [OF _ ex_handle_vote])
    have "verify_signatures bls ex_verifier (qc_signed_ledger_info ex_genesis_qc) \<noteq> Inr ()" for bls
      by (auto simp: verify_signatures_def ex_genesis_qc_def quorum_cert_new_def lis_new_def aggregate_signature_empty_def
          elim!: verify_multi_signatures_Inr)
    then show "input_ok ex_setting H (ex_sr a ex_sd0) (ConstructAndSignVoteTwoChain ex_proposal None)" for H a
      using ex_gen_vote_data
      by (simp add: ex_proposal_def block_known_def li_unforged_def input_ok_def)
  qed simp
  then show ?thesis
  proof (rule ex_all_step [OF _ ex_handle_order_vote])
    show "ex_hist = ex_voted \<union> signed_by (ConstructAndSignOrderVote ex_order_proposal) (OutOrderVote (Inr (ex_order_vote a)))" for a
      unfolding ex_order_vote_signed ex_hist_def by blast
    show "input_ok ex_setting (sys_history (ex_progress ex_voted ex_hist f f' A)) (ex_sr a (ex_sd1 a))
        (ConstructAndSignOrderVote ex_order_proposal)"
      if "A \<subseteq> {1, 2, 3}" for f f' A a
      by (auto simp: input_ok_def ex_order_proposal_def block_known_def li_unforged_def ex_qc_def quorum_cert_new_def lis_new_def
          ex_aggregate_authors ex_progress_def ex_hist_def)
  qed
qed

section \<open>Properties\<close>

text \<open>C1. Safety of consensus, for validators whose safety rules get requests that passed the checks left to
  the callers (\<open>caller_checks\<close>: a timeout certificate is of the epoch of the block; a commit vote is for a
  block of positive round, certified in its own epoch, and takes over its consensus data hash or none;
  with \<open>skip_sig_verify\<close> set the certificates were verified before). Let at most a third of the voting
  power of each epoch be faulty, let signatures not be forged, hashes not collide and epoch changes lead
  to the validators of the epoch (\<open>genuine_input\<close>). Then, in whatever order such requests come, with
  or without \<open>skip_sig_verify\<close>, however the storage fails and however often validators restart, two
  ledger infos of an epoch that carry the signatures of a quorum commit blocks on one chain of certified
  blocks. In particular they commit the same block if the rounds are equal.\<close>

theorem committed_blocks_on_one_chain:
  assumes "setting_ok st" "reachable st sys"
    and "verify_signatures (cr_ledger_info (st_crypto st)) (st_validators st e) s = Inr ()"
    and "verify_signatures (cr_ledger_info (st_crypto st)) (st_validators st e) s' = Inr ()"
    and "li_unforged st (sys_history sys) s" "li_unforged st (sys_history sys) s'"
    and "li_epoch (lis_ledger_info s) = e" "li_epoch (lis_ledger_info s') = e"
    and "0 < li_round (lis_ledger_info s)" "li_round (lis_ledger_info s) \<le> li_round (lis_ledger_info s')"
  shows "(\<exists>b vd. bi_id b = consensus_block_id (lis_ledger_info s) \<and> bi_round b = li_round (lis_ledger_info s) \<and>
       bi_id (vd_proposed vd) = consensus_block_id (lis_ledger_info s') \<and>
       bi_round (vd_proposed vd) = li_round (lis_ledger_info s') \<and> descends st (sys_history sys) vd b) \<and>
    (li_round (lis_ledger_info s) = li_round (lis_ledger_info s') \<longrightarrow>
       consensus_block_id (lis_ledger_info s) = consensus_block_id (lis_ledger_info s'))"
proof -
  note inv = reachable_inv [OF assms(1,2)]
  have ord: "\<exists>b. ordered st (sys_history sys) b \<and> same_block b (li_commit_info (lis_ledger_info x))"
    if "verify_signatures (cr_ledger_info (st_crypto st)) (st_validators st e) x = Inr ()"
      "li_unforged st (sys_history sys) x" "li_epoch (lis_ledger_info x) = e" "0 < li_round (lis_ledger_info x)" for x
    using signed_quorum_ordered [OF assms(1) inv _ that(4)] li_unforged_quorum [OF assms(1) that(2,1)] that(3) by blast
  have pos: "0 < li_round (lis_ledger_info s')" using assms(9,10) by (rule less_le_trans)
  obtain b where b: "ordered st (sys_history sys) b" "same_block b (li_commit_info (lis_ledger_info s))"
    using ord [OF assms(3,5,7,9)] by blast
  obtain b' where b': "ordered st (sys_history sys) b'" "same_block b' (li_commit_info (lis_ledger_info s'))"
    using ord [OF assms(4,6,8) pos] by blast
  obtain vd where vd: "certified st (sys_history sys) vd" "vd_proposed vd = b'"
    by (rule ordered_certified [OF assms(1) inv b'(1)])
  obtain vb where vb: "certified st (sys_history sys) vb" "vd_proposed vb = b"
    by (rule ordered_certified [OF assms(1) inv b(1)])
  note eqs = b(2) b'(2) assms(7,8) and defs = same_block_def li_epoch_def li_round_def consensus_block_id_def
  have "descends st (sys_history sys) vd b"
    by (rule certified_descends [OF assms(1) inv b(1) vd(1)]) (use eqs assms(10) in \<open>simp_all add: defs vd(2)\<close>)
  moreover have "b = b'" if "li_round (lis_ledger_info s) = li_round (lis_ledger_info s')"
    using certified_unique [OF assms(1) inv vb(1) vd(1)] that eqs by (simp add: defs vd(2) vb(2)) (use vb(2) vd(2) in metis)
  ultimately show ?thesis using eqs vd(2) by (auto simp: defs)
qed

theorem committed_blocks_on_one_chain_witness:
  "(\<exists>b vd. bi_id b = 6 \<and> bi_round b = 1 \<and> bi_id (vd_proposed vd) = 6 \<and> bi_round (vd_proposed vd) = 1 \<and>
      descends ex_setting (sys_history (ex_progress ex_hist ex_hist (\<lambda>a. ex_sr a (ex_sd2 a)) (\<lambda>a. ex_sr a (ex_sd2 a)) {})) vd b)"
proof -
  let ?sys = "ex_progress ex_hist ex_hist (\<lambda>a. ex_sr a (ex_sd2 a)) (\<lambda>a. ex_sr a (ex_sd2 a)) {}"
  have li: "lis_ledger_info ex_ordered_li = ledger_info_new ex_block_info 0" "lis_signatures ex_ordered_li = ex_aggregate"
    by (simp_all add: ex_ordered_li_def lis_new_def)
  have v: "verify_signatures toy_bls ex_verifier ex_ordered_li = Inr ()"
    by (simp add: verify_signatures_def li ex_aggregate_verifies)
  have u: "li_unforged ex_setting (sys_history ?sys) ex_ordered_li"
    by (auto simp: li_unforged_def li ex_aggregate_authors ex_progress_def ex_hist_def)
  have f: "li_epoch (lis_ledger_info ex_ordered_li) = 1" "li_round (lis_ledger_info ex_ordered_li) = 1"
    "consensus_block_id (lis_ledger_info ex_ordered_li) = 6"
    by (simp_all add: li ledger_info_new_def li_epoch_def li_round_def consensus_block_id_def)
  show ?thesis
    using committed_blocks_on_one_chain [OF ex_setting_ok ex_reachable, of 1 ex_ordered_li ex_ordered_li] u v f by simp
qed

end
