(* ===== verification/Pending_Votes.thy ===== *)
theory Pending_Votes
  imports Signature_Aggregator Votes "HOL-Library.AList"
begin

text \<open>
  The collection of votes, timeouts and order votes into certificates:
  \<open>consensus/src/pending_votes.rs\<close> and \<open>consensus/src/pending_order_votes.rs\<close>.
  The digest of a ledger info is a parameter. A state of the methods pairs the collection with
  the verifier's eagerly verified set, which aggregation extends. Metrics and logging are left
  out. An error that carries \<open>VerifyPanic\<close> stands for a panic.
\<close>

section \<open>Hash maps\<close>

text \<open>
  A \<open>HashMap\<close> is a list of entries with distinct keys. Where the source iterates over
  one and the order matters, the order is a parameter.
\<close>

type_synonym ('k, 'v) hash_map = "('k \<times> 'v) list"

definition hm_get :: "('k, 'v) hash_map \<Rightarrow> 'k \<Rightarrow> 'v option" where
  "hm_get m k = map_of m k"

definition hm_insert :: "'k \<Rightarrow> 'v \<Rightarrow> ('k, 'v) hash_map \<Rightarrow> ('k, 'v) hash_map" where
  "hm_insert k v m = AList.update k v m"

text \<open>\<open>entry(k).or_insert(v)\<close>, and \<open>*entry(k).or_default() += n\<close>, which may overflow.\<close>

definition hm_or_insert :: "'k \<Rightarrow> 'v \<Rightarrow> ('k, 'v) hash_map \<Rightarrow> ('k, 'v) hash_map" where
  "hm_or_insert k v m = (case hm_get m k of Some _ \<Rightarrow> m | None \<Rightarrow> hm_insert k v m)"

definition hm_add :: "'k \<Rightarrow> u128 \<Rightarrow> ('k, u128) hash_map \<Rightarrow> ('k, u128) hash_map option" where
  "hm_add k n m =
     Option.bind (checked_add (case hm_get m k of Some p \<Rightarrow> p | None \<Rightarrow> 0) n) (\<lambda>p. Some (hm_insert k p m))"

text \<open>\<open>Iterator::max_by_key\<close> returns the last of the greatest elements.\<close>

definition max_by_power :: "('k \<times> u128) list \<Rightarrow> ('k \<times> u128) option" where
  "max_by_power xs =
     fold (\<lambda>x best. case best of None \<Rightarrow> Some x | Some y \<Rightarrow> if snd y \<le> snd x then Some x else Some y) xs None"

section \<open>Timeouts\<close>

datatype vote_reception_result =
    VoteAdded u128
  | DuplicateVote
  | EquivocateVote
  | NewQuorumCertificate quorum_cert
  | New2ChainTimeoutCertificate two_chain_timeout_certificate
  | ErrorAddingVote verify_error
  | ErrorAggregatingSignature verify_error
  | ErrorAggregatingTimeoutCertificate verify_error
  | UnexpectedRound u64 u64
  | EchoTimeout u128
  | UnknownVoteAuthor account_address

datatype vote_status =
    EnoughVotes ledger_info_with_signatures
  | NotEnoughVotes "ledger_info signature_aggregator"

record two_chain_timeout_votes =
  tcv_timeout_reason :: "(account_address, round_timeout_reason) hash_map"
  tcv_partial_2chain_tc :: two_chain_timeout_with_partial_signatures

definition two_chain_timeout_votes_new :: "two_chain_timeout \<Rightarrow> two_chain_timeout_votes" where
  "two_chain_timeout_votes_new t = \<lparr>tcv_timeout_reason = [], tcv_partial_2chain_tc = partial_timeout_new t\<rparr>"

definition tcv_add ::
    "two_chain_timeout_votes \<Rightarrow> account_address \<Rightarrow> two_chain_timeout \<Rightarrow> bls_signature \<Rightarrow> round_timeout_reason \<Rightarrow>
     two_chain_timeout_votes" where
  "tcv_add votes author t signature reason =
     votes\<lparr>tcv_partial_2chain_tc := partial_timeout_add (tcv_partial_2chain_tc votes) author t signature,
           tcv_timeout_reason := hm_or_insert author reason (tcv_timeout_reason votes)\<rparr>"

definition voting_power_or_default :: "validator_verifier \<Rightarrow> account_address \<Rightarrow> u128" where
  "voting_power_or_default vv author = (case get_voting_power vv author of Some p \<Rightarrow> ucast p | None \<Rightarrow> 0)"

text \<open>Only the variant of a reason counts; the missing authors are replaced by a placeholder.\<close>

fun reason_key :: "validator_verifier \<Rightarrow> round_timeout_reason \<Rightarrow> round_timeout_reason" where
  "reason_key vv (PayloadUnavailable _) = PayloadUnavailable (with_num_bits (word_of_nat (verifier_len vv)))"
| "reason_key vv reason = reason"

fun reason_missing :: "round_timeout_reason \<Rightarrow> nat list" where
  "reason_missing (PayloadUnavailable missing) = iter_ones missing"
| "reason_missing reason = []"

fun add_missing :: "u128 \<Rightarrow> nat list \<Rightarrow> (nat, u128) hash_map \<Rightarrow> (nat, u128) hash_map option" where
  "add_missing weight [] m = Some m"
| "add_missing weight (i # indices) m = Option.bind (hm_add i weight m) (add_missing weight indices)"

fun tally_reasons ::
    "validator_verifier \<Rightarrow> (account_address \<times> round_timeout_reason) list \<Rightarrow>
     (round_timeout_reason, u128) hash_map \<Rightarrow> (nat, u128) hash_map \<Rightarrow>
     ((round_timeout_reason, u128) hash_map \<times> (nat, u128) hash_map) option" where
  "tally_reasons vv [] reason_voting_power missing_batch_authors = Some (reason_voting_power, missing_batch_authors)"
| "tally_reasons vv ((author, reason) # rest) reason_voting_power missing_batch_authors =
     Option.bind (add_missing (voting_power_or_default vv author) (reason_missing reason) missing_batch_authors) (\<lambda>missing.
     Option.bind (hm_add (reason_key vv reason) (voting_power_or_default vv author) reason_voting_power) (\<lambda>powers.
     tally_reasons vv rest powers missing))"

text \<open>\<open>check_aggregated_voting_power(weight, false).is_ok()\<close>; \<open>None\<close> is a panic.\<close>

definition has_minority :: "validator_verifier \<Rightarrow> u128 \<Rightarrow> bool option" where
  "has_minority vv weight =
     (case check_aggregated_voting_power vv weight False of
        Inr _ \<Rightarrow> Some True
      | Inl VerifyPanic \<Rightarrow> None
      | Inl _ \<Rightarrow> Some False)"

fun aggregated_missing :: "validator_verifier \<Rightarrow> (nat \<times> u128) list \<Rightarrow> bit_vec \<Rightarrow> bit_vec option" where
  "aggregated_missing vv [] bits = Some bits"
| "aggregated_missing vv ((index, weight) # rest) bits =
     Option.bind (has_minority vv weight) (\<lambda>enough.
     aggregated_missing vv rest (if enough then bitvec_set bits (word_of_nat index) else bits))"

text \<open>
  The reason with the most voting power, if it has more than a third. \<open>order\<close> is the order
  in which the map of reasons is iterated over. \<open>None\<close> is a panic.
\<close>

definition aggregated_timeout_reason ::
    "((round_timeout_reason, u128) hash_map \<Rightarrow> (round_timeout_reason \<times> u128) list) \<Rightarrow> validator_verifier \<Rightarrow>
     two_chain_timeout_votes \<Rightarrow> round_timeout_reason option" where
  "aggregated_timeout_reason order vv votes =
     Option.bind (tally_reasons vv (tcv_timeout_reason votes) [] []) (\<lambda>(reason_voting_power, missing_batch_authors).
     case max_by_power (order reason_voting_power) of
       None \<Rightarrow> Some Unknown
     | Some (reason, weight) \<Rightarrow>
         Option.bind (has_minority vv weight) (\<lambda>enough.
         if \<not> enough then Some Unknown
         else case reason of
                PayloadUnavailable _ \<Rightarrow>
                  map_option PayloadUnavailable
                    (aggregated_missing vv missing_batch_authors (with_num_bits (word_of_nat (verifier_len vv))))
              | _ \<Rightarrow> Some reason))"

definition unpack_aggregate ::
    "((round_timeout_reason, u128) hash_map \<Rightarrow> (round_timeout_reason \<times> u128) list) \<Rightarrow> validator_verifier \<Rightarrow>
     two_chain_timeout_votes \<Rightarrow> (two_chain_timeout_with_partial_signatures \<times> round_timeout_reason) option" where
  "unpack_aggregate order vv votes =
     map_option (\<lambda>reason. (tcv_partial_2chain_tc votes, reason)) (aggregated_timeout_reason order vv votes)"

section \<open>Pending votes\<close>

record pending_votes =
  pv_li_digest_to_votes :: "(hash_value, nat \<times> vote_status) hash_map"
  pv_maybe_2chain_timeout_votes :: "two_chain_timeout_votes option"
  pv_author_to_vote :: "(account_address, vote \<times> hash_value) hash_map"
  pv_echo_timeout :: bool

definition pending_votes_new :: pending_votes where
  "pending_votes_new =
     \<lparr>pv_li_digest_to_votes = [], pv_maybe_2chain_timeout_votes = None, pv_author_to_vote = [], pv_echo_timeout = False\<rparr>"

text \<open>
  The timeout is added and a timeout certificate is formed if it completes a quorum. The result
  is the value returned early, or the voting power of the timeouts so far.
\<close>

definition add_timeout_vote ::
    "crypto \<Rightarrow> validator_verifier \<Rightarrow> account_address \<Rightarrow> two_chain_timeout \<Rightarrow> bls_signature \<Rightarrow> round_timeout_reason \<Rightarrow>
     (pending_votes, vote_reception_result, u128) method_result" where
  "add_timeout_vote cr vv author t signature reason pv =
     (let votes = (case pv_maybe_2chain_timeout_votes pv of
                     Some votes \<Rightarrow> votes | None \<Rightarrow> two_chain_timeout_votes_new t);
          votes' = tcv_add votes author t signature reason;
          partial_tc = tcv_partial_2chain_tc votes';
          pv' = pv\<lparr>pv_maybe_2chain_timeout_votes := Some votes'\<rparr>
      in case check_voting_power vv (ptc_signers partial_tc) True of
           Inr _ \<Rightarrow>
             (Inl (case partial_timeout_aggregate_signatures cr vv partial_tc of
                     Inr tc \<Rightarrow> New2ChainTimeoutCertificate tc
                   | Inl e \<Rightarrow> ErrorAggregatingTimeoutCertificate e), pv')
         | Inl (TooLittleVotingPower tc_voting_power _) \<Rightarrow>
             if pv_echo_timeout pv' then (Inr tc_voting_power, pv')
             else (case Option.bind (checked_sub (total_voting_power vv) (quorum_voting_power vv))
                          (\<lambda>d. checked_add d 1) of
                     None \<Rightarrow> (Inl (ErrorAddingVote VerifyPanic), pv')
                   | Some f_plus_one \<Rightarrow>
                       if tc_voting_power \<ge> f_plus_one
                       then (Inl (EchoTimeout tc_voting_power), pv'\<lparr>pv_echo_timeout := True\<rparr>)
                       else (Inr tc_voting_power, pv'))
         | Inl error \<Rightarrow> (Inl (ErrorAddingVote error), pv'))"

definition pv_insert_round_timeout ::
    "crypto \<Rightarrow> validator_verifier \<Rightarrow> round_timeout \<Rightarrow> pending_votes \<Rightarrow> vote_reception_result \<times> pending_votes" where
  "pv_insert_round_timeout cr vv rt pv =
     (case add_timeout_vote cr vv (rt_author rt) (rt_timeout rt) (rt_signature rt) (rt_reason rt) pv of
        (Inl result, pv') \<Rightarrow> (result, pv')
      | (Inr tc_voting_power, pv') \<Rightarrow> (VoteAdded tc_voting_power, pv'))"

text \<open>Whether the author has already voted in this round.\<close>

definition previously_seen :: "hash_value \<Rightarrow> vote \<Rightarrow> pending_votes \<Rightarrow> vote_reception_result option" where
  "previously_seen li_digest v pv =
     (case hm_get (pv_author_to_vote pv) (v_author v) of
        None \<Rightarrow> None
      | Some (previously_seen_vote, previous_li_digest) \<Rightarrow>
          if li_digest = previous_li_digest
          then if vote_is_timeout v \<and> \<not> vote_is_timeout previously_seen_vote then None else Some DuplicateVote
          else Some EquivocateVote)"

text \<open>
  A signature is added to the aggregator, and the ledger info is certified if it completes a
  quorum of signatures that hold: the part that votes and order votes share.
\<close>

datatype collected =
    NowEnough ledger_info_with_signatures
  | StillCollecting u128
  | AggregationFailed verify_error
  | AddingFailed verify_error

definition collect_signature ::
    "ledger_info bls \<Rightarrow> validator_verifier \<Rightarrow> account_address \<Rightarrow> signature_with_status \<Rightarrow>
     ledger_info signature_aggregator \<Rightarrow> verify_mode \<Rightarrow> collected \<times> vote_status \<times> verify_mode" where
  "collect_signature bls vv author signature sig_aggregator mode =
     (let sa = sa_add_signature sig_aggregator author signature
      in case sa_check_voting_power vv sa True of
           Inr aggregated_voting_power \<Rightarrow>
             if aggregated_voting_power < quorum_voting_power vv
             then (AddingFailed VerifyPanic, NotEnoughVotes sa, mode)
             else (case aggregate_and_verify bls vv (sa, mode) of
                     (Inr (ledger_info, aggregated_sig), _, mode') \<Rightarrow>
                       (NowEnough (lis_new ledger_info aggregated_sig), EnoughVotes (lis_new ledger_info aggregated_sig), mode')
                   | (Inl (TooLittleVotingPower voting_power _), sa', mode') \<Rightarrow>
                       (StillCollecting voting_power, NotEnoughVotes sa', mode')
                   | (Inl e, sa', mode') \<Rightarrow> (AggregationFailed e, NotEnoughVotes sa', mode'))
         | Inl (TooLittleVotingPower voting_power _) \<Rightarrow> (StillCollecting voting_power, NotEnoughVotes sa, mode)
         | Inl error \<Rightarrow> (AddingFailed error, NotEnoughVotes sa, mode))"

definition add_vote_to_status ::
    "crypto \<Rightarrow> validator_verifier \<Rightarrow> vote \<Rightarrow> vote_status \<Rightarrow> verify_mode \<Rightarrow>
     (vote_reception_result + u128) \<times> vote_status \<times> verify_mode" where
  "add_vote_to_status cr vv v status mode =
     (case status of
        EnoughVotes li_with_sig \<Rightarrow>
          (Inl (NewQuorumCertificate (quorum_cert_new (v_vote_data v) li_with_sig)), status, mode)
      | NotEnoughVotes sig_aggregator \<Rightarrow>
          (case collect_signature (cr_ledger_info cr) vv (v_author v) (v_signature v) sig_aggregator mode of
             (result, status', mode') \<Rightarrow>
               (case result of
                  NowEnough li_with_sig \<Rightarrow> Inl (NewQuorumCertificate (quorum_cert_new (v_vote_data v) li_with_sig))
                | StillCollecting voting_power \<Rightarrow> Inr voting_power
                | AggregationFailed e \<Rightarrow> Inl (ErrorAggregatingSignature e)
                | AddingFailed e \<Rightarrow> Inl (ErrorAddingVote e), status', mode')))"

text \<open>
  A vote that is neither a duplicate nor an equivocation is stored, and the entry of its ledger
  info is looked up or created.
\<close>

definition store_vote :: "hash_value \<Rightarrow> vote \<Rightarrow> pending_votes \<Rightarrow> (nat \<times> vote_status) \<times> pending_votes" where
  "store_vote li_digest v pv =
     (let len = length (pv_li_digest_to_votes pv) + 1;
          entry = (case hm_get (pv_li_digest_to_votes pv) li_digest of
                     Some e \<Rightarrow> e
                   | None \<Rightarrow> (len, NotEnoughVotes (signature_aggregator_new (v_ledger_info v))))
      in (entry, pv\<lparr>pv_author_to_vote := hm_insert (v_author v) (v, li_digest) (pv_author_to_vote pv),
                    pv_li_digest_to_votes := hm_insert li_digest entry (pv_li_digest_to_votes pv)\<rparr>))"

definition put_status :: "hash_value \<Rightarrow> nat \<Rightarrow> vote_status \<Rightarrow> pending_votes \<Rightarrow> pending_votes" where
  "put_status li_digest hash_index status pv =
     pv\<lparr>pv_li_digest_to_votes := hm_insert li_digest (hash_index, status) (pv_li_digest_to_votes pv)\<rparr>"

definition count_vote ::
    "crypto \<Rightarrow> hash_value \<Rightarrow> validator_verifier \<Rightarrow> vote \<Rightarrow> pending_votes \<Rightarrow> verify_mode \<Rightarrow>
     vote_reception_result \<times> pending_votes \<times> verify_mode" where
  "count_vote cr li_digest vv v pv mode =
     (case store_vote li_digest v pv of ((hash_index, status), pv1) \<Rightarrow>
        if get_voting_power vv (v_author v) = None then (UnknownVoteAuthor (v_author v), pv1, mode)
        else case add_vote_to_status cr vv v status mode of
               (Inl result, status', mode') \<Rightarrow> (result, put_status li_digest hash_index status' pv1, mode')
             | (Inr voting_power, status', mode') \<Rightarrow>
                 (let pv2 = put_status li_digest hash_index status' pv1
                  in case v_two_chain_timeout v of
                       None \<Rightarrow> (VoteAdded voting_power, pv2, mode')
                     | Some (t, signature) \<Rightarrow>
                         (case add_timeout_vote cr vv (v_author v) t signature Unknown pv2 of
                            (Inl result, pv3) \<Rightarrow> (result, pv3, mode')
                          | (Inr _, pv3) \<Rightarrow> (VoteAdded voting_power, pv3, mode'))))"

definition pv_insert_vote ::
    "crypto \<Rightarrow> (ledger_info \<Rightarrow> hash_value) \<Rightarrow> validator_verifier \<Rightarrow> vote \<Rightarrow> pending_votes \<times> verify_mode \<Rightarrow>
     vote_reception_result \<times> pending_votes \<times> verify_mode" where
  "pv_insert_vote cr li_hash vv v state =
     (case state of (pv, mode) \<Rightarrow>
        let li_digest = li_hash (v_ledger_info v)
        in case previously_seen li_digest v pv of
             Some result \<Rightarrow> (result, pv, mode)
           | None \<Rightarrow> count_vote cr li_digest vv v pv mode)"

text \<open>The votes are drained in the unspecified order of the map, so they are kept as a map.\<close>

definition drain_votes ::
    "pending_votes \<Rightarrow> ((hash_value \<rightharpoonup> vote_status) \<times> two_chain_timeout_votes option) \<times> pending_votes" where
  "drain_votes pv =
     ((\<lambda>digest. map_option snd (hm_get (pv_li_digest_to_votes pv) digest), pv_maybe_2chain_timeout_votes pv),
      pv\<lparr>pv_li_digest_to_votes := [], pv_maybe_2chain_timeout_votes := None\<rparr>)"

section \<open>Pending order votes\<close>

datatype order_vote_reception_result =
    OrderVoteAdded u128
  | NewLedgerInfoWithSignatures quorum_cert ledger_info_with_signatures
  | ErrorAddingOrderVote verify_error
  | ErrorAggregatingOrderVotes verify_error
  | UnknownOrderVoteAuthor account_address

type_synonym order_vote_status = vote_status

record pending_order_votes =
  pov_li_digest_to_votes :: "(hash_value, quorum_cert \<times> order_vote_status) hash_map"

definition pending_order_votes_new :: pending_order_votes where
  "pending_order_votes_new = \<lparr>pov_li_digest_to_votes = []\<rparr>"

definition pov_exists :: "pending_order_votes \<Rightarrow> hash_value \<Rightarrow> bool" where
  "pov_exists pov li_digest \<longleftrightarrow> hm_get (pov_li_digest_to_votes pov) li_digest \<noteq> None"

definition insert_order_vote ::
    "ledger_info bls \<Rightarrow> (ledger_info \<Rightarrow> hash_value) \<Rightarrow> validator_verifier \<Rightarrow> order_vote \<Rightarrow> quorum_cert option \<Rightarrow>
     pending_order_votes \<times> verify_mode \<Rightarrow> order_vote_reception_result \<times> pending_order_votes \<times> verify_mode" where
  "insert_order_vote bls li_hash vv ov verified_quorum_cert state =
     (case state of (pov, mode) \<Rightarrow>
        let li_digest = li_hash (ov_ledger_info ov)
        in case (case hm_get (pov_li_digest_to_votes pov) li_digest of
                   Some entry \<Rightarrow> Some entry
                 | None \<Rightarrow> map_option (\<lambda>qc. (qc, NotEnoughVotes (signature_aggregator_new (ov_ledger_info ov))))
                             verified_quorum_cert) of
             None \<Rightarrow> (ErrorAddingOrderVote VerifyPanic, pov, mode)
           | Some (qc, status) \<Rightarrow>
               let put = (\<lambda>s. pov\<lparr>pov_li_digest_to_votes := hm_insert li_digest (qc, s) (pov_li_digest_to_votes pov)\<rparr>)
               in case status of
                    EnoughVotes li_with_sig \<Rightarrow> (NewLedgerInfoWithSignatures qc li_with_sig, put status, mode)
                  | NotEnoughVotes sig_aggregator \<Rightarrow>
                      if get_voting_power vv (ov_author ov) = None
                      then (UnknownOrderVoteAuthor (ov_author ov), put status, mode)
                      else case collect_signature bls vv (ov_author ov) (ov_signature ov) sig_aggregator mode of
                             (result, status', mode') \<Rightarrow>
                               (case result of
                                  NowEnough li_with_sig \<Rightarrow> NewLedgerInfoWithSignatures qc li_with_sig
                                | StillCollecting voting_power \<Rightarrow> OrderVoteAdded voting_power
                                | AggregationFailed e \<Rightarrow> ErrorAggregatingOrderVotes e
                                | AddingFailed e \<Rightarrow> ErrorAddingOrderVote e, put status', mode'))"

fun status_round :: "vote_status \<Rightarrow> round_t" where
  "status_round (EnoughVotes li_with_sig) = li_round (lis_ledger_info li_with_sig)"
| "status_round (NotEnoughVotes sig_aggregator) = li_round (sa_data sig_aggregator)"

definition garbage_collect :: "u64 \<Rightarrow> pending_order_votes \<Rightarrow> pending_order_votes" where
  "garbage_collect highest_ordered_rnd pov =
     pov\<lparr>pov_li_digest_to_votes :=
           filter (\<lambda>(_, _, status). status_round status > highest_ordered_rnd) (pov_li_digest_to_votes pov)\<rparr>"

definition has_enough_order_votes :: "(ledger_info \<Rightarrow> hash_value) \<Rightarrow> pending_order_votes \<Rightarrow> ledger_info \<Rightarrow> bool" where
  "has_enough_order_votes li_hash pov li =
     (case hm_get (pov_li_digest_to_votes pov) (li_hash li) of
        Some (_, EnoughVotes _) \<Rightarrow> True
      | _ \<Rightarrow> False)"
section \<open>Facts about the parts\<close>

lemma hm_get_insert: "hm_get (hm_insert k v m) k' = (if k' = k then Some v else hm_get m k')"
  by (simp add: hm_get_def hm_insert_def update_conv)

text \<open>
  The status kept for a ledger info: a certificate that verifies, or an aggregator with at most
  one signature of each of some members.
\<close>

fun status_ok :: "ledger_info bls \<Rightarrow> validator_verifier \<Rightarrow> ledger_info \<Rightarrow> vote_status \<Rightarrow> bool" where
  "status_ok bls vv li (EnoughVotes s) \<longleftrightarrow> lis_ledger_info s = li \<and> verify_signatures bls vv s = Inr ()"
| "status_ok bls vv li (NotEnoughVotes sa) \<longleftrightarrow> sa_data sa = li \<and> sa_wf sa \<and> set (all_voters sa) \<subseteq> members vv"

lemma status_ok_new [simp]: "status_ok bls vv li (NotEnoughVotes (signature_aggregator_new li))"
  by (simp add: signature_aggregator_new_def all_voters_def sa_wf_def)

lemma set_all_voters_add: "set (all_voters (sa_add_signature sa a s)) = insert a (set (all_voters sa))"
  by (simp add: all_voters_def sa_add_signature_def btree_keys_insert)

lemma get_voting_power_member: "verifier_wf vv \<Longrightarrow> get_voting_power vv a \<noteq> None \<longleftrightarrow> a \<in> members vv"
  using verifier_index_None [of vv a] by (cases "address_to_validator_index vv a") (simp_all add: get_voting_power_def)

lemma sa_data_add [simp]: "sa_data (sa_add_signature sa a s) = sa_data sa"
  by (simp add: sa_add_signature_def)

lemma status_ok_add:
  "verifier_wf vv \<Longrightarrow> status_ok bls vv li (NotEnoughVotes sa) \<Longrightarrow> get_voting_power vv a \<noteq> None \<Longrightarrow>
     status_ok bls vv li (NotEnoughVotes (sa_add_signature sa a s))"
  using get_voting_power_member [of vv a] by (auto simp: set_all_voters_add sa_wf_add)

text \<open>Aggregation leaves the aggregator as it was or drops the signatures that do not hold.\<close>

lemma aggregate_and_verify_state:
  assumes "aggregate_and_verify bls vv (sa, mode) = (r, sa', mode')"
  shows "sa' = sa \<or> sa' = fst (sa_filter_invalid_signatures bls vv (sa, mode))"
  using assms
  by (auto simp: aggregate_and_verify_def sbind_def sread_def Let_def split: sum.splits prod.splits verify_error.splits)

lemma valid_voters_subset: "valid_voters bls vv sa \<subseteq> set (all_voters sa)"
  by (force simp: valid_voters_def all_voters_def)

lemma valid_voters_filter [simp]:
  "valid_voters bls vv (fst (sa_filter_invalid_signatures bls vv (sa, mode))) = valid_voters bls vv sa"
  by (force simp: valid_voters_def fst_sa_filter)

lemma status_ok_filter:
  "status_ok bls vv li (NotEnoughVotes sa) \<Longrightarrow>
     status_ok bls vv li (NotEnoughVotes (fst (sa_filter_invalid_signatures bls vv (sa, mode))))"
  using valid_voters_subset [of bls vv sa] by (auto simp: sa_wf_filter fst_sa_filter(2) all_voters_filter)

lemma collect_signature_cases:
  assumes "collect_signature bls vv a s sa mode = (result, status, mode')"
  obtains (enough) data agg st where
      "aggregate_and_verify bls vv (sa_add_signature sa a s, mode) = (Inr (data, agg), st)"
      "result = NowEnough (lis_new data agg)" "status = EnoughVotes (lis_new data agg)"
  | (tried) r sa' mode'' where
      "aggregate_and_verify bls vv (sa_add_signature sa a s, mode) = (r, sa', mode'')"
      "status = NotEnoughVotes sa'" "\<forall>l. result \<noteq> NowEnough l"
  | (added) "status = NotEnoughVotes (sa_add_signature sa a s)" "\<forall>l. result \<noteq> NowEnough l"
proof (cases "sa_check_voting_power vv (sa_add_signature sa a s) True")
  case (Inl e)
  then show ?thesis using assms added by (cases e) (auto simp: collect_signature_def Let_def)
next
  case (Inr p)
  show ?thesis
  proof (cases "p < quorum_voting_power vv")
    case True
    then show ?thesis using assms Inr added by (auto simp: collect_signature_def Let_def)
  next
    case False
    obtain r sa' m' where agg: "aggregate_and_verify bls vv (sa_add_signature sa a s, mode) = (r, sa', m')" by (metis prod_cases3)
    show ?thesis
    proof (cases r)
      case (Inl e)
      then show ?thesis using assms Inr False agg tried by (cases e) (auto simp: collect_signature_def Let_def)
    next
      case (Inr x)
      then show ?thesis using assms \<open>sa_check_voting_power _ _ _ = _\<close> False agg enough
        by (cases x) (auto simp: collect_signature_def Let_def)
    qed
  qed
qed

lemma collect_signature_ok:
  assumes "verifier_wf vv" "status_ok bls vv li (NotEnoughVotes sa)" "get_voting_power vv a \<noteq> None"
    and "collect_signature bls vv a s sa mode = (result, status, mode')"
  shows "status_ok bls vv li status \<and>
    (case result of NowEnough lis \<Rightarrow> status = EnoughVotes lis
       | _ \<Rightarrow> (\<exists>sa'. status = NotEnoughVotes sa' \<and>
                valid_voters bls vv sa' = valid_voters bls vv (sa_add_signature sa a s)))"
proof -
  let ?sa = "sa_add_signature sa a s"
  note add = status_ok_add [OF assms(1-3), of s]
  have filtered: "status_ok bls vv li (NotEnoughVotes sa') \<and> valid_voters bls vv sa' = valid_voters bls vv ?sa"
    if "aggregate_and_verify bls vv (?sa, mode) = (r, sa', mode'')" for r sa' mode''
    using aggregate_and_verify_state [OF that] add status_ok_filter [OF add, of mode] by auto
  have certified: "status_ok bls vv li (EnoughVotes (lis_new data agg))"
    if "aggregate_and_verify bls vv (?sa, mode) = (Inr (data, agg), st)" for data agg st
    using aggregate_and_verify_Inr [OF that] add by (simp add: lis_new_def verify_signatures_def)
  show ?thesis using assms(4)
    by (cases rule: collect_signature_cases) (use add filtered certified in \<open>auto split: collected.splits\<close>)
qed

text \<open>A quorum of signatures that hold is always enough.\<close>

lemma collect_signature_live:
  assumes "verifier_wf vv" "status_ok bls vv li (NotEnoughVotes sa)" "get_voting_power vv a \<noteq> None" "bls_complete bls li"
    and "vv_quorum vv (valid_voters bls vv (sa_add_signature sa a s))"
    and "collect_signature bls vv a s sa mode = (result, status, mode')"
  shows "\<exists>lis. result = NowEnough lis"
proof -
  let ?sa = "sa_add_signature sa a s"
  have ok: "sa_data ?sa = li" "sa_wf ?sa" "set (all_voters ?sa) \<subseteq> members vv"
    using status_ok_add [OF assms(1-3), of s] by simp_all
  obtain agg state' where agg: "aggregate_and_verify bls vv (?sa, mode) = (Inr (sa_data ?sa, agg), state')"
    using aggregate_and_verify_live [OF assms(1) _ ok(2,3) assms(5), of mode] assms(4) ok(1) by auto
  have "sum (power_of vv) (valid_voters bls vv ?sa) \<le> sum (power_of vv) (set (all_voters ?sa))"
    by (rule sum_mono2) (use valid_voters_subset in auto)
  then have q: "vv_quorum vv (set (all_voters ?sa))" using assms(5) ok(3) by (simp add: vv_quorum_def)
  then obtain p where p: "sa_check_voting_power vv ?sa True = Inr p"
    using check_voting_power_quorum [OF assms(1) all_voters_distinct [OF ok(2)]] by (auto simp: sa_check_voting_power_def)
  then have "\<not> p < quorum_voting_power vv"
    by (auto simp: sa_check_voting_power_def check_voting_power_def check_aggregated_voting_power_def result_simps split: if_splits)
  then show ?thesis using assms(6) p agg
    by (auto simp: collect_signature_def Let_def split: prod.splits)
qed
section \<open>The votes of a round\<close>

text \<open>What a collector is given in a round, and the results it returns.\<close>

datatype pv_event = AddVote vote | AddTimeout round_timeout

fun pv_exec ::
    "crypto \<Rightarrow> (ledger_info \<Rightarrow> hash_value) \<Rightarrow> validator_verifier \<Rightarrow> pv_event \<Rightarrow> pending_votes \<times> verify_mode \<Rightarrow>
     vote_reception_result \<times> pending_votes \<times> verify_mode" where
  "pv_exec cr li_hash vv (AddVote v) state = pv_insert_vote cr li_hash vv v state"
| "pv_exec cr li_hash vv (AddTimeout rt) (pv, mode) =
     (case pv_insert_round_timeout cr vv rt pv of (r, pv') \<Rightarrow> (r, pv', mode))"

fun pv_run ::
    "crypto \<Rightarrow> (ledger_info \<Rightarrow> hash_value) \<Rightarrow> validator_verifier \<Rightarrow> pv_event list \<Rightarrow> pending_votes \<times> verify_mode \<Rightarrow>
     vote_reception_result list \<times> pending_votes \<times> verify_mode" where
  "pv_run cr li_hash vv [] state = ([], state)"
| "pv_run cr li_hash vv (e # es) state =
     (case pv_exec cr li_hash vv e state of
        (r, state') \<Rightarrow> (case pv_run cr li_hash vv es state' of (rs, state'') \<Rightarrow> (r # rs, state'')))"

text \<open>The status kept for a digest.\<close>

definition status_of :: "pending_votes \<Rightarrow> hash_value \<Rightarrow> vote_status option" where
  "status_of pv d = map_option snd (hm_get (pv_li_digest_to_votes pv) d)"

text \<open>
  The effect of a vote that is not discarded, on the authors seen and on the statuses. The
  status is the one of the vote's own ledger info, new if it has none.
\<close>

definition status_or_new :: "pending_votes \<Rightarrow> hash_value \<Rightarrow> ledger_info \<Rightarrow> vote_status" where
  "status_or_new pv d li =
     (case status_of pv d of Some st \<Rightarrow> st | None \<Rightarrow> NotEnoughVotes (signature_aggregator_new li))"

lemma add_timeout_vote_frame:
  assumes "add_timeout_vote cr vv a t s reason pv = (r, pv')"
  shows "status_of pv' = status_of pv" "pv_author_to_vote pv' = pv_author_to_vote pv" "Inl (NewQuorumCertificate qc) \<noteq> r"
  using assms by (auto simp: add_timeout_vote_def Let_def status_of_def fun_eq_iff
      split: sum.splits verify_error.splits option.splits if_splits)

lemma insert_round_timeout_frame:
  assumes "pv_insert_round_timeout cr vv rt pv = (r, pv')"
  shows "status_of pv' = status_of pv" "pv_author_to_vote pv' = pv_author_to_vote pv" "r \<noteq> NewQuorumCertificate qc"
  using assms by (auto simp: pv_insert_round_timeout_def split: prod.splits sum.splits dest: add_timeout_vote_frame)
text \<open>The collected timeouts, and the certificate they give.\<close>

definition timeouts_of :: "pending_votes \<Rightarrow> two_chain_timeout_with_partial_signatures option" where
  "timeouts_of pv = map_option tcv_partial_2chain_tc (pv_maybe_2chain_timeout_votes pv)"

definition timeouts_with ::
    "two_chain_timeout_with_partial_signatures option \<Rightarrow> account_address \<Rightarrow> two_chain_timeout \<Rightarrow> bls_signature \<Rightarrow>
     two_chain_timeout_with_partial_signatures" where
  "timeouts_with p a t s = partial_timeout_add (case p of Some p \<Rightarrow> p | None \<Rightarrow> partial_timeout_new t) a t s"

lemma add_timeout_vote_effect:
  assumes "add_timeout_vote cr vv a t s reason pv = (r, pv')"
  defines "p \<equiv> timeouts_with (timeouts_of pv) a t s"
  shows "timeouts_of pv' = Some p \<and>
    (\<forall>tc. r = Inl (New2ChainTimeoutCertificate tc) \<longleftrightarrow>
       (\<exists>w. check_voting_power vv (ptc_signers p) True = Inr w) \<and> partial_timeout_aggregate_signatures cr vv p = Inr tc)"
proof -
  define votes where "votes = tcv_add (case pv_maybe_2chain_timeout_votes pv of Some votes \<Rightarrow> votes
    | None \<Rightarrow> two_chain_timeout_votes_new t) a t s reason"
  have votes: "tcv_partial_2chain_tc votes = p"
    by (simp add: votes_def tcv_add_def p_def timeouts_with_def timeouts_of_def two_chain_timeout_votes_new_def split: option.splits)
  note run = assms(1) [unfolded add_timeout_vote_def Let_def, folded votes_def, unfolded votes]
  show ?thesis
  proof (cases "check_voting_power vv (ptc_signers p) True")
    case (Inl e)
    then show ?thesis using run votes by (cases e) (auto simp: timeouts_of_def split: option.splits if_splits)
  next
    case (Inr w)
    then show ?thesis using run votes by (auto simp: timeouts_of_def split: sum.splits)
  qed
qed

text \<open>
  The effect of a vote that is counted, on the authors seen, on the statuses and on the timeouts.
\<close>

lemma store_vote_effect:
  assumes "store_vote d v pv = ((h, st), pv')"
  shows "st = status_or_new pv d (v_ledger_info v)" "status_of pv' = (status_of pv)(d \<mapsto> st)"
    "pv_maybe_2chain_timeout_votes pv' = pv_maybe_2chain_timeout_votes pv"
    "pv_author_to_vote pv' = hm_insert (v_author v) (v, d) (pv_author_to_vote pv)"
  using assms by (auto simp: store_vote_def Let_def status_or_new_def status_of_def hm_get_insert fun_eq_iff split: option.splits)

lemma put_status_effect:
  "status_of (put_status d h st pv) = (status_of pv)(d \<mapsto> st)"
  "pv_maybe_2chain_timeout_votes (put_status d h st pv) = pv_maybe_2chain_timeout_votes pv"
  "pv_author_to_vote (put_status d h st pv) = pv_author_to_vote pv"
  by (auto simp: put_status_def status_of_def hm_get_insert fun_eq_iff)

lemma count_vote_cases:
  assumes "count_vote cr d vv v pv mode = (r, pv', mode')"
  obtains (unknown) "get_voting_power vv (v_author v) = None" "r = UnknownVoteAuthor (v_author v)"
      "status_of pv' = (status_of pv)(d \<mapsto> status_or_new pv d (v_ledger_info v))"
      "pv_author_to_vote pv' = hm_insert (v_author v) (v, d) (pv_author_to_vote pv)" "timeouts_of pv' = timeouts_of pv"
  | (enough) s where "get_voting_power vv (v_author v) \<noteq> None"
      "status_of pv d = Some (EnoughVotes s)" "r = NewQuorumCertificate (quorum_cert_new (v_vote_data v) s)"
      "status_of pv' = status_of pv" "timeouts_of pv' = timeouts_of pv"
      "pv_author_to_vote pv' = hm_insert (v_author v) (v, d) (pv_author_to_vote pv)"
  | (collected) sa result status where "get_voting_power vv (v_author v) \<noteq> None"
      "status_or_new pv d (v_ledger_info v) = NotEnoughVotes sa"
      "collect_signature (cr_ledger_info cr) vv (v_author v) (v_signature v) sa mode = (result, status, mode')"
      "status_of pv' = (status_of pv)(d \<mapsto> status)"
      "pv_author_to_vote pv' = hm_insert (v_author v) (v, d) (pv_author_to_vote pv)"
      "\<forall>qc. r = NewQuorumCertificate qc \<longleftrightarrow> (\<exists>s. result = NowEnough s \<and> qc = quorum_cert_new (v_vote_data v) s)"
      "timeouts_of pv' = timeouts_of pv \<and> (\<forall>tc. r \<noteq> New2ChainTimeoutCertificate tc) \<or>
       (\<exists>t s p. v_two_chain_timeout v = Some (t, s) \<and> p = timeouts_with (timeouts_of pv) (v_author v) t s \<and>
          timeouts_of pv' = Some p \<and>
          (\<forall>tc. r = New2ChainTimeoutCertificate tc \<longleftrightarrow>
             (\<exists>w. check_voting_power vv (ptc_signers p) True = Inr w) \<and> partial_timeout_aggregate_signatures cr vv p = Inr tc))"
proof -
  obtain h st pv2 where store: "store_vote d v pv = ((h, st), pv2)" by (metis surj_pair)
  note e = store_vote_effect(1) [OF store]
  have pv2: "status_of pv2 = (status_of pv)(d \<mapsto> st)" "timeouts_of pv2 = timeouts_of pv"
    "pv_author_to_vote pv2 = hm_insert (v_author v) (v, d) (pv_author_to_vote pv)"
    using store_vote_effect [OF store] by (simp_all add: timeouts_of_def)
  define pv3 where "pv3 status = put_status d h status pv2" for status
  have pv3: "status_of (pv3 status) = (status_of pv)(d \<mapsto> status)" "timeouts_of (pv3 status) = timeouts_of pv"
    "pv_author_to_vote (pv3 status) = hm_insert (v_author v) (v, d) (pv_author_to_vote pv)" for status
    using pv2 by (simp_all add: pv3_def put_status_effect timeouts_of_def)
  note run = count_vote_def [of cr d vv v pv mode, unfolded store prod.case Let_def, folded pv3_def]
  show ?thesis
  proof (cases "get_voting_power vv (v_author v) = None")
    case True
    then show ?thesis using unknown assms(1) run pv2 e by simp
  next
    case known: False
    show ?thesis
    proof (cases "st")
      case (EnoughVotes s)
      then have old: "status_of pv d = Some (EnoughVotes s)"
        using e by (simp add: status_or_new_def split: option.splits)
      moreover have "(status_of pv)(d \<mapsto> EnoughVotes s) = status_of pv" using old by auto
      moreover have "r = NewQuorumCertificate (quorum_cert_new (v_vote_data v) s) \<and> pv' = pv3 (EnoughVotes s)"
        using assms(1) run known EnoughVotes by (simp add: add_vote_to_status_def)
      ultimately show ?thesis using enough [OF known old] pv3 by simp
    next
      case (NotEnoughVotes sa)
      obtain result status m where c:
        "collect_signature (cr_ledger_info cr) vv (v_author v) (v_signature v) sa mode = (result, status, m)" by (metis prod_cases3)
      show ?thesis
      proof (cases "\<exists>w t s. result = StillCollecting w \<and> v_two_chain_timeout v = Some (t, s)")
        case False
        then have "(r, pv', mode') = ((case result of NowEnough s \<Rightarrow> NewQuorumCertificate (quorum_cert_new (v_vote_data v) s)
            | StillCollecting w \<Rightarrow> VoteAdded w | AggregationFailed x \<Rightarrow> ErrorAggregatingSignature x
            | AddingFailed x \<Rightarrow> ErrorAddingVote x), pv3 status, m)"
          using assms(1) run known NotEnoughVotes c
          by (auto simp: add_vote_to_status_def split: collected.splits option.splits)
        then have "mode' = m" "pv' = pv3 status" "\<forall>tc. r \<noteq> New2ChainTimeoutCertificate tc"
          "\<forall>qc. r = NewQuorumCertificate qc \<longleftrightarrow> (\<exists>s. result = NowEnough s \<and> qc = quorum_cert_new (v_vote_data v) s)"
          by (auto split: collected.splits)
        then show ?thesis using collected [OF known, of sa result status] e NotEnoughVotes c pv3 by simp
      next
        case True
        then obtain w t s where w: "result = StillCollecting w" "v_two_chain_timeout v = Some (t, s)" by blast
        obtain x pv4 where x: "add_timeout_vote cr vv (v_author v) t s Unknown (pv3 status) = (x, pv4)" by fastforce
        have r: "r = (case x of Inl y \<Rightarrow> y | Inr _ \<Rightarrow> VoteAdded w)" "pv' = pv4" "mode' = m"
          using assms(1) run known NotEnoughVotes c w x by (auto simp: add_vote_to_status_def split: sum.splits)
        have "\<forall>tc. r = New2ChainTimeoutCertificate tc \<longleftrightarrow> x = Inl (New2ChainTimeoutCertificate tc)"
          "\<forall>qc. r \<noteq> NewQuorumCertificate qc"
          using r(1) add_timeout_vote_frame(3) [OF x] by (auto split: sum.splits)
        then show ?thesis
          using collected [OF known, of sa result status] e NotEnoughVotes c w r(2,3) pv3
            add_timeout_vote_frame(1,2) [OF x] add_timeout_vote_effect [OF x] by simp
      qed
    qed
  qed
qed
section \<open>Quorum certificates\<close>

text \<open>Every status is that of one of the ledger infos \<open>S\<close> that were voted for.\<close>

definition statuses_ok :: "crypto \<Rightarrow> (ledger_info \<Rightarrow> hash_value) \<Rightarrow> validator_verifier \<Rightarrow> ledger_info set \<Rightarrow> pending_votes \<Rightarrow> bool" where
  "statuses_ok cr li_hash vv S pv \<longleftrightarrow>
     (\<forall>d st. status_of pv d = Some st \<longrightarrow> (\<exists>li \<in> S. li_hash li = d \<and> status_ok (cr_ledger_info cr) vv li st))"

lemma statuses_ok_new: "statuses_ok cr li_hash vv S pending_votes_new"
  by (simp add: statuses_ok_def status_of_def pending_votes_new_def hm_get_def)

lemma statuses_ok_upd:
  "statuses_ok cr li_hash vv S pv \<Longrightarrow> li \<in> S \<Longrightarrow> status_ok (cr_ledger_info cr) vv li st \<Longrightarrow>
     status_of pv' = (status_of pv)(li_hash li \<mapsto> st) \<Longrightarrow> statuses_ok cr li_hash vv S pv'"
  by (auto simp: statuses_ok_def)

lemma status_or_new_ok:
  assumes "statuses_ok cr li_hash vv S pv" "inj_on li_hash S" "li \<in> S"
  shows "status_ok (cr_ledger_info cr) vv li (status_or_new pv (li_hash li) li)"
proof (cases "status_of pv (li_hash li)")
  case None
  then show ?thesis unfolding status_or_new_def by (simp del: status_ok.simps)
next
  case (Some st)
  then obtain li' where "li' \<in> S" "li_hash li' = li_hash li" "status_ok (cr_ledger_info cr) vv li' st"
    using assms(1) by (auto simp: statuses_ok_def)
  then show ?thesis using Some assms(2,3) by (simp add: status_or_new_def inj_on_eq_iff)
qed

lemma insert_vote_ok:
  assumes "verifier_wf vv" "statuses_ok cr li_hash vv S pv" "inj_on li_hash S" "v_ledger_info v \<in> S"
    and "pv_insert_vote cr li_hash vv v (pv, mode) = (r, pv', mode')"
  shows "statuses_ok cr li_hash vv S pv' \<and>
    (\<forall>qc. r = NewQuorumCertificate qc \<longrightarrow> qc_vote_data qc = v_vote_data v \<and> qc_ledger_info qc = v_ledger_info v \<and>
       verify_signatures (cr_ledger_info cr) vv (qc_signed_ledger_info qc) = Inr ())"
proof (cases "previously_seen (li_hash (v_ledger_info v)) v pv")
  case (Some x)
  then show ?thesis using assms(2,5)
    by (auto simp: pv_insert_vote_def previously_seen_def split: option.splits if_splits)
next
  case None
  let ?d = "li_hash (v_ledger_info v)" and ?bls = "cr_ledger_info cr"
  have run: "count_vote cr ?d vv v pv mode = (r, pv', mode')" using assms(5) None by (simp add: pv_insert_vote_def)
  note now = status_or_new_ok [OF assms(2-4)]
  show ?thesis using run
  proof (cases rule: count_vote_cases)
    case unknown
    then show ?thesis using statuses_ok_upd [OF assms(2,4) now] by simp
  next
    case (enough s)
    then have "status_ok ?bls vv (v_ledger_info v) (EnoughVotes s)" using now by (simp add: status_or_new_def)
    moreover have "statuses_ok cr li_hash vv S pv'" using enough(4) assms(2) by (simp add: statuses_ok_def)
    ultimately show ?thesis using enough(3) by (simp add: quorum_cert_new_def qc_ledger_info_def)
  next
    case (collected sa result status)
    note ok = collect_signature_ok [OF assms(1) now [unfolded collected(2)] collected(1,3)]
    then have "statuses_ok cr li_hash vv S pv'" using statuses_ok_upd [OF assms(2,4) _ collected(4)] by blast
    moreover have "status_ok ?bls vv (v_ledger_info v) (EnoughVotes s)" if "result = NowEnough s" for s
      using ok that by (auto simp del: status_ok.simps)
    ultimately show ?thesis using collected(6) by (auto simp: quorum_cert_new_def qc_ledger_info_def)
  qed
qed

lemma insert_round_timeout_ok:
  assumes "pv_insert_round_timeout cr vv rt pv = (r, pv')" "statuses_ok cr li_hash vv S pv"
  shows "statuses_ok cr li_hash vv S pv'"
  using insert_round_timeout_frame(1) [OF assms(1)] assms(2) by (simp add: statuses_ok_def)

text \<open>What verification has established of a vote.\<close>

lemma vote_verify_Inr:
  assumes "vote_verify cr vv mode v0 = (Inr u, v)"
  shows "li_consensus_data_hash (v_ledger_info v) = cr_vote_data_hash cr (v_vote_data v) \<and>
    vote_data_verify (v_vote_data v) = Inr () \<and> vote_verify_timeout cr vv v = Inr ()"
  using assms
  by (auto simp: vote_verify_def optimistic_verify_vote_signature_def vote_verify_timeout_def vote_epoch_def result_simps
      split: prod.splits option.splits)

lemma quorum_cert_verifyI:
  assumes "li_consensus_data_hash (qc_ledger_info qc) = cr_vote_data_hash cr (qc_vote_data qc)"
    and "vote_data_verify (qc_vote_data qc) = Inr ()"
    and "verify_signatures (cr_ledger_info cr) vv (qc_signed_ledger_info qc) = Inr ()"
  shows "quorum_cert_verify cr vv qc = Inr ()"
proof -
  have "bi_round (certified_block qc) \<noteq> 0"
    using assms(2) by (auto simp: vote_data_verify_Inr certified_block_def)
  then show ?thesis using assms by (simp add: quorum_cert_verify_def into_anyhow_def with_context_def)
qed
text \<open>An invariant of the collector, over the events so far and the results so far.\<close>

lemma pv_run_invariant:
  assumes "pv_run cr li_hash vv es (pv, mode) = (rs, pv', mode')" "I evs results pv"
    and "\<And>e evs results pv mode r pv' mode'. e \<in> set es \<Longrightarrow> I evs results pv \<Longrightarrow>
      pv_exec cr li_hash vv e (pv, mode) = (r, pv', mode') \<Longrightarrow> I (insert e evs) (insert r results) pv'"
  shows "I (evs \<union> set es) (results \<union> set rs) pv'"
  using assms
proof (induction es arbitrary: pv mode rs evs results)
  case (Cons e es)
  obtain r pv1 m1 where e: "pv_exec cr li_hash vv e (pv, mode) = (r, pv1, m1)" by (metis prod_cases3)
  obtain rs1 where rs: "pv_run cr li_hash vv es (pv1, m1) = (rs1, pv', mode')" "rs = r # rs1"
    using Cons.prems(1) e by (auto split: prod.splits)
  have "I (insert e evs \<union> set es) (insert r results \<union> set rs1) pv'"
    by (rule Cons.IH [OF rs(1) Cons.prems(3) [OF _ Cons.prems(2) e]]) (use Cons.prems(3) in auto)
  then show ?case using rs(2) by simp
qed simp

lemma valid_voters_add:
  assumes "sa_wf sa"
  shows "valid_voters bls vv (sa_add_signature sa a s) =
    (if signature_holds bls vv (sa_data sa) a s then insert a (valid_voters bls vv sa) else valid_voters bls vv sa - {a})"
proof -
  have "(b, x) \<in> set (btree_insert a s (sa_signatures sa)) \<longleftrightarrow> (if b = a then x = s else (b, x) \<in> set (sa_signatures sa))" for b x
    using assms btree_get_eq_Some_iff [of "sa_signatures sa" b x] btree_get_insert [of a s "sa_signatures sa" b]
      btree_get_eq_Some_iff [OF btree_wf_insert, of "sa_signatures sa" a s b x]
    by (auto simp: sa_wf_def)
  then show ?thesis by (auto simp: valid_voters_def sa_add_signature_def)
qed

lemma valid_voters_new [simp]: "valid_voters bls vv (signature_aggregator_new li) = {}"
  by (simp add: valid_voters_def signature_aggregator_new_def)

lemma vv_quorum_nonempty: "verifier_wf vv \<Longrightarrow> \<not> vv_quorum vv {}"
  using verifier_totals(2) [of vv] by (simp add: vv_quorum_def)

lemma vv_quorum_mono: "vv_quorum vv A \<Longrightarrow> A \<subseteq> B \<Longrightarrow> B \<subseteq> members vv \<Longrightarrow> vv_quorum vv B"
  using sum_mono2 [of B A "power_of vv"] finite_subset [OF _ finite_members, of B vv] by (fastforce simp: vv_quorum_def)

text \<open>
  The voters \<open>A\<close>, who vote for \<open>li\<close> only: those seen so far are in the aggregator of
  \<open>li\<close> with a signature that holds, which is not a quorum yet, or \<open>li\<close> has been certified.
\<close>

definition seen_of :: "account_address set \<Rightarrow> pv_event set \<Rightarrow> account_address set" where
  "seen_of A evs = {v_author v | v. AddVote v \<in> evs} \<inter> A"

definition votes_for ::
    "ledger_info bls \<Rightarrow> validator_verifier \<Rightarrow> ledger_info \<Rightarrow> vote_status option \<Rightarrow> account_address set \<Rightarrow>
     vote_reception_result set \<Rightarrow> bool" where
  "votes_for bls vv li status A results \<longleftrightarrow>
     (case status of
        None \<Rightarrow> A = {}
      | Some (EnoughVotes s) \<Rightarrow> \<exists>qc. NewQuorumCertificate qc \<in> results \<and> qc_ledger_info qc = li
      | Some (NotEnoughVotes sa) \<Rightarrow> A \<subseteq> valid_voters bls vv sa \<and> \<not> vv_quorum vv (valid_voters bls vv sa))"

definition remembered :: "hash_value \<Rightarrow> account_address set \<Rightarrow> pending_votes \<Rightarrow> account_address set \<Rightarrow> bool" where
  "remembered d A pv seen \<longleftrightarrow>
     (\<forall>a \<in> A. (hm_get (pv_author_to_vote pv) a = None \<longleftrightarrow> a \<notin> seen) \<and>
        (\<forall>v d'. hm_get (pv_author_to_vote pv) a = Some (v, d') \<longrightarrow> d' = d))"

lemma collected_votes_for:
  assumes "verifier_wf vv" "bls_complete bls li" "status_ok bls vv li (NotEnoughVotes sa)" "get_voting_power vv a \<noteq> None"
    and "collect_signature bls vv a s sa mode = (result, status, mode')"
    and "A \<subseteq> valid_voters bls vv sa" "a \<in> B \<Longrightarrow> signature_holds bls vv li a s" "B \<subseteq> insert a A" "a \<notin> B \<Longrightarrow> B \<subseteq> A"
    and "\<And>x. result = NowEnough x \<Longrightarrow> \<exists>qc. NewQuorumCertificate qc \<in> results \<and> qc_ledger_info qc = li"
  shows "votes_for bls vv li (Some status) B results"
proof (cases "\<exists>x. result = NowEnough x")
  case True
  then show ?thesis using collect_signature_ok [OF assms(1,3-5)] assms(10)
    by (auto simp: votes_for_def simp del: status_ok.simps)
next
  case False
  then obtain sa' where sa': "status = NotEnoughVotes sa'" "valid_voters bls vv sa' = valid_voters bls vv (sa_add_signature sa a s)"
    using collect_signature_ok [OF assms(1,3-5)] by (auto simp del: status_ok.simps split: collected.splits)
  moreover have "\<not> vv_quorum vv (valid_voters bls vv (sa_add_signature sa a s))"
    using False collect_signature_live [OF assms(1,3,4,2) _ assms(5)] by blast
  moreover have "B \<subseteq> valid_voters bls vv (sa_add_signature sa a s)"
    using assms(3,6-9) valid_voters_add [of sa bls vv a s] by auto
  ultimately show ?thesis by (simp add: votes_for_def)
qed
lemma votes_for_mono: "votes_for bls vv li status A results \<Longrightarrow> results \<subseteq> results' \<Longrightarrow> votes_for bls vv li status A results'"
  by (auto simp: votes_for_def split: option.splits vote_status.splits)

lemma seen_of_vote:
  "seen_of A (insert (AddVote v) evs) = (if v_author v \<in> A then insert (v_author v) (seen_of A evs) else seen_of A evs)"
  "seen_of A (insert (AddTimeout rt) evs) = seen_of A evs"
  by (auto simp: seen_of_def)

lemma insert_vote_votes_for:
  assumes wf: "verifier_wf vv" "bls_complete (cr_ledger_info cr) li" "inj_on li_hash S" "li \<in> S" "A \<subseteq> members vv"
    and ok: "statuses_ok cr li_hash vv S pv" and v: "v_ledger_info v \<in> S"
    and honest: "v_author v \<in> A \<Longrightarrow> v_ledger_info v = li \<and> signature_holds (cr_ledger_info cr) vv li (v_author v) (v_signature v)"
    and rem: "remembered (li_hash li) A pv seen"
    and for': "votes_for (cr_ledger_info cr) vv li (status_of pv (li_hash li)) seen results" "seen \<subseteq> A"
    and step: "pv_insert_vote cr li_hash vv v (pv, mode) = (r, pv', mode')"
  defines "seen' \<equiv> if v_author v \<in> A then insert (v_author v) seen else seen"
  shows "remembered (li_hash li) A pv' seen' \<and>
    votes_for (cr_ledger_info cr) vv li (status_of pv' (li_hash li)) seen' (insert r results)"
proof (cases "previously_seen (li_hash (v_ledger_info v)) v pv")
  case (Some x)
  then have "pv' = pv" "hm_get (pv_author_to_vote pv) (v_author v) \<noteq> None"
    using step by (auto simp: pv_insert_vote_def previously_seen_def split: option.splits)
  moreover from this have "seen' = seen" using rem by (auto simp: remembered_def seen'_def)
  ultimately show ?thesis using rem votes_for_mono [OF for'(1) subset_insertI, of r] by auto
next
  case None
  let ?d = "li_hash (v_ledger_info v)" and ?bls = "cr_ledger_info cr"
  have d: "?d = li_hash li \<longleftrightarrow> v_ledger_info v = li" using wf(3,4) v by (simp add: inj_on_eq_iff)
  have run: "count_vote cr ?d vv v pv mode = (r, pv', mode')" using step None by (simp add: pv_insert_vote_def)
  have rem': "remembered (li_hash li) A pv' seen'"
    if "pv_author_to_vote pv' = hm_insert (v_author v) (v, ?d) (pv_author_to_vote pv)"
    using rem honest that by (auto simp: remembered_def seen'_def hm_get_insert)
  have other: "votes_for ?bls vv li (status_of pv' (li_hash li)) seen' (insert r results)"
    if "status_of pv' = (status_of pv)(?d \<mapsto> st)" "v_ledger_info v \<noteq> li" for st
    using that honest d votes_for_mono [OF for'(1) subset_insertI, of r] by (auto simp: seen'_def)
  show ?thesis using run
  proof (cases rule: count_vote_cases)
    case unknown
    then have "v_author v \<notin> A" using wf(1,5) get_voting_power_member [of vv "v_author v"] by auto
    moreover have "votes_for ?bls vv li (Some (status_or_new pv (li_hash li) li)) seen (insert r results)"
      using votes_for_mono [OF for'(1) subset_insertI, of r] vv_quorum_nonempty [OF wf(1)]
      by (auto simp: votes_for_def status_or_new_def split: option.splits)
    ultimately show ?thesis using rem' [OF unknown(4)] other [OF unknown(3)] unknown(3) d
      by (cases "v_ledger_info v = li") (auto simp: seen'_def)
  next
    case (enough s)
    then have "votes_for ?bls vv li (status_of pv' (li_hash li)) seen' (insert r results)"
      using votes_for_mono [OF for'(1) subset_insertI, of r] d honest
      by (cases "v_ledger_info v = li") (auto simp: votes_for_def seen'_def)
    then show ?thesis using rem' [OF enough(6)] by simp
  next
    case (collected sa result status)
    have "votes_for ?bls vv li (Some status) seen' (insert r results)" if li: "v_ledger_info v = li"
    proof (rule collected_votes_for [OF wf(1,2) _ collected(1,3), where A = seen])
      show "status_ok ?bls vv li (NotEnoughVotes sa)"
        using status_or_new_ok [OF ok wf(3) v] collected(2) li by (simp del: status_ok.simps)
      show "seen \<subseteq> valid_voters ?bls vv sa"
        using for'(1) collected(2) li by (auto simp: votes_for_def status_or_new_def split: option.splits)
      show "\<exists>qc. NewQuorumCertificate qc \<in> insert r results \<and> qc_ledger_info qc = li" if "result = NowEnough x" for x
        using that collected(6) insert_vote_ok [OF wf(1) ok wf(3) v step] li by auto
    qed (use honest for'(2) in \<open>auto simp: seen'_def split: if_splits\<close>)
    then show ?thesis using rem' [OF collected(5)] other [OF collected(4)] collected(4)
      by (cases "v_ledger_info v = li") auto
  qed
qed

definition vote_inv ::
    "crypto \<Rightarrow> (ledger_info \<Rightarrow> hash_value) \<Rightarrow> validator_verifier \<Rightarrow> ledger_info set \<Rightarrow> account_address set \<Rightarrow> ledger_info \<Rightarrow>
     pv_event set \<Rightarrow> vote_reception_result set \<Rightarrow> pending_votes \<Rightarrow> bool" where
  "vote_inv cr li_hash vv S A li evs results pv \<longleftrightarrow>
     statuses_ok cr li_hash vv S pv \<and> remembered (li_hash li) A pv (seen_of A evs) \<and>
     votes_for (cr_ledger_info cr) vv li (status_of pv (li_hash li)) (seen_of A evs) results \<and>
     (\<forall>qc. NewQuorumCertificate qc \<in> results \<longrightarrow> verify_signatures (cr_ledger_info cr) vv (qc_signed_ledger_info qc) = Inr ())"

lemma vote_inv_new: "vote_inv cr li_hash vv S A li {} {} pending_votes_new"
  unfolding vote_inv_def
  by (simp add: statuses_ok_new) (simp add: remembered_def votes_for_def seen_of_def status_of_def pending_votes_new_def hm_get_def)

lemma vote_inv_step:
  assumes "verifier_wf vv" "bls_complete (cr_ledger_info cr) li" "inj_on li_hash S" "li \<in> S" "A \<subseteq> members vv"
    and I: "vote_inv cr li_hash vv S A li evs results pv"
    and step: "pv_exec cr li_hash vv e (pv, mode) = (r, pv', mode')"
    and honest: "\<And>v. e = AddVote v \<Longrightarrow> v_ledger_info v \<in> S"
      "\<And>v. e = AddVote v \<Longrightarrow> v_author v \<in> A \<Longrightarrow>
         v_ledger_info v = li \<and> signature_holds (cr_ledger_info cr) vv li (v_author v) (v_signature v)"
  shows "vote_inv cr li_hash vv S A li (insert e evs) (insert r results) pv'"
proof (cases e)
  case (AddVote v)
  have v: "v_ledger_info v \<in> S" and ins: "pv_insert_vote cr li_hash vv v (pv, mode) = (r, pv', mode')"
    using step AddVote honest(1) by simp_all
  have ok: "statuses_ok cr li_hash vv S pv" using I by (simp add: vote_inv_def)
  have "remembered (li_hash li) A pv' (seen_of A (insert e evs)) \<and>
    votes_for (cr_ledger_info cr) vv li (status_of pv' (li_hash li)) (seen_of A (insert e evs)) (insert r results)"
    unfolding AddVote seen_of_vote
    by (rule insert_vote_votes_for [OF assms(1-5) ok v _ _ _ _ ins])
      (use I AddVote honest(2) in \<open>auto simp: vote_inv_def seen_of_def\<close>)
  then show ?thesis using insert_vote_ok [OF assms(1) ok assms(3) v ins] I by (auto simp: vote_inv_def)
next
  case (AddTimeout rt)
  then have t: "pv_insert_round_timeout cr vv rt pv = (r, pv')" using step by (auto split: prod.splits)
  note frame = insert_round_timeout_frame [OF t]
  then show ?thesis using I insert_round_timeout_ok [OF t] votes_for_mono [OF _ subset_insertI, of _ vv li _ _ results r]
    by (auto simp: AddTimeout seen_of_vote remembered_def vote_inv_def)
qed

lemma votes_certified:
  assumes "verifier_wf vv" "bls_complete (cr_ledger_info cr) li" "inj_on li_hash {v_ledger_info v | v. AddVote v \<in> set es}"
    and "vv_quorum vv A" "A \<subseteq> {v_author v | v. AddVote v \<in> set es}"
    and "\<forall>v. AddVote v \<in> set es \<longrightarrow> v_author v \<in> A \<longrightarrow>
      v_ledger_info v = li \<and> signature_holds (cr_ledger_info cr) vv li (v_author v) (v_signature v)"
    and "pv_run cr li_hash vv es (pending_votes_new, mode) = (rs, state)"
  shows "\<exists>qc. NewQuorumCertificate qc \<in> set rs \<and> qc_ledger_info qc = li \<and>
    verify_signatures (cr_ledger_info cr) vv (qc_signed_ledger_info qc) = Inr ()"
proof -
  let ?S = "{v_ledger_info v | v. AddVote v \<in> set es}" and ?bls = "cr_ledger_info cr"
  obtain pv' mode' where state: "state = (pv', mode')" by fastforce
  have "A \<noteq> {}" using vv_quorum_nonempty [OF assms(1)] assms(4) by blast
  then obtain v where "AddVote v \<in> set es" "v_author v \<in> A" using assms(5) by blast
  then have li: "li \<in> ?S" using assms(6) by blast
  have A: "A \<subseteq> members vv" using assms(4) by (simp add: vv_quorum_def)
  have "vote_inv cr li_hash vv ?S A li ({} \<union> set es) ({} \<union> set rs) pv'"
    by (rule pv_run_invariant [OF assms(7) [unfolded state], where I = "vote_inv cr li_hash vv ?S A li"], rule vote_inv_new,
        rule vote_inv_step [OF assms(1-3) li A]) (use assms(6) in auto)
  then have I: "votes_for ?bls vv li (status_of pv' (li_hash li)) A (set rs)" "statuses_ok cr li_hash vv ?S pv'"
    "\<forall>qc. NewQuorumCertificate qc \<in> set rs \<longrightarrow> verify_signatures ?bls vv (qc_signed_ledger_info qc) = Inr ()"
    using assms(5) by (simp_all add: vote_inv_def seen_of_def Int_absorb1)
  show ?thesis
  proof (cases "status_of pv' (li_hash li)")
    case None
    then show ?thesis using I \<open>A \<noteq> {}\<close> by (simp add: votes_for_def)
  next
    case (Some st)
    have ok: "status_ok ?bls vv li st"
      using status_or_new_ok [OF I(2) assms(3) li] Some by (simp add: status_or_new_def)
    show ?thesis
    proof (cases st)
      case (EnoughVotes s)
      then show ?thesis using I(1,3) Some by (auto simp: votes_for_def)
    next
      case (NotEnoughVotes sa)
      then have "A \<subseteq> valid_voters ?bls vv sa" "\<not> vv_quorum vv (valid_voters ?bls vv sa)"
        using I(1) Some by (auto simp: votes_for_def)
      moreover have "valid_voters ?bls vv sa \<subseteq> members vv"
        using ok NotEnoughVotes valid_voters_subset [of ?bls vv sa] by auto
      ultimately show ?thesis using vv_quorum_mono [OF assms(4)] by blast
    qed
  qed
qed
section \<open>Timeout certificates\<close>

fun event_timeouts :: "pv_event \<Rightarrow> (account_address \<times> two_chain_timeout \<times> bls_signature) set" where
  "event_timeouts (AddTimeout rt) = {(rt_author rt, rt_timeout rt, rt_signature rt)}"
| "event_timeouts (AddVote v) = {(v_author v, t, s) | t s. v_two_chain_timeout v = Some (t, s)}"

definition timeout_ok ::
    "crypto \<Rightarrow> validator_verifier \<Rightarrow> u64 \<Rightarrow> round_t \<Rightarrow> account_address \<times> two_chain_timeout \<times> bls_signature \<Rightarrow> bool" where
  "timeout_ok cr vv e r x \<longleftrightarrow>
     (case x of (a, t, s) \<Rightarrow> two_chain_timeout_verify cr vv t = Inr () \<and> tct_epoch t = e \<and> tct_round t = r \<and>
        vv_verify (cr_timeout cr) vv a (signing_format t) s = Inr ())"

fun hqc_of :: "account_address \<times> two_chain_timeout \<times> bls_signature \<Rightarrow> account_address \<times> round_t" where
  "hqc_of (a, t, s) = (a, hqc_round t)"

text \<open>The collected timeouts are consistent, verify one by one, and are among the timeouts \<open>T\<close>.\<close>

definition timeouts_inv ::
    "crypto \<Rightarrow> validator_verifier \<Rightarrow> u64 \<Rightarrow> round_t \<Rightarrow> (account_address \<times> two_chain_timeout \<times> bls_signature) set \<Rightarrow>
     two_chain_timeout_with_partial_signatures \<Rightarrow> bool" where
  "timeouts_inv cr vv e r T p \<longleftrightarrow>
     ptc_consistent p \<and> two_chain_timeout_verify cr vv (ptc_timeout p) = Inr () \<and>
     tct_epoch (ptc_timeout p) = e \<and> tct_round (ptc_timeout p) = r \<and>
     (\<forall>a h s. (a, h, s) \<in> set (pswr_signatures (ptc_signatures p)) \<longrightarrow>
        vv_verify (cr_timeout cr) vv a \<lparr>tsr_epoch = e, tsr_round = r, tsr_hqc_round = h\<rparr> s = Inr () \<and> (a, h) \<in> hqc_of ` T)"

lemma vv_verify_member: "verifier_wf vv \<Longrightarrow> vv_verify bls vv a m s = Inr () \<Longrightarrow> a \<in> members vv"
  using verifier_index_None [of vv a] by (auto simp: vv_verify_def get_public_key_def split: option.splits)

lemma timeouts_inv_members:
  "verifier_wf vv \<Longrightarrow> timeouts_inv cr vv e r T p \<Longrightarrow> set (ptc_signers p) \<subseteq> members vv"
  using vv_verify_member by (fastforce simp: timeouts_inv_def ptc_signers_def)

lemma signers_add: "set (ptc_signers (partial_timeout_add p a t s)) = insert a (set (ptc_signers p))"
  by (auto simp: ptc_signers_def partial_timeout_add_def pswr_add_signature_def Let_def btree_keys_insert btree_get_def
      split: option.splits dest: map_of_SomeD) (force dest: map_of_SomeD)+

lemma timeouts_inv_add:
  assumes "timeouts_inv cr vv e r T p" "timeout_ok cr vv e r (a, t, s)"
    and "\<And>t' s'. (a, t', s') \<in> T \<Longrightarrow> hqc_round t' = hqc_round t"
  shows "timeouts_inv cr vv e r (insert (a, t, s) T) (partial_timeout_add p a t s)"
proof (cases "a \<in> set (ptc_signers p)")
  case True
  then obtain h s' where h: "(a, h, s') \<in> set (pswr_signatures (ptc_signatures p))" by (auto simp: ptc_signers_def)
  then have "h = hqc_round t" using assms(1,3) by (fastforce simp: timeouts_inv_def)
  moreover have "h \<le> hqc_round (ptc_timeout p)"
    using h assms(1) iter_max_ge [of "map (fst \<circ> snd) (pswr_signatures (ptc_signatures p))" "hqc_round (ptc_timeout p)" h]
    by (force simp: timeouts_inv_def ptc_consistent_def)
  moreover have "btree_get (pswr_signatures (ptc_signatures p)) a \<noteq> None"
    using True by (simp add: btree_get_None_iff ptc_signers_def)
  ultimately have "partial_timeout_add p a t s = p"
    by (auto simp: partial_timeout_add_def pswr_add_signature_def not_le)
  then show ?thesis using assms(1) by (auto simp: timeouts_inv_def)
next
  case False
  let ?es = "pswr_signatures (ptc_signatures p)"
  have "set (pswr_signatures (ptc_signatures (partial_timeout_add p a t s))) = insert (a, hqc_round t, s) (set ?es)"
    using False set_btree_insert_fresh [of a ?es "(hqc_round t, s)"]
    by (auto simp: partial_timeout_add_def pswr_add_signature_def Let_def ptc_signers_def btree_get_None_iff [THEN iffD2])
  moreover have "ptc_timeout (partial_timeout_add p a t s) \<in> {t, ptc_timeout p}"
    by (simp add: partial_timeout_add_def Let_def)
  ultimately show ?thesis using ptc_consistent_add [OF _ False] assms(1,2)
    by (auto simp: timeouts_inv_def timeout_ok_def signing_format_def)
qed

lemma timeouts_with_inv:
  assumes "\<And>p. timeouts = Some p \<Longrightarrow> timeouts_inv cr vv e r T p" "timeout_ok cr vv e r (a, t, s)"
    and "\<And>t' s'. (a, t', s') \<in> T \<Longrightarrow> hqc_round t' = hqc_round t"
  shows "timeouts_inv cr vv e r (insert (a, t, s) T) (timeouts_with timeouts a t s)"
proof (cases timeouts)
  case None
  then show ?thesis using assms(2) ptc_consistent_first [of t a s]
    by (auto simp: timeouts_with_def timeouts_inv_def timeout_ok_def signing_format_def partial_timeout_add_def
        partial_timeout_new_def pswr_add_signature_def partial_signatures_with_round_empty_def btree_get_def)
next
  case (Some p)
  then show ?thesis using timeouts_inv_add [OF assms(1) assms(2,3)] by (simp add: timeouts_with_def)
qed

text \<open>A quorum of timeouts gives a certificate, and the certificate verifies.\<close>

lemma timeouts_certified:
  assumes "verifier_wf vv" "bls_aggregate_complete (cr_timeout cr)" "timeouts_inv cr vv e r T p"
  shows "(\<exists>w. check_voting_power vv (ptc_signers p) True = Inr w) \<longleftrightarrow> vv_quorum vv (set (ptc_signers p))"
    and "vv_quorum vv (set (ptc_signers p)) \<Longrightarrow>
      \<exists>tc. partial_timeout_aggregate_signatures cr vv p = Inr tc \<and> tc_round tc = r \<and> timeout_certificate_verify cr vv tc = Inr ()"
proof -
  have "distinct (ptc_signers p)"
    using assms(3) btree_wf_distinct by (auto simp: timeouts_inv_def ptc_consistent_def ptc_signers_def)
  then show "(\<exists>w. check_voting_power vv (ptc_signers p) True = Inr w) \<longleftrightarrow> vv_quorum vv (set (ptc_signers p))"
    by (rule check_voting_power_quorum [OF assms(1)])
  assume "vv_quorum vv (set (ptc_signers p))"
  then show "\<exists>tc. partial_timeout_aggregate_signatures cr vv p = Inr tc \<and> tc_round tc = r \<and> timeout_certificate_verify cr vv tc = Inr ()"
    using partial_timeout_aggregate_verifies [OF assms(1,2), of p] assms(3)
    by (fastforce simp: timeouts_inv_def tc_round_def)
qed
definition timed_out :: "pv_event set \<Rightarrow> account_address set" where
  "timed_out evs = {rt_author rt | rt. AddTimeout rt \<in> evs}"

definition timeout_inv ::
    "crypto \<Rightarrow> validator_verifier \<Rightarrow> u64 \<Rightarrow> round_t \<Rightarrow> pv_event set \<Rightarrow> vote_reception_result set \<Rightarrow> pending_votes \<Rightarrow> bool" where
  "timeout_inv cr vv e r evs results pv \<longleftrightarrow>
     (\<forall>p. timeouts_of pv = Some p \<longrightarrow>
        timeouts_inv cr vv e r (\<Union>(event_timeouts ` evs)) p \<and> timed_out evs \<subseteq> set (ptc_signers p)) \<and>
     (timeouts_of pv = None \<longrightarrow> timed_out evs = {}) \<and>
     (\<forall>tc. New2ChainTimeoutCertificate tc \<in> results \<longrightarrow> tc_round tc = r \<and> timeout_certificate_verify cr vv tc = Inr ()) \<and>
     (vv_quorum vv (timed_out evs) \<longrightarrow> (\<exists>tc. New2ChainTimeoutCertificate tc \<in> results))"

lemma timeouts_inv_mono: "timeouts_inv cr vv e r T p \<Longrightarrow> T \<subseteq> T' \<Longrightarrow> timeouts_inv cr vv e r T' p"
  unfolding timeouts_inv_def using image_mono [of T T' hqc_of] by blast

lemma timeout_inv_add:
  assumes wf: "verifier_wf vv" "bls_aggregate_complete (cr_timeout cr)" and I: "timeout_inv cr vv e r evs results pv"
    and x: "timeout_ok cr vv e r (a, t, s)" "event_timeouts ev = {(a, t, s)}"
    and once: "\<And>t' s'. (a, t', s') \<in> \<Union>(event_timeouts ` evs) \<Longrightarrow> hqc_round t' = hqc_round t"
    and timed: "timed_out (insert ev evs) \<subseteq> insert a (timed_out evs)"
    and p: "timeouts_of pv' = Some p" "p = timeouts_with (timeouts_of pv) a t s"
    and result: "\<forall>tc. result = New2ChainTimeoutCertificate tc \<longleftrightarrow>
      (\<exists>w. check_voting_power vv (ptc_signers p) True = Inr w) \<and> partial_timeout_aggregate_signatures cr vv p = Inr tc"
  shows "timeout_inv cr vv e r (insert ev evs) (insert result results) pv'"
proof -
  have inv: "timeouts_inv cr vv e r (\<Union>(event_timeouts ` insert ev evs)) p"
    using timeouts_with_inv [of "timeouts_of pv" cr vv e r "\<Union>(event_timeouts ` evs)" a t s] I x p(2) once
    by (auto simp: timeout_inv_def)
  have signers: "set (ptc_signers p) = insert a (case timeouts_of pv of None \<Rightarrow> {} | Some q \<Rightarrow> set (ptc_signers q))"
    by (simp add: p(2) timeouts_with_def signers_add split: option.splits)
      (simp add: ptc_signers_def partial_timeout_new_def partial_signatures_with_round_empty_def)
  then have timed': "timed_out (insert ev evs) \<subseteq> set (ptc_signers p)"
    using I timed by (auto simp: timeout_inv_def split: option.splits)
  note cert = timeouts_certified [OF wf inv]
  have "\<exists>tc. result = New2ChainTimeoutCertificate tc" if "vv_quorum vv (timed_out (insert ev evs))"
    using vv_quorum_mono [OF that timed' timeouts_inv_members [OF wf(1) inv]] cert result by blast
  moreover have "tc_round tc = r \<and> timeout_certificate_verify cr vv tc = Inr ()" if "result = New2ChainTimeoutCertificate tc" for tc
    using that cert result by (metis Inr_inject)
  ultimately show ?thesis using I inv timed' p(1) by (auto simp: timeout_inv_def)
qed

lemma timeout_inv_keep:
  "timeout_inv cr vv e r evs results pv \<Longrightarrow> timeouts_of pv' = timeouts_of pv \<Longrightarrow>
     \<forall>tc. result \<noteq> New2ChainTimeoutCertificate tc \<Longrightarrow> timeout_inv cr vv e r (insert (AddVote v) evs) (insert result results) pv'"
  using timeouts_inv_mono [of cr vv e r _ _ "\<Union>(event_timeouts ` insert (AddVote v) evs)"]
  by (auto simp: timeout_inv_def timed_out_def)

lemma timeout_inv_step:
  assumes wf: "verifier_wf vv" "bls_aggregate_complete (cr_timeout cr)" and I: "timeout_inv cr vv e r evs results pv"
    and step: "pv_exec cr li_hash vv ev (pv, mode) = (result, pv', mode')"
    and x: "\<forall>x \<in> event_timeouts ev. timeout_ok cr vv e r x"
    and once: "\<And>a t s t' s'. (a, t, s) \<in> event_timeouts ev \<Longrightarrow> (a, t', s') \<in> \<Union>(event_timeouts ` evs) \<Longrightarrow> hqc_round t = hqc_round t'"
  shows "timeout_inv cr vv e r (insert ev evs) (insert result results) pv'"
proof (cases ev)
  case (AddTimeout rt)
  obtain y pv1 where y: "add_timeout_vote cr vv (rt_author rt) (rt_timeout rt) (rt_signature rt) (rt_reason rt) pv = (y, pv1)"
    by fastforce
  then have res: "result = (case y of Inl z \<Rightarrow> z | Inr w \<Rightarrow> VoteAdded w)" "pv' = pv1"
    using step AddTimeout by (auto simp: pv_insert_round_timeout_def split: sum.splits)
  show ?thesis
    by (rule timeout_inv_add [OF wf I, of "rt_author rt" "rt_timeout rt" "rt_signature rt"])
      (use AddTimeout x once [symmetric] res add_timeout_vote_effect [OF y] in \<open>auto simp: timed_out_def split: sum.splits\<close>)
next
  case (AddVote v)
  let ?d = "li_hash (v_ledger_info v)"
  have ins: "pv_insert_vote cr li_hash vv v (pv, mode) = (result, pv', mode')" using step AddVote by simp
  show ?thesis
  proof (cases "previously_seen ?d v pv")
    case (Some z)
    then show ?thesis using ins timeout_inv_keep [OF I, of pv' result v] AddVote
      by (auto simp: pv_insert_vote_def previously_seen_def split: option.splits if_splits)
  next
    case None
    then have "count_vote cr ?d vv v pv mode = (result, pv', mode')" using ins by (simp add: pv_insert_vote_def)
    then show ?thesis
    proof (cases rule: count_vote_cases)
      case (collected sa c status)
      from collected(7) show ?thesis
      proof (elim disjE exE conjE)
        fix t s p
        assume v: "v_two_chain_timeout v = Some (t, s)" and "p = timeouts_with (timeouts_of pv) (v_author v) t s"
          "timeouts_of pv' = Some p" "\<forall>tc. result = New2ChainTimeoutCertificate tc \<longleftrightarrow>
            (\<exists>w. check_voting_power vv (ptc_signers p) True = Inr w) \<and> partial_timeout_aggregate_signatures cr vv p = Inr tc"
        moreover have ev: "event_timeouts ev = {(v_author v, t, s)}" using AddVote v by auto
        moreover have "hqc_round t' = hqc_round t" if "(v_author v, t', s') \<in> \<Union>(event_timeouts ` evs)" for t' s'
          using once [OF _ that, of t s] ev by simp
        ultimately show ?thesis
          using x by (intro timeout_inv_add [OF wf I, of "v_author v" t s]) (auto simp: timed_out_def AddVote)
      qed (use timeout_inv_keep [OF I] AddVote in blast)
    qed (use timeout_inv_keep [OF I] AddVote in auto)
  qed
qed
lemma verified_timeouts_ok:
  assumes "\<forall>rt. AddTimeout rt \<in> set es \<longrightarrow> round_timeout_verify cr vv rt = Inr () \<and>
      tct_epoch (rt_timeout rt) = e \<and> tct_round (rt_timeout rt) = r"
    and "\<forall>v. AddVote v \<in> set es \<longrightarrow> vote_verify_timeout cr vv v = Inr () \<and> vote_epoch v = e \<and> bi_round (vd_proposed (v_vote_data v)) = r"
    and "ev \<in> set es" "x \<in> event_timeouts ev"
  shows "timeout_ok cr vv e r x"
  using assms
  by (cases ev) (auto simp: timeout_ok_def round_timeout_verify_def vote_verify_timeout_def with_context_def into_anyhow_def result_simps
      split: option.splits)

text \<open>
  A validator that times out twice replaces the timeout of the collection, but not the round that
  it signed first.
\<close>

definition overtaken :: "validator_verifier \<Rightarrow> round_t \<Rightarrow> pending_votes \<Rightarrow> bool" where
  "overtaken vv h pv \<longleftrightarrow>
     (\<exists>p. timeouts_of pv = Some p \<and> btree_wf (pswr_signatures (ptc_signatures p)) \<and> set (ptc_signers p) \<subseteq> members vv \<and>
        hqc_round (ptc_timeout p) = h \<and> (\<forall>a r s. (a, r, s) \<in> set (pswr_signatures (ptc_signatures p)) \<longrightarrow> r < h))"

lemma pswr_add_entries:
  assumes "btree_wf (pswr_signatures ps)"
  shows "btree_wf (pswr_signatures (pswr_add_signature ps a r s))"
    and "a \<in> fst ` set (pswr_signatures ps) \<Longrightarrow> pswr_add_signature ps a r s = ps"
    and "set (pswr_signatures (pswr_add_signature ps a r s)) \<subseteq> insert (a, r, s) (set (pswr_signatures ps))"
proof -
  show "a \<in> fst ` set (pswr_signatures ps) \<Longrightarrow> pswr_add_signature ps a r s = ps"
    using btree_get_None_iff [of "pswr_signatures ps" a] by (auto simp: pswr_add_signature_def split: option.splits)
  show "btree_wf (pswr_signatures (pswr_add_signature ps a r s))"
    using assms by (simp add: pswr_add_signature_def btree_wf_insert split: option.splits)
  show "set (pswr_signatures (pswr_add_signature ps a r s)) \<subseteq> insert (a, r, s) (set (pswr_signatures ps))"
    using set_btree_insert_fresh [of a "pswr_signatures ps" "(r, s)"] btree_get_None_iff [of "pswr_signatures ps" a]
    by (auto simp: pswr_add_signature_def split: option.splits)
qed

lemma insert_round_timeout_effect:
  assumes "pv_insert_round_timeout cr vv rt pv = (result, pv')"
  shows "timeouts_of pv' = Some (timeouts_with (timeouts_of pv) (rt_author rt) (rt_timeout rt) (rt_signature rt))"
    and "result = New2ChainTimeoutCertificate tc \<Longrightarrow>
      partial_timeout_aggregate_signatures cr vv
        (timeouts_with (timeouts_of pv) (rt_author rt) (rt_timeout rt) (rt_signature rt)) = Inr tc"
proof -
  obtain y pv1 where y: "add_timeout_vote cr vv (rt_author rt) (rt_timeout rt) (rt_signature rt) (rt_reason rt) pv = (y, pv1)"
    by fastforce
  then have "result = (case y of Inl z \<Rightarrow> z | Inr w \<Rightarrow> VoteAdded w)" "pv' = pv1"
    using assms by (auto simp: pv_insert_round_timeout_def split: sum.splits)
  then show "timeouts_of pv' = Some (timeouts_with (timeouts_of pv) (rt_author rt) (rt_timeout rt) (rt_signature rt))"
    "result = New2ChainTimeoutCertificate tc \<Longrightarrow>
      partial_timeout_aggregate_signatures cr vv
        (timeouts_with (timeouts_of pv) (rt_author rt) (rt_timeout rt) (rt_signature rt)) = Inr tc"
    using add_timeout_vote_effect [OF y] by (auto split: sum.splits)
qed

lemma overtaken_no_certificate:
  assumes "verifier_wf vv" "overtaken vv h pv'" "pv_insert_round_timeout cr vv rt pv = (New2ChainTimeoutCertificate tc, pv')"
  shows "timeout_certificate_verify cr vv tc \<noteq> Inr ()"
  using outdated_rounds_never_verify [OF assms(1)] assms(2) insert_round_timeout_effect [OF assms(3)]
  by (fastforce simp: overtaken_def)

lemma overtaken_keep:
  assumes "overtaken vv h pv" "hqc_round (rt_timeout rt) < h" "rt_author rt \<in> members vv"
    and "pv_insert_round_timeout cr vv rt pv = (result, pv')"
  shows "overtaken vv h pv'"
proof -
  let ?a = "rt_author rt" and ?t = "rt_timeout rt" and ?s = "rt_signature rt"
  obtain p where p: "timeouts_of pv = Some p" "btree_wf (pswr_signatures (ptc_signatures p))" "set (ptc_signers p) \<subseteq> members vv"
    "hqc_round (ptc_timeout p) = h" "\<And>a r s. (a, r, s) \<in> set (pswr_signatures (ptc_signatures p)) \<Longrightarrow> r < h"
    using assms(1) unfolding overtaken_def by blast
  define q where "q = partial_timeout_add p ?a ?t ?s"
  have q: "ptc_timeout q = ptc_timeout p" "ptc_signatures q = pswr_add_signature (ptc_signatures p) ?a (hqc_round ?t) ?s"
    using assms(2) p(4) by (auto simp: q_def partial_timeout_add_def Let_def)
  have "timeouts_of pv' = Some q" using insert_round_timeout_effect(1) [OF assms(4)] p(1) by (simp add: timeouts_with_def q_def)
  moreover have "set (ptc_signers q) \<subseteq> members vv" using p(3) assms(3) by (simp add: q_def signers_add)
  moreover have "r < h" if "(a, r, s) \<in> set (pswr_signatures (ptc_signatures q))" for a r s
    using pswr_add_entries(3) [OF p(2), of ?a "hqc_round ?t" ?s] that q(2) assms(2) p(5) by auto
  ultimately show ?thesis using pswr_add_entries(1) [OF p(2)] p(4) q unfolding overtaken_def by metis
qed
lemma overtaken_by_second:
  assumes "timeouts_of pv = Some p" "ptc_consistent p" "set (ptc_signers p) \<subseteq> members vv" "rt_author rt \<in> set (ptc_signers p)"
    and "hqc_round (ptc_timeout p) < hqc_round (rt_timeout rt)" "pv_insert_round_timeout cr vv rt pv = (result, pv')"
  shows "overtaken vv (hqc_round (rt_timeout rt)) pv'"
proof -
  let ?es = "pswr_signatures (ptc_signatures p)"
  define q where "q = partial_timeout_add p (rt_author rt) (rt_timeout rt) (rt_signature rt)"
  have wf: "btree_wf ?es" using assms(2) by (simp add: ptc_consistent_def)
  have q: "ptc_timeout q = rt_timeout rt" "ptc_signatures q = ptc_signatures p"
    using assms(4,5) pswr_add_entries(2) [OF wf] by (auto simp: q_def partial_timeout_add_def Let_def ptc_signers_def)
  have "timeouts_of pv' = Some q" using insert_round_timeout_effect(1) [OF assms(6)] assms(1) by (simp add: timeouts_with_def q_def)
  moreover have "r < hqc_round (rt_timeout rt)" if "(a, r, s) \<in> set ?es" for a r s
  proof -
    have "r \<in> set (map (fst \<circ> snd) ?es)" using that by force
    then have "r \<le> hqc_round (ptc_timeout p)" using assms(2) iter_max_ge unfolding ptc_consistent_def by blast
    then show ?thesis using assms(5) by simp
  qed
  moreover have "ptc_signers q = ptc_signers p" using q(2) by (simp add: ptc_signers_def)
  ultimately show ?thesis using q wf assms(3) unfolding overtaken_def by metis
qed

section \<open>Order certificates\<close>

datatype pov_event = AddOrderVote order_vote "quorum_cert option" | CollectGarbage u64

fun pov_run ::
    "ledger_info bls \<Rightarrow> (ledger_info \<Rightarrow> hash_value) \<Rightarrow> validator_verifier \<Rightarrow> pov_event list \<Rightarrow> pending_order_votes \<times> verify_mode \<Rightarrow>
     order_vote_reception_result list \<times> pending_order_votes \<times> verify_mode" where
  "pov_run bls li_hash vv [] state = ([], state)"
| "pov_run bls li_hash vv (CollectGarbage r # es) state = pov_run bls li_hash vv es (garbage_collect r (fst state), snd state)"
| "pov_run bls li_hash vv (AddOrderVote ov qc # es) state =
     (case insert_order_vote bls li_hash vv ov qc state of
        (x, state') \<Rightarrow> (case pov_run bls li_hash vv es state' of (xs, state'') \<Rightarrow> (x # xs, state'')))"

definition order_ok ::
    "ledger_info bls \<Rightarrow> (ledger_info \<Rightarrow> hash_value) \<Rightarrow> validator_verifier \<Rightarrow> ledger_info set \<Rightarrow> pending_order_votes \<Rightarrow> bool" where
  "order_ok bls li_hash vv S pov \<longleftrightarrow>
     (\<forall>d qc st. (d, qc, st) \<in> set (pov_li_digest_to_votes pov) \<longrightarrow>
        (\<exists>li \<in> S. li_hash li = d \<and> status_ok bls vv li st \<and> certified_block qc = li_commit_info li))"

lemma set_hm_insert: "set (hm_insert k v m) \<subseteq> insert (k, v) (set m)"
  by (induction m) (auto simp: hm_insert_def)

lemma order_ok_put:
  "order_ok bls li_hash vv S pov \<Longrightarrow> li \<in> S \<Longrightarrow> status_ok bls vv li st \<Longrightarrow> certified_block qc = li_commit_info li \<Longrightarrow>
     order_ok bls li_hash vv S (pov\<lparr>pov_li_digest_to_votes := hm_insert (li_hash li) (qc, st) (pov_li_digest_to_votes pov)\<rparr>)"
  using set_hm_insert [of "li_hash li" "(qc, st)" "pov_li_digest_to_votes pov"] unfolding order_ok_def by fastforce

definition order_certificate_ok :: "ledger_info bls \<Rightarrow> validator_verifier \<Rightarrow> ledger_info set \<Rightarrow> order_vote_reception_result \<Rightarrow> bool" where
  "order_certificate_ok bls vv S x \<longleftrightarrow>
     (\<forall>qc s. x = NewLedgerInfoWithSignatures qc s \<longrightarrow>
        verify_signatures bls vv s = Inr () \<and> lis_ledger_info s \<in> S \<and> certified_block qc = lis_commit_info s)"

lemma insert_order_vote_ok:
  assumes wf: "verifier_wf vv" "inj_on li_hash S" "ov_ledger_info ov \<in> S" and ok: "order_ok bls li_hash vv S pov"
    and qc: "\<And>q. vqc = Some q \<Longrightarrow> certified_block q = li_commit_info (ov_ledger_info ov)"
    and step: "insert_order_vote bls li_hash vv ov vqc (pov, mode) = (x, pov', mode')"
  shows "order_ok bls li_hash vv S pov' \<and> order_certificate_ok bls vv S x"
proof -
  let ?li = "ov_ledger_info ov"
  define entry where "entry = (case hm_get (pov_li_digest_to_votes pov) (li_hash ?li) of Some e \<Rightarrow> Some e
    | None \<Rightarrow> map_option (\<lambda>qc. (qc, NotEnoughVotes (signature_aggregator_new ?li))) vqc)"
  note run = step [unfolded insert_order_vote_def prod.case Let_def, folded entry_def]
  show ?thesis
  proof (cases entry)
    case None
    then show ?thesis using run ok by (auto simp: order_certificate_ok_def)
  next
    case (Some e)
    obtain q st where e: "e = (q, st)" by fastforce
    have "status_ok bls vv ?li st \<and> certified_block q = li_commit_info ?li"
    proof (cases "hm_get (pov_li_digest_to_votes pov) (li_hash ?li)")
      case None
      then show ?thesis using Some e qc by (auto simp: entry_def simp del: status_ok.simps)
    next
      case (Some e')
      then have "(li_hash ?li, q, st) \<in> set (pov_li_digest_to_votes pov)"
        using \<open>entry = Some e\<close> e by (auto simp: entry_def hm_get_def dest: map_of_SomeD)
      then show ?thesis using ok wf(2,3) by (auto simp: order_ok_def inj_on_eq_iff dest!: spec)
    qed
    then have st: "status_ok bls vv ?li st" and q: "certified_block q = li_commit_info ?li" by simp_all
    note put = order_ok_put [OF ok wf(3) _ q]
    show ?thesis
    proof (cases st)
      case (EnoughVotes s)
      then show ?thesis using run Some e st q put wf(3) by (auto simp: order_certificate_ok_def lis_commit_info_def)
    next
      case (NotEnoughVotes sa)
      show ?thesis
      proof (cases "get_voting_power vv (ov_author ov) = None")
        case True
        then show ?thesis using run Some e NotEnoughVotes put [OF st] by (auto simp: order_certificate_ok_def)
      next
        case False
        obtain c st' m where c: "collect_signature bls vv (ov_author ov) (ov_signature ov) sa mode = (c, st', m)" by (metis prod_cases3)
        note ok' = collect_signature_ok [OF wf(1) st [unfolded NotEnoughVotes] False c]
        then have "status_ok bls vv ?li (EnoughVotes s)" if "c = NowEnough s" for s using that by (auto simp del: status_ok.simps)
        then show ?thesis using run Some e NotEnoughVotes False c put [OF conjunct1 [OF ok']] q wf(3)
          by (auto simp: order_certificate_ok_def lis_commit_info_def split: collected.splits)
      qed
    qed
  qed
qed
section \<open>A concrete round of votes and timeouts\<close>

definition ex_votes :: "pv_event list" where
  "ex_votes = map (\<lambda>a. AddVote (ex_vote a)) [1, 2, 3]"

definition ex_optimistic :: verify_mode where
  "ex_optimistic = \<lparr>pessimistic_verify_set = {}, optimistic_sig_verification = True\<rparr>"

lemma ex_vote_more [simp]: "v_author (ex_vote a) = a" "v_signature (ex_vote a) = sws_from [1]" "v_two_chain_timeout (ex_vote a) = None"
  by (simp_all add: ex_vote_def vote_new_with_signature_def)

lemma ex_known: "a \<in> {1, 2, 3, 4} \<Longrightarrow> get_public_key ex_verifier a = Some []"
  by (auto simp: get_public_key_def ex_index ex_info_def)

lemma ex_vote_accepted: "a \<in> {1, 2, 3, 4} \<Longrightarrow> vote_verify ex_crypto ex_verifier ex_optimistic (ex_vote a) = (Inr (), ex_vote a)"
  using ex_known [of a]
  by (simp add: vote_verify_def sbind_def sread_def optimistic_verify_vote_signature_def optimistic_verify_def ex_optimistic_def
      vote_verify_timeout_def with_context_def into_anyhow_def vote_data_verify_def ex_vote_li_def ledger_info_new_def)

lemma ex_signature_holds: "a \<in> {1, 2, 3, 4} \<Longrightarrow> signature_holds toy_bls ex_verifier m a (sws_from [1])"
  using ex_known [of a]
  by (simp add: signature_holds_def decompressed_signature_def lazy_decompress_def sws_from_def lazy_from_signature_def vv_verify_def)

lemma ex_voters: "{v_author v | v. AddVote v \<in> set ex_votes} = {1, 2, 3}"
  by (auto simp: ex_votes_def) (metis ex_vote_more(1))+

lemma ex_votes_certified:
  assumes "pv_run ex_crypto (\<lambda>_. 7) ex_verifier ex_votes (pending_votes_new, ex_optimistic) = (rs, state)"
  shows "\<exists>qc. NewQuorumCertificate qc \<in> set rs \<and> qc_ledger_info qc = ex_vote_li \<and>
    verify_signatures (cr_ledger_info ex_crypto) ex_verifier (qc_signed_ledger_info qc) = Inr ()"
  by (rule votes_certified [OF ex_verifier_wf _ _ ex_quorum _ _ assms])
    (simp_all add: ex_voters toy_bls_complete, auto simp: ex_votes_def ex_signature_holds inj_on_def)
definition ex_round_timeout :: "account_address \<Rightarrow> quorum_cert \<Rightarrow> round_timeout" where
  "ex_round_timeout a qc =
     \<lparr>rt_timeout = two_chain_timeout_new 1 2 qc, rt_author = a, rt_reason = Unknown, rt_signature = [1]\<rparr>"

lemma ex_round_timeout_simps [simp]:
  "rt_author (ex_round_timeout a qc) = a" "rt_signature (ex_round_timeout a qc) = [1]"
  "tct_epoch (rt_timeout (ex_round_timeout a qc)) = 1" "tct_round (rt_timeout (ex_round_timeout a qc)) = 2"
  "hqc_round (rt_timeout (ex_round_timeout a qc)) = bi_round (certified_block qc)"
  by (simp_all add: ex_round_timeout_def two_chain_timeout_new_def hqc_round_def)

lemma ex_round_timeout_verifies: "a \<in> {1, 2, 3, 4} \<Longrightarrow> round_timeout_verify ex_crypto ex_verifier (ex_round_timeout a ex_genesis_qc) = Inr ()"
  using ex_known [of a]
  by (simp add: round_timeout_verify_def two_chain_timeout_verify_def ex_genesis_qc_verifies vv_verify_def with_context_def into_anyhow_def)
    (simp add: ex_round_timeout_def two_chain_timeout_new_def hqc_round_def ex_genesis_qc_verifies)

lemma toy_bls_aggregate_complete: "bls_aggregate_complete (toy_bls :: 'm bls)"
proof -
  have "list_all (\<lambda>s. s = [1]) sigs"
    if "\<forall>(pk, m, s) \<in> set ps. bls_verify_struct_signature (toy_bls :: 'm bls) pk m s" "mset sigs = mset (map (\<lambda>(_, _, s). s) ps)"
    for ps :: "(public_key \<times> 'm \<times> bls_signature) list" and sigs
  proof -
    have "set sigs = (\<lambda>(_, _, s). s) ` set ps" using arg_cong [OF that(2), of set_mset] by simp
    then show ?thesis using that(1) by (auto simp: list_all_iff)
  qed
  note all_valid = this
  show ?thesis unfolding bls_aggregate_complete_def
  proof (intro allI impI)
    fix ps :: "(public_key \<times> 'm \<times> bls_signature) list" and sigs
    assume "\<forall>(pk, m, s) \<in> set ps. bls_verify_struct_signature (toy_bls :: 'm bls) pk m s" "mset sigs = mset (map (\<lambda>(_, _, s). s) ps)"
    from all_valid [OF this]
    show "\<exists>s. bls_aggregate_signatures toy_bls sigs = Some s \<and> bls_decompresses toy_bls s \<and>
      bls_verify_aggregate toy_bls s (map (\<lambda>(_, m, _). m) ps) (map (\<lambda>(pk, _, _). pk) ps)" by simp
  qed
qed

text \<open>Validators 1 and 2 have timed out without a certificate.\<close>

definition ex_timed_out :: two_chain_timeout_with_partial_signatures where
  "ex_timed_out = (let t = two_chain_timeout_new 1 2 ex_genesis_qc
     in partial_timeout_add (partial_timeout_add (partial_timeout_new t) 1 t [1]) 2 t [1])"

definition ex_collecting :: pending_votes where
  "ex_collecting = pending_votes_new\<lparr>pv_maybe_2chain_timeout_votes :=
     Some \<lparr>tcv_timeout_reason = [], tcv_partial_2chain_tc = ex_timed_out\<rparr>\<rparr>"

lemma ex_timed_out_facts:
  "pswr_signatures (ptc_signatures ex_timed_out) = [(1, 0, [1]), (2, 0, [1])]" "hqc_round (ptc_timeout ex_timed_out) = 0"
  "ptc_consistent ex_timed_out" "ptc_signers ex_timed_out = [1, 2]"
proof -
  show "pswr_signatures (ptc_signatures ex_timed_out) = [(1, 0, [1]), (2, 0, [1])]" "hqc_round (ptc_timeout ex_timed_out) = 0"
    by (simp_all add: ex_timed_out_def Let_def partial_timeout_add_def partial_timeout_new_def pswr_add_signature_def
        partial_signatures_with_round_empty_def btree_get_def two_chain_timeout_new_def hqc_round_def)
  then show "ptc_consistent ex_timed_out" "ptc_signers ex_timed_out = [1, 2]"
    by (simp_all add: ptc_consistent_def ptc_signers_def btree_wf_def iter_max_def)
qed
section \<open>Properties\<close>

text \<open>C8. Whatever votes and timeouts a validator collects in a round, verified eagerly or not, every
  quorum certificate it forms verifies, as long as the digests of the ledger infos voted for do not
  collide.\<close>

theorem formed_quorum_certificates_verify:
  assumes "verifier_wf vv" "inj_on li_hash {v_ledger_info v | v. AddVote v \<in> set es}"
    and "\<forall>v. AddVote v \<in> set es \<longrightarrow> (\<exists>mode v0. vote_verify cr vv mode v0 = (Inr (), v))"
    and "pv_run cr li_hash vv es (pending_votes_new, mode) = (rs, state)"
  shows "\<forall>qc. NewQuorumCertificate qc \<in> set rs \<longrightarrow> quorum_cert_verify cr vv qc = Inr ()"
proof -
  let ?S = "{v_ledger_info v | v. AddVote v \<in> set es}"
  let ?I = "\<lambda>evs results pv. statuses_ok cr li_hash vv ?S pv \<and>
    (\<forall>qc. NewQuorumCertificate qc \<in> results \<longrightarrow> quorum_cert_verify cr vv qc = Inr ())"
  obtain pv' mode' where state: "state = (pv', mode')" by fastforce
  have "?I ({} \<union> set es) ({} \<union> set rs) pv'"
  proof (rule pv_run_invariant [OF assms(4) [unfolded state]])
    show "?I {} {} pending_votes_new" by (simp add: statuses_ok_new)
  next
    fix e d results pv m r pv1 m1
    assume e: "e \<in> set es" and I: "?I d results pv" and step: "pv_exec cr li_hash vv e (pv, m) = (r, pv1, m1)"
    show "?I (insert e d) (insert r results) pv1"
    proof (cases e)
      case (AddVote v)
      then have v: "v_ledger_info v \<in> ?S" and ver: "\<exists>mode v0. vote_verify cr vv mode v0 = (Inr (), v)"
        using e assms(3) by auto
      have "quorum_cert_verify cr vv qc = Inr ()" if "r = NewQuorumCertificate qc" for qc
        using insert_vote_ok [OF assms(1) _ assms(2) v] I step AddVote that ver vote_verify_Inr
        by (intro quorum_cert_verifyI) (auto simp del: split_paired_Ex)
      then show ?thesis using insert_vote_ok [OF assms(1) _ assms(2) v] I step AddVote by auto
    next
      case (AddTimeout rt)
      then have t: "pv_insert_round_timeout cr vv rt pv = (r, pv1)" using step by (auto split: prod.splits)
      then show ?thesis using I insert_round_timeout_ok [OF t] insert_round_timeout_frame(3) [OF t] by auto
    qed
  qed
  then show ?thesis by simp
qed

theorem formed_quorum_certificates_verify_witness:
  "\<exists>rs state qc. pv_run ex_crypto (\<lambda>_. 7) ex_verifier ex_votes (pending_votes_new, ex_optimistic) = (rs, state) \<and>
     NewQuorumCertificate qc \<in> set rs \<and> quorum_cert_verify ex_crypto ex_verifier qc = Inr ()"
proof -
  obtain rs state where run: "pv_run ex_crypto (\<lambda>_. 7) ex_verifier ex_votes (pending_votes_new, ex_optimistic) = (rs, state)"
    by (metis surj_pair)
  have "\<forall>v. AddVote v \<in> set ex_votes \<longrightarrow> (\<exists>mode v0. vote_verify ex_crypto ex_verifier mode v0 = (Inr (), v))"
    using ex_vote_accepted by (auto simp: ex_votes_def)
  moreover have "inj_on (\<lambda>_ :: ledger_info. 7 :: hash_value) {v_ledger_info v | v. AddVote v \<in> set ex_votes}"
    by (auto simp: ex_votes_def inj_on_def)
  ultimately have "\<forall>qc. NewQuorumCertificate qc \<in> set rs \<longrightarrow> quorum_cert_verify ex_crypto ex_verifier qc = Inr ()"
    using formed_quorum_certificates_verify [OF ex_verifier_wf _ _ run] by blast
  then show ?thesis using ex_votes_certified [OF run] run by blast
qed

text \<open>C9. A quorum of votes is certified: once members with a quorum of the voting power have voted for a
  ledger info, with signatures that hold and without voting for another, a certificate for it has
  been formed, whatever other votes and timeouts were collected before, after and in between.\<close>

theorem quorum_of_votes_is_certified:
  assumes "verifier_wf vv" "bls_complete (cr_ledger_info cr) li" "inj_on li_hash {v_ledger_info v | v. AddVote v \<in> set es}"
    and "vv_quorum vv A" "A \<subseteq> {v_author v | v. AddVote v \<in> set es}"
    and "\<forall>v. AddVote v \<in> set es \<longrightarrow> v_author v \<in> A \<longrightarrow>
      v_ledger_info v = li \<and> signature_holds (cr_ledger_info cr) vv li (v_author v) (v_signature v)"
    and "pv_run cr li_hash vv es (pending_votes_new, mode) = (rs, state)"
  shows "\<exists>qc. NewQuorumCertificate qc \<in> set rs \<and> qc_ledger_info qc = li \<and>
    verify_signatures (cr_ledger_info cr) vv (qc_signed_ledger_info qc) = Inr ()"
  using assms by (rule votes_certified)

theorem quorum_of_votes_is_certified_witness:
  "\<exists>rs state qc. pv_run ex_crypto (\<lambda>_. 7) ex_verifier ex_votes (pending_votes_new, ex_optimistic) = (rs, state) \<and>
     NewQuorumCertificate qc \<in> set rs \<and> qc_ledger_info qc = ex_vote_li"
proof -
  obtain rs state where run: "pv_run ex_crypto (\<lambda>_. 7) ex_verifier ex_votes (pending_votes_new, ex_optimistic) = (rs, state)"
    by (metis surj_pair)
  have "\<exists>qc. NewQuorumCertificate qc \<in> set rs \<and> qc_ledger_info qc = ex_vote_li \<and>
      verify_signatures (cr_ledger_info ex_crypto) ex_verifier (qc_signed_ledger_info qc) = Inr ()"
    by (rule quorum_of_votes_is_certified [OF ex_verifier_wf _ _ ex_quorum _ _ run])
      (simp_all add: ex_voters toy_bls_complete, auto simp: ex_votes_def ex_signature_holds inj_on_def)
  then show ?thesis using run by blast
qed

text \<open>C10. Every timeout certificate formed in a round verifies, and one has been formed once members
  with a quorum of the voting power have timed out, if no validator times out of the round with two
  different certified rounds.\<close>

theorem formed_timeout_certificates_verify:
  assumes "verifier_wf vv" "bls_aggregate_complete (cr_timeout cr)"
    and "\<forall>rt. AddTimeout rt \<in> set es \<longrightarrow> round_timeout_verify cr vv rt = Inr () \<and>
      tct_epoch (rt_timeout rt) = e \<and> tct_round (rt_timeout rt) = r"
    and "\<forall>v. AddVote v \<in> set es \<longrightarrow> vote_verify_timeout cr vv v = Inr () \<and> vote_epoch v = e \<and> bi_round (vd_proposed (v_vote_data v)) = r"
    and "\<forall>a t s t' s'. (a, t, s) \<in> \<Union>(event_timeouts ` set es) \<longrightarrow> (a, t', s') \<in> \<Union>(event_timeouts ` set es) \<longrightarrow>
      hqc_round t = hqc_round t'"
    and "pv_run cr li_hash vv es (pending_votes_new, mode) = (rs, state)"
  shows "(\<forall>tc. New2ChainTimeoutCertificate tc \<in> set rs \<longrightarrow> tc_round tc = r \<and> timeout_certificate_verify cr vv tc = Inr ()) \<and>
    (vv_quorum vv (timed_out (set es)) \<longrightarrow> (\<exists>tc. New2ChainTimeoutCertificate tc \<in> set rs))"
proof -
  obtain pv' mode' where state: "state = (pv', mode')" by fastforce
  let ?I = "\<lambda>evs results pv. evs \<subseteq> set es \<and> timeout_inv cr vv e r evs results pv"
  have "?I ({} \<union> set es) ({} \<union> set rs) pv'"
  proof (rule pv_run_invariant [OF assms(6) [unfolded state], where I = ?I])
    show "?I {} {} pending_votes_new"
      using vv_quorum_nonempty [OF assms(1)] by (simp add: timeout_inv_def timed_out_def timeouts_of_def pending_votes_new_def)
  next
    fix ev evs results pv m x pv1 m1
    assume ev: "ev \<in> set es" and I: "?I evs results pv" and step: "pv_exec cr li_hash vv ev (pv, m) = (x, pv1, m1)"
    have "timeout_inv cr vv e r (insert ev evs) (insert x results) pv1"
    proof (rule timeout_inv_step [OF assms(1,2) conjunct2 [OF I] step])
      show "\<forall>x \<in> event_timeouts ev. timeout_ok cr vv e r x"
        using verified_timeouts_ok [OF assms(3,4) ev] by blast
      have "\<Union>(event_timeouts ` evs) \<subseteq> \<Union>(event_timeouts ` set es)" "event_timeouts ev \<subseteq> \<Union>(event_timeouts ` set es)"
        using I ev by auto
      then show "hqc_round t = hqc_round t'"
        if "(a, t, s) \<in> event_timeouts ev" "(a, t', s') \<in> \<Union>(event_timeouts ` evs)" for a t s t' s'
        using assms(5) [rule_format, of a t s t' s'] that by blast
    qed
    then show "?I (insert ev evs) (insert x results) pv1" using I ev by blast
  qed
  then show ?thesis by (simp add: timeout_inv_def)
qed

theorem formed_timeout_certificates_verify_witness:
  "\<exists>rs state tc. pv_run ex_crypto (\<lambda>_. 7) ex_verifier (map (\<lambda>a. AddTimeout (ex_round_timeout a ex_genesis_qc)) [1, 2, 3])
       (pending_votes_new, ex_optimistic) = (rs, state) \<and>
     New2ChainTimeoutCertificate tc \<in> set rs \<and> timeout_certificate_verify ex_crypto ex_verifier tc = Inr ()"
proof -
  let ?es = "map (\<lambda>a. AddTimeout (ex_round_timeout a ex_genesis_qc)) [1, 2, 3]"
  obtain rs state where run: "pv_run ex_crypto (\<lambda>_. 7) ex_verifier ?es (pending_votes_new, ex_optimistic) = (rs, state)"
    by (metis surj_pair)
  have timed: "timed_out (set ?es) = {1, 2, 3}"
    by (auto simp: timed_out_def) (metis ex_round_timeout_simps(1))+
  have "(\<forall>tc. New2ChainTimeoutCertificate tc \<in> set rs \<longrightarrow> tc_round tc = 2 \<and> timeout_certificate_verify ex_crypto ex_verifier tc = Inr ()) \<and>
    (vv_quorum ex_verifier (timed_out (set ?es)) \<longrightarrow> (\<exists>tc. New2ChainTimeoutCertificate tc \<in> set rs))"
    by (rule formed_timeout_certificates_verify [OF ex_verifier_wf _ _ _ _ run, where e = 1])
      (auto simp: toy_bls_aggregate_complete ex_round_timeout_verifies)
  then show ?thesis using run ex_quorum unfolding timed by blast
qed

text \<open>C11. One validator can spoil the timeout certificate of a round. If it times out again with a
  higher certificate than any seen so far, no timeout certificate formed then verifies, and none
  formed later, as long as nobody else times out with a certificate as high.\<close>

theorem second_timeout_spoils_certificate:
  assumes "verifier_wf vv" "timeouts_of pv = Some p" "ptc_consistent p" "set (ptc_signers p) \<subseteq> members vv"
    and "rt_author rt \<in> set (ptc_signers p)" "hqc_round (ptc_timeout p) < hqc_round (rt_timeout rt)"
    and "\<forall>rt' \<in> set rts. hqc_round (rt_timeout rt') < hqc_round (rt_timeout rt) \<and> rt_author rt' \<in> members vv"
    and "pv_run cr li_hash vv (AddTimeout rt # map AddTimeout rts) (pv, mode) = (rs, state)"
    and "New2ChainTimeoutCertificate tc \<in> set rs"
  shows "timeout_certificate_verify cr vv tc \<noteq> Inr ()"
proof -
  let ?h = "hqc_round (rt_timeout rt)"
  obtain r pv1 where first: "pv_insert_round_timeout cr vv rt pv = (r, pv1)" by fastforce
  obtain rs1 pv' mode' where rest: "pv_run cr li_hash vv (map AddTimeout rts) (pv1, mode) = (rs1, pv', mode')" "rs = r # rs1"
    using assms(8) first by (auto split: prod.splits) (metis prod.collapse)
  have over: "overtaken vv ?h pv1" by (rule overtaken_by_second [OF assms(2-6) first])
  let ?I = "\<lambda>evs results pv. overtaken vv ?h pv \<and>
    (\<forall>tc. New2ChainTimeoutCertificate tc \<in> results \<longrightarrow> timeout_certificate_verify cr vv tc \<noteq> Inr ())"
  have "?I ({} \<union> set (map AddTimeout rts)) ({r} \<union> set rs1) pv'"
  proof (rule pv_run_invariant [OF rest(1), where I = ?I])
    show "?I {} {r} pv1" using over overtaken_no_certificate [OF assms(1) over] first by auto
  next
    fix ev evs results pv m x pv2 m1
    assume "ev \<in> set (map AddTimeout rts)" and I: "?I evs results pv" and step: "pv_exec cr li_hash vv ev (pv, m) = (x, pv2, m1)"
    then obtain rt' where rt': "ev = AddTimeout rt'" "rt' \<in> set rts" by auto
    then have ins: "pv_insert_round_timeout cr vv rt' pv = (x, pv2)" using step by (auto split: prod.splits)
    have "overtaken vv ?h pv2" by (rule overtaken_keep [OF _ _ _ ins]) (use I assms(7) rt'(2) in auto)
    then show "?I (insert ev evs) (insert x results) pv2"
      using I overtaken_no_certificate [OF assms(1) _, of ?h pv2 cr rt' pv] ins by auto
  qed
  then show ?thesis using assms(9) rest(2) by auto
qed

theorem second_timeout_spoils_certificate_witness:
  "\<exists>rs state tc. pv_run ex_crypto (\<lambda>_. 7) ex_verifier
       [AddTimeout (ex_round_timeout 1 ex_qc), AddTimeout (ex_round_timeout 3 ex_genesis_qc)] (ex_collecting, ex_optimistic) = (rs, state) \<and>
     New2ChainTimeoutCertificate tc \<in> set rs \<and> timeout_certificate_verify ex_crypto ex_verifier tc \<noteq> Inr ()"
proof -
  let ?rt = "ex_round_timeout 1 ex_qc" and ?rt' = "ex_round_timeout 3 ex_genesis_qc"
  obtain r1 pv1 where one: "pv_insert_round_timeout ex_crypto ex_verifier ?rt ex_collecting = (r1, pv1)" by fastforce
  obtain y pv2 where two: "add_timeout_vote ex_crypto ex_verifier 3 (rt_timeout ?rt') [1] Unknown pv1 = (y, pv2)" by fastforce
  have c: "timeouts_of ex_collecting = Some ex_timed_out" by (simp add: timeouts_of_def ex_collecting_def)
  define q where "q = timeouts_with (timeouts_of pv1) 3 (rt_timeout ?rt') [1]"
  have q: "pswr_signatures (ptc_signatures q) = [(1, 0, [1]), (2, 0, [1]), (3, 0, [1])]"
    using insert_round_timeout_effect(1) [OF one]
    by (simp add: q_def c timeouts_with_def partial_timeout_add_def Let_def pswr_add_signature_def ex_timed_out_facts btree_get_def)
  then have signers: "ptc_signers q = [1, 2, 3]" "btree_wf (pswr_signatures (ptc_signatures q))" by (simp_all add: ptc_signers_def btree_wf_def)
  obtain tc where "partial_timeout_aggregate_signatures ex_crypto ex_verifier q = Inr tc"
    by (rule partial_timeout_aggregates [OF ex_verifier_wf signers(2), of ex_crypto]) (simp_all add: signers ex_members q)
  then have tc: "y = Inl (New2ChainTimeoutCertificate tc)"
    using add_timeout_vote_effect [OF two] ex_voting_power by (simp flip: q_def add: signers)
  have run: "pv_run ex_crypto (\<lambda>_. 7) ex_verifier (AddTimeout ?rt # map AddTimeout [?rt']) (ex_collecting, ex_optimistic) =
      ([r1, New2ChainTimeoutCertificate tc], pv2, ex_optimistic)"
    using one two tc by (simp add: pv_insert_round_timeout_def ex_round_timeout_def)
  have "timeout_certificate_verify ex_crypto ex_verifier tc \<noteq> Inr ()"
    by (rule second_timeout_spoils_certificate [OF ex_verifier_wf c _ _ _ _ _ run]) (simp_all add: ex_timed_out_facts ex_members)
  then show ?thesis using run by auto
qed

text \<open>C12. Every order certificate formed verifies, and orders the block that the quorum certificate
  kept with it certifies, however old entries are dropped in between.\<close>

theorem formed_order_certificates_verify:
  assumes "verifier_wf vv" "inj_on li_hash {ov_ledger_info ov | ov qc. AddOrderVote ov qc \<in> set es}"
    and "\<forall>ov qc. AddOrderVote ov (Some qc) \<in> set es \<longrightarrow> certified_block qc = li_commit_info (ov_ledger_info ov)"
    and "pov_run bls li_hash vv es (pending_order_votes_new, mode) = (xs, state)"
    and "NewLedgerInfoWithSignatures qc s \<in> set xs"
  shows "verify_signatures bls vv s = Inr () \<and> certified_block qc = lis_commit_info s"
proof -
  let ?S = "{ov_ledger_info ov | ov qc. AddOrderVote ov qc \<in> set es}"
  have "\<forall>x \<in> set xs. order_certificate_ok bls vv ?S x"
    if "pov_run bls li_hash vv es' state0 = (xs, state)" "set es' \<subseteq> set es" "order_ok bls li_hash vv ?S (fst state0)" for es' state0 xs
    using that
  proof (induction es' arbitrary: state0 xs)
    case (Cons ev es')
    show ?case
    proof (cases ev)
      case (CollectGarbage r)
      then show ?thesis using Cons.prems by (intro Cons.IH [of "(garbage_collect r (fst state0), snd state0)"])
          (auto simp: garbage_collect_def order_ok_def)
    next
      case (AddOrderVote ov vqc)
      obtain pov m where st: "state0 = (pov, m)" by fastforce
      obtain x pov1 m1 where ins: "insert_order_vote bls li_hash vv ov vqc state0 = (x, pov1, m1)" by (metis prod_cases3)
      obtain xs1 where xs: "xs = x # xs1" "pov_run bls li_hash vv es' (pov1, m1) = (xs1, state)"
        using Cons.prems(1) AddOrderVote ins by (auto split: prod.splits)
      have ok: "order_ok bls li_hash vv ?S pov1 \<and> order_certificate_ok bls vv ?S x"
        by (rule insert_order_vote_ok [OF _ _ _ _ _ ins [unfolded st]]) (use Cons.prems AddOrderVote assms(1-3) st in auto)
      then show ?thesis using Cons.IH [OF xs(2)] xs(1) Cons.prems(2) by auto
    qed
  qed simp
  from this [OF assms(4) subset_refl] have "order_certificate_ok bls vv ?S (NewLedgerInfoWithSignatures qc s)"
    using assms(5) by (simp add: order_ok_def pending_order_votes_new_def)
  then show ?thesis by (simp add: order_certificate_ok_def)
qed
text \<open>A single validator is a quorum of its own.\<close>

definition ex_single :: validator_verifier where
  "ex_single = build_index [ex_info 1] 1 1"

lemma ex_single_facts:
  "verifier_wf ex_single" "get_voting_power ex_single 1 = Some 1" "vv_quorum ex_single {1}" "get_public_key ex_single 1 = Some []"
proof -
  have single: "validator_infos ex_single = [ex_info 1]" "quorum_voting_power ex_single = 1" "address_to_validator_index ex_single = [1 \<mapsto> 0]"
    by (simp_all add: ex_single_def build_index_def insert_index_def ex_info_def)
  then show "get_voting_power ex_single 1 = Some 1" "get_public_key ex_single 1 = Some []"
    by (simp_all add: get_voting_power_def get_public_key_def ex_info_def)
  then show "vv_quorum ex_single {1}" using single by (simp add: vv_quorum_def members_def ex_info_def power_of_def)
  show "verifier_wf ex_single"
    by (simp add: verifier_wf_def validator_verifier_new_def sum_voting_power_infos_def ex_info_def
        checked_add_def checked_mul_def ex_single_def build_index_def unat_arith_simps)
qed

theorem formed_order_certificates_verify_witness:
  "\<exists>xs state s. pov_run toy_bls (\<lambda>_. 7) ex_single [AddOrderVote (ex_order_vote 1) (Some ex_qc)] (pending_order_votes_new, ex_optimistic) =
       (xs, state) \<and>
     NewLedgerInfoWithSignatures ex_qc s \<in> set xs \<and> verify_signatures toy_bls ex_single s = Inr () \<and> lis_commit_info s = ex_block_info"
proof -
  let ?ov = "ex_order_vote 1" and ?li = "ledger_info_new ex_block_info 0"
  have ov: "ov_author ?ov = 1" "ov_ledger_info ?ov = ?li" "ov_signature ?ov = sws_from [1]"
    by (simp_all add: ex_order_vote_def order_vote_new_with_signature_def)
  let ?sa = "signature_aggregator_new ?li"
  obtain c st m where c: "collect_signature toy_bls ex_single 1 (sws_from [1]) ?sa ex_optimistic = (c, st, m)" by (metis prod_cases3)
  have "valid_voters toy_bls ex_single (sa_add_signature ?sa 1 (sws_from [1])) = {1}"
    using ex_single_facts(4) by (subst valid_voters_add)
      (simp_all add: signature_holds_def decompressed_signature_def lazy_decompress_def sws_from_def lazy_from_signature_def vv_verify_def)
  then obtain s where s: "c = NowEnough s"
    using collect_signature_live [OF ex_single_facts(1) status_ok_new _ toy_bls_complete _ c] ex_single_facts(2,3) by auto
  then obtain state where run: "pov_run toy_bls (\<lambda>_. 7) ex_single [AddOrderVote ?ov (Some ex_qc)] (pending_order_votes_new, ex_optimistic) =
      ([NewLedgerInfoWithSignatures ex_qc s], state)"
    using c ov ex_single_facts(2) by (simp add: insert_order_vote_def Let_def pending_order_votes_new_def hm_get_def)
  have "verify_signatures toy_bls ex_single s = Inr () \<and> certified_block ex_qc = lis_commit_info s"
    by (rule formed_order_certificates_verify [OF ex_single_facts(1) _ _ run]) (auto simp: inj_on_def ov ledger_info_new_def)
  then show ?thesis using run by auto
qed


end
