(* ===== verification/Timeout_Reasons.thy ===== *)
theory Timeout_Reasons
  imports Pending_Votes
begin

text \<open>
  What the aggregated reason of a timed out round says (\<open>aggregated_timeout_reason\<close> in
  \<open>pending_votes.rs\<close>). The two tallies hold the exact voting power behind every reason and
  every missing author, so they never overflow, and a reason other than \<open>Unknown\<close> is one that
  an honest validator reported.
\<close>

section \<open>The tallies\<close>

definition tally :: "('k, u128) hash_map \<Rightarrow> 'k \<Rightarrow> nat" where
  "tally m k = (case hm_get m k of Some p \<Rightarrow> unat p | None \<Rightarrow> 0)"

definition voters_power :: "validator_verifier \<Rightarrow> (round_timeout_reason \<Rightarrow> bool) \<Rightarrow> (account_address, round_timeout_reason) hash_map \<Rightarrow> nat" where
  "voters_power vv P reasons = sum_list (map (power_of vv \<circ> fst) (filter (P \<circ> snd) reasons))"

lemma unat_u128_less: "unat (w :: u128) < 2 ^ 128"
  using unsigned_less [of w] by simp

lemma tally_Nil [simp]: "tally [] k = 0"
  by (simp add: tally_def hm_get_def)

lemma voters_power_simps [simp]:
  "voters_power vv P [] = 0"
  "voters_power vv P ((a, r) # reasons) = (if P r then power_of vv a else 0) + voters_power vv P reasons"
  by (simp_all add: voters_power_def)

lemma voters_power_le: "voters_power vv P reasons \<le> voters_power vv (\<lambda>_. True) reasons"
  by (induction reasons) auto

lemma unat_voting_power_or_default: "unat (voting_power_or_default vv a) = power_of vv a"
  by (simp add: voting_power_or_default_def power_of_def unat_ucast_u64 split: option.splits)

lemma hm_add_tally:
  assumes "tally m k + unat n < 2 ^ 128"
  shows "\<exists>m'. hm_add k n m = Some m' \<and> (\<forall>k'. tally m' k' = tally m k' + (if k' = k then unat n else 0))"
proof -
  define p where "p = (case hm_get m k of Some p \<Rightarrow> p | None \<Rightarrow> 0)"
  have p: "unat p = tally m k" by (simp add: p_def tally_def split: option.splits)
  then have q: "checked_add p n = Some (p + n)" using assms by (simp add: checked_add_def)
  then have "unat (p + n) = tally m k + unat n" using checked_add_Some_unat p by metis
  then show ?thesis using q by (auto simp: hm_add_def p_def [symmetric] tally_def hm_get_insert)
qed

lemma hm_add_distinct: "hm_add k n m = Some m' \<Longrightarrow> distinct (map fst m) \<Longrightarrow> distinct (map fst m')"
  by (auto simp: hm_add_def hm_insert_def bind_eq_Some_conv distinct_update)

lemma add_missing_distinct: "add_missing w is m = Some m' \<Longrightarrow> distinct (map fst m) \<Longrightarrow> distinct (map fst m')"
  by (induction "is" arbitrary: m) (auto simp: bind_eq_Some_conv dest: hm_add_distinct)

lemma add_missing_tally:
  assumes "distinct is" "\<forall>i \<in> set is. tally m i + unat w < 2 ^ 128"
  shows "\<exists>m'. add_missing w is m = Some m' \<and> (\<forall>i. tally m' i = tally m i + (if i \<in> set is then unat w else 0))"
  using assms
proof (induction "is" arbitrary: m)
  case (Cons j js)
  then obtain m1 where m1: "hm_add j w m = Some m1" "\<And>i. tally m1 i = tally m i + (if i = j then unat w else 0)"
    using hm_add_tally [of m j w] by auto
  have "\<exists>m'. add_missing w js m1 = Some m' \<and> (\<forall>i. tally m' i = tally m1 i + (if i \<in> set js then unat w else 0))"
    by (rule Cons.IH) (use Cons.prems m1(2) in auto)
  then show ?case using m1 Cons.prems(1) by auto
qed simp

lemma add_missing_keys: "add_missing w is m = Some m' \<Longrightarrow> fst ` set m' = fst ` set m \<union> set is"
proof (induction "is" arbitrary: m)
  case (Cons i "is")
  then obtain m1 where m1: "hm_add i w m = Some m1" "add_missing w is m1 = Some m'" by (auto simp: bind_eq_Some_conv)
  then obtain y where "m1 = AList.update i y m" by (auto simp: hm_add_def hm_insert_def bind_eq_Some_conv)
  then have "fst ` set m1 = insert i (fst ` set m)" by (simp add: dom_update)
  then show ?case using Cons.IH [OF m1(2)] by auto
qed simp

lemma tally_reasons_keys:
  "tally_reasons vv reasons P M = Some (P', M') \<Longrightarrow> fst ` set M' = fst ` set M \<union> (\<Union>(a, r) \<in> set reasons. set (reason_missing r))"
proof (induction reasons arbitrary: P M)
  case (Cons ar rest)
  obtain a r where ar: "ar = (a, r)" by (cases ar)
  then obtain M1 P1 where m1: "add_missing (voting_power_or_default vv a) (reason_missing r) M = Some M1"
    "tally_reasons vv rest P1 M1 = Some (P', M')"
    using Cons.prems by (auto simp: bind_eq_Some_conv)
  then show ?case using add_missing_keys [OF m1(1)] Cons.IH [OF m1(2)] by (simp add: ar Un_assoc)
qed simp

lemma tally_reasons_exact:
  assumes "\<forall>k. tally P k + voters_power vv (\<lambda>_. True) reasons < 2 ^ 128"
    and "\<forall>i. tally M i + voters_power vv (\<lambda>_. True) reasons < 2 ^ 128"
  shows "\<exists>P' M'. tally_reasons vv reasons P M = Some (P', M') \<and>
    (\<forall>k. tally P' k = tally P k + voters_power vv (\<lambda>r. reason_key vv r = k) reasons) \<and>
    (\<forall>i. tally M' i = tally M i + voters_power vv (\<lambda>r. i \<in> set (reason_missing r)) reasons) \<and>
    (distinct (map fst P) \<longrightarrow> distinct (map fst P')) \<and> (distinct (map fst M) \<longrightarrow> distinct (map fst M'))"
  using assms
proof (induction reasons arbitrary: P M)
  case (Cons ar reasons)
  obtain a r where ar: "ar = (a, r)" by (cases ar)
  let ?w = "voting_power_or_default vv a"
  let ?v = "voters_power vv (\<lambda>_. True) reasons"
  have bounds: "tally M i + unat ?w < 2 ^ 128" "tally P k + unat ?w < 2 ^ 128"
    "tally M i + ?v < 2 ^ 128" "tally P k + ?v < 2 ^ 128" for i k
    using Cons.prems(2) [rule_format, of i] Cons.prems(1) [rule_format, of k]
    by (simp_all add: ar unat_voting_power_or_default)
  have "distinct (reason_missing r)" by (cases r) simp_all
  then obtain M1 where M1: "add_missing ?w (reason_missing r) M = Some M1"
    "\<And>i. tally M1 i = tally M i + (if i \<in> set (reason_missing r) then power_of vv a else 0)"
    using add_missing_tally [of "reason_missing r" M ?w] bounds(1) unat_voting_power_or_default by metis
  obtain P1 where P1: "hm_add (reason_key vv r) ?w P = Some P1"
    "\<And>k. tally P1 k = tally P k + (if k = reason_key vv r then power_of vv a else 0)"
    using hm_add_tally [OF bounds(2), of "reason_key vv r"] unat_voting_power_or_default by metis
  have "\<exists>P' M'. tally_reasons vv reasons P1 M1 = Some (P', M') \<and>
    (\<forall>k. tally P' k = tally P1 k + voters_power vv (\<lambda>r. reason_key vv r = k) reasons) \<and>
    (\<forall>i. tally M' i = tally M1 i + voters_power vv (\<lambda>r. i \<in> set (reason_missing r)) reasons) \<and>
    (distinct (map fst P1) \<longrightarrow> distinct (map fst P')) \<and> (distinct (map fst M1) \<longrightarrow> distinct (map fst M'))"
    by (rule Cons.IH) (use Cons.prems bounds in \<open>auto simp: ar M1(2) P1(2) add.assoc\<close>)
  then show ?case using M1 P1 hm_add_distinct [OF P1(1)] add_missing_distinct [OF M1(1)] by (auto simp: ar)
qed simp

lemma voters_power_total:
  assumes "verifier_wf vv" "distinct (map fst reasons)"
  shows "voters_power vv P reasons = sum (power_of vv) {a \<in> members vv. \<exists>r. (a, r) \<in> set reasons \<and> P r}"
proof -
  have member: "a \<in> members vv" if "0 < power_of vv a" for a
    using get_voting_power_None [OF assms(1), of a] that by (auto simp: power_of_def)
  have "voters_power vv P reasons = sum (power_of vv) (fst ` set (filter (P \<circ> snd) reasons))"
    using assms(2) by (simp add: voters_power_def sum_list_distinct_conv_sum_set distinct_map_filter flip: map_map set_map del: set_filter)
  also have "\<dots> = sum (power_of vv) {a \<in> members vv. \<exists>r. (a, r) \<in> set reasons \<and> P r}"
    by (rule sum.mono_neutral_right) (auto intro: member rev_image_eqI)
  finally show ?thesis .
qed

lemma voters_power_le_total:
  assumes "verifier_wf vv" "distinct (map fst reasons)"
  shows "voters_power vv P reasons \<le> unat (total_voting_power vv)"
  using voters_power_total [OF assms, of P] verifier_totals(1) [OF assms(1)]
  by (simp add: sum_mono2)

section \<open>The reason reported\<close>

lemma max_by_power_append:
  "max_by_power (xs @ [x]) =
     (case max_by_power xs of None \<Rightarrow> Some x | Some y \<Rightarrow> if snd y \<le> snd x then Some x else Some y)"
  by (simp add: max_by_power_def)

lemma max_by_power_greatest:
  "(case max_by_power xs of None \<Rightarrow> xs = [] | Some x \<Rightarrow> x \<in> set xs \<and> (\<forall>y \<in> set xs. snd y \<le> snd x))"
proof (induction xs rule: rev_induct)
  case Nil
  then show ?case by (simp add: max_by_power_def)
next
  case (snoc x xs)
  then show ?case by (auto simp: max_by_power_append split: option.splits)
qed

definition minority :: "validator_verifier \<Rightarrow> nat" where
  "minority vv = unat (total_voting_power vv) - unat (quorum_voting_power vv) + 1"

lemma minority_positive: "0 < minority vv"
  by (simp add: minority_def)

lemma minority_no_overflow:
  assumes "verifier_wf vv" "0 < total_voting_power vv"
  shows "checked_sub (total_voting_power vv) (quorum_voting_power vv) = Some (total_voting_power vv - quorum_voting_power vv)"
    and "checked_add (total_voting_power vv - quorum_voting_power vv) 1 = Some (total_voting_power vv - quorum_voting_power vv + 1)"
    and "unat (total_voting_power vv - quorum_voting_power vv + 1) = minority vv"
proof -
  let ?t = "unat (total_voting_power vv)" and ?q = "unat (quorum_voting_power vv)"
  have "?q = ?t * 2 div 3 + 1" "0 < ?t"
    using verifier_totals(2) [OF assms(1)] assms(2) by (simp_all add: word_less_nat_alt)
  then have q: "?q \<le> ?t" "0 < ?q" by linarith+
  then show "checked_sub (total_voting_power vv) (quorum_voting_power vv) = Some (total_voting_power vv - quorum_voting_power vv)"
    by (simp add: checked_sub_def word_le_nat_alt)
  have u: "unat (total_voting_power vv - quorum_voting_power vv) = ?t - ?q"
    using q(1) by (simp add: unat_sub word_le_nat_alt)
  have "?t - ?q + 1 < 2 ^ 128" using q unat_u128_less [of "total_voting_power vv"] by simp
  then show c: "checked_add (total_voting_power vv - quorum_voting_power vv) 1 = Some (total_voting_power vv - quorum_voting_power vv + 1)"
    by (simp add: checked_add_def u)
  show "unat (total_voting_power vv - quorum_voting_power vv + 1) = minority vv"
    using checked_add_Some_unat [OF c] u by (simp add: minority_def)
qed

lemma has_minority_iff:
  assumes "verifier_wf vv" "0 < total_voting_power vv"
  shows "has_minority vv w = Some (minority vv \<le> unat w)"
  using minority_no_overflow [OF assms]
  by (auto simp: has_minority_def check_aggregated_voting_power_def rbind_def ok_or_def word_less_nat_alt)

lemma aggregated_missing_positions:
  assumes "verifier_wf vv" "0 < total_voting_power vv" "\<forall>(i, w) \<in> set m. i < 65536"
  shows "\<exists>bits'. aggregated_missing vv m bits = Some bits' \<and>
    bitvec_positions bits' = bitvec_positions bits \<union> {i. \<exists>w. (i, w) \<in> set m \<and> minority vv \<le> unat w}"
  using assms(3)
proof (induction m arbitrary: bits)
  case (Cons iw m)
  obtain i w where iw: "iw = (i, w)" by (cases iw)
  have "unat (word_of_nat i :: u16) = i" using Cons.prems iw by (simp add: unat_of_nat_less)
  then have "bitvec_positions (if minority vv \<le> unat w then bitvec_set bits (word_of_nat i) else bits) =
    bitvec_positions bits \<union> {j. j = i \<and> minority vv \<le> unat w}"
    by (auto simp: bitvec_positions_set)
  then show ?case
    using Cons.IH [of "if minority vv \<le> unat w then bitvec_set bits (word_of_nat i) else bits"] Cons.prems
    by (auto simp: iw has_minority_iff [OF assms(1,2)])
qed simp

text \<open>The entries of a tally, and its greatest one.\<close>

lemma tally_entry: "distinct (map fst m) \<Longrightarrow> (k, p) \<in> set m \<Longrightarrow> tally m k = unat p"
  by (simp add: tally_def hm_get_def)

lemma tally_positive: "0 < tally m k \<Longrightarrow> \<exists>p. (k, p) \<in> set m \<and> unat p = tally m k"
  by (auto simp: tally_def hm_get_def split: option.splits dest: map_of_SomeD)

lemma greatest_tally:
  assumes "distinct (map fst m)" "set (order m) = set m"
  shows "case max_by_power (order m) of
      None \<Rightarrow> \<forall>k. tally m k = 0
    | Some (k, w) \<Rightarrow> unat w = tally m k \<and> (\<forall>k'. tally m k' \<le> tally m k)"
proof (cases "max_by_power (order m)")
  case None
  then have "m = []" using max_by_power_greatest [of "order m"] assms(2) by simp
  then show ?thesis using None by simp
next
  case (Some kw)
  obtain k w where kw: "kw = (k, w)" by (cases kw)
  have m: "(k, w) \<in> set m" "\<forall>y \<in> set m. snd y \<le> w"
    using max_by_power_greatest [of "order m"] Some assms(2) kw by auto
  then have w: "tally m k = unat w" using tally_entry [OF assms(1)] by simp
  have "tally m k' \<le> tally m k" for k'
    using m(2) tally_positive [of m k'] w by (cases "tally m k' = 0") (auto simp: word_le_nat_alt)
  then show ?thesis using Some kw w by simp
qed

text \<open>
  The voting power of the members whose reason satisfies \<open>P\<close>.
\<close>

definition reporters_power :: "validator_verifier \<Rightarrow> (account_address, round_timeout_reason) hash_map \<Rightarrow> (round_timeout_reason \<Rightarrow> bool) \<Rightarrow> nat" where
  "reporters_power vv reasons P = sum (power_of vv) {a \<in> members vv. \<exists>r. (a, r) \<in> set reasons \<and> P r}"

fun reason_wf :: "round_timeout_reason \<Rightarrow> bool" where
  "reason_wf (PayloadUnavailable missing) = bitvec_wf missing"
| "reason_wf r = True"

lemma reason_missing_bounded: "reason_wf r \<Longrightarrow> i \<in> set (reason_missing r) \<Longrightarrow> i < 65536"
  by (cases r) (auto simp: set_iter_ones bitvec_positions_def dest: bitvec_bit_bounded)

text \<open>Two validators report that no quorum certificate was formed, a third one gives no reason.\<close>

definition ex_reasons :: two_chain_timeout_votes where
  "ex_reasons = \<lparr>tcv_timeout_reason = [(1, NoQC), (2, NoQC), (3, Unknown)], tcv_partial_2chain_tc = ex_timed_out\<rparr>"

lemma ex_reporters:
  "reporters_power ex_verifier (tcv_timeout_reason ex_reasons) P =
     (if P NoQC then 2 else 0) + (if P Unknown then 1 else 0)"
proof -
  have "reporters_power ex_verifier (tcv_timeout_reason ex_reasons) P =
      voters_power ex_verifier P (tcv_timeout_reason ex_reasons)"
    using voters_power_total [OF ex_verifier_wf, of "tcv_timeout_reason ex_reasons" P]
    by (simp add: reporters_power_def ex_reasons_def)
  then show ?thesis using ex_power by (simp add: ex_reasons_def)
qed

text \<open>
  What the aggregated reason should be: the kind of reason with the most voting power behind it if
  that is at least a minority, and unknown otherwise. The authors given as missing are those that a
  minority reported.
\<close>

definition aggregate_of :: "validator_verifier \<Rightarrow> (account_address, round_timeout_reason) hash_map \<Rightarrow> round_timeout_reason \<Rightarrow> bool" where
  "aggregate_of vv reasons reason \<longleftrightarrow>
     (\<exists>k. (\<forall>k'. reporters_power vv reasons (\<lambda>r. reason_key vv r = k') \<le> reporters_power vv reasons (\<lambda>r. reason_key vv r = k)) \<and>
        (if reporters_power vv reasons (\<lambda>r. reason_key vv r = k) < minority vv then reason = Unknown
         else case k of
                PayloadUnavailable _ \<Rightarrow> (\<exists>missing. reason = PayloadUnavailable missing \<and>
                  bitvec_positions missing =
                    {i. minority vv \<le> reporters_power vv reasons (\<lambda>r. i \<in> set (reason_missing r))})
              | _ \<Rightarrow> reason = k))"

lemma aggregated_reason_spec:
  assumes "verifier_wf vv" "0 < total_voting_power vv" "distinct (map fst (tcv_timeout_reason votes))"
    and "\<forall>p \<in> set (tcv_timeout_reason votes). reason_wf (snd p)" "\<forall>m. set (order m) = set m"
  shows "\<exists>reason. aggregated_timeout_reason order vv votes = Some reason \<and> aggregate_of vv (tcv_timeout_reason votes) reason"
proof -
  let ?rs = "tcv_timeout_reason votes"
  have power: "voters_power vv Q ?rs = reporters_power vv ?rs Q" for Q
    using voters_power_total [OF assms(1,3)] by (simp add: reporters_power_def)
  have "voters_power vv Q ?rs < 2 ^ 128" for Q
    using voters_power_le_total [OF assms(1,3), of Q] unat_u128_less [of "total_voting_power vv"] by simp
  then obtain P M where PM: "tally_reasons vv ?rs [] [] = Some (P, M)"
    and P: "\<And>k. tally P k = reporters_power vv ?rs (\<lambda>r. reason_key vv r = k)" "distinct (map fst P)"
    and M: "\<And>i. tally M i = reporters_power vv ?rs (\<lambda>r. i \<in> set (reason_missing r))" "distinct (map fst M)"
    using tally_reasons_exact [of "[]" vv ?rs "[]"] power by auto
  have "i < 65536" if "(i, w) \<in> set M" for i w
  proof -
    have "i \<in> fst ` set M" using that by force
    then obtain a r where "(a, r) \<in> set ?rs" "i \<in> set (reason_missing r)"
      unfolding tally_reasons_keys [OF PM] by auto
    then show ?thesis using assms(4) reason_missing_bounded by fastforce
  qed
  then have "\<forall>(i, w) \<in> set M. i < 65536" by blast
  then obtain missing where missing: "aggregated_missing vv M (with_num_bits (word_of_nat (verifier_len vv))) = Some missing"
    "bitvec_positions missing = {i. \<exists>w. (i, w) \<in> set M \<and> minority vv \<le> unat w}"
    using aggregated_missing_positions [OF assms(1,2), of M "with_num_bits (word_of_nat (verifier_len vv))"] by auto
  have "(\<exists>w. (i, w) \<in> set M \<and> minority vv \<le> unat w) \<longleftrightarrow> minority vv \<le> tally M i" for i
    using tally_entry [OF M(2), of i] tally_positive [of M i] minority_positive [of vv] by (metis less_le_trans)
  then have missing_positions: "bitvec_positions missing =
      {i. minority vv \<le> reporters_power vv ?rs (\<lambda>r. i \<in> set (reason_missing r))}"
    by (simp add: missing(2) M(1))
  note greatest = greatest_tally [OF P(2), of order, OF assms(5) [rule_format], unfolded P(1)]
  show ?thesis
  proof (cases "max_by_power (order P)")
    case None
    then show ?thesis using greatest PM by (auto simp: aggregated_timeout_reason_def aggregate_of_def minority_positive)
  next
    case (Some kw)
    then show ?thesis
      using greatest PM missing(1) missing_positions unfolding aggregate_of_def ex_simps(5) [symmetric]
      by (intro exI [of _ "if minority vv \<le> unat (snd kw) then (case fst kw of PayloadUnavailable _ \<Rightarrow> PayloadUnavailable missing | k \<Rightarrow> k) else Unknown"]
           exI [of _ "fst kw"])
        (auto simp: aggregated_timeout_reason_def has_minority_iff [OF assms(1,2)] split: round_timeout_reason.splits)
  qed
qed

text \<open>C36. The aggregated reason of a timed out round is computed without overflow. It is the kind of
  reason with the most voting power behind it if at least a minority reported it, and unknown
  otherwise; when payloads were unavailable, the missing authors are exactly those that a minority of
  the voting power reported.\<close>

theorem aggregated_reason_is_reported:
  assumes "verifier_wf vv" "0 < total_voting_power vv" "distinct (map fst (tcv_timeout_reason votes))"
    and "\<forall>p \<in> set (tcv_timeout_reason votes). reason_wf (snd p)" "\<forall>m. set (order m) = set m"
  shows "\<exists>reason. aggregated_timeout_reason order vv votes = Some reason \<and> aggregate_of vv (tcv_timeout_reason votes) reason"
  by (rule aggregated_reason_spec [OF assms])

theorem aggregated_reason_is_reported_witness:
  "aggregated_timeout_reason (\<lambda>m. m) ex_verifier ex_reasons = Some NoQC"
proof -
  let ?power = "\<lambda>k. reporters_power ex_verifier (tcv_timeout_reason ex_reasons) (\<lambda>r. reason_key ex_verifier r = k)"
  obtain reason where reason: "aggregated_timeout_reason (\<lambda>m. m) ex_verifier ex_reasons = Some reason"
    "aggregate_of ex_verifier (tcv_timeout_reason ex_reasons) reason"
    using aggregated_reason_is_reported [OF ex_verifier_wf, of ex_reasons "\<lambda>m. m"] by (auto simp: ex_reasons_def)
  then obtain k where k: "\<forall>k'. ?power k' \<le> ?power k"
    "if ?power k < minority ex_verifier then reason = Unknown
     else case k of
       PayloadUnavailable _ \<Rightarrow> (\<exists>missing. reason = PayloadUnavailable missing \<and>
           bitvec_positions missing = {i. minority ex_verifier \<le>
             reporters_power ex_verifier (tcv_timeout_reason ex_reasons) (\<lambda>r. i \<in> set (reason_missing r))})
     | _ \<Rightarrow> reason = k"
    unfolding aggregate_of_def by blast
  have "2 \<le> ?power k" using k(1) [rule_format, of NoQC] by (simp add: ex_reporters)
  then have "k = NoQC" by (auto simp: ex_reporters split: if_splits)
  then show ?thesis using k(2) reason(1) by (simp add: ex_reporters minority_def)
qed

end
