(* ===== verification/Round_State.thy ===== *)
theory Round_State
  imports Timeout_Reasons
begin

text \<open>
  The round state machine of a validator (\<open>consensus/src/liveness/round_state.rs\<close>): it moves
  to a new round when it is shown a quorum or timeout certificate, collects the votes and timeouts of
  the current round only, and keeps one timer for it. The length of a round is a parameter, as it is
  a trait object in the code; so is the clock, whose reading is an argument of the operations that
  take it. \<open>None\<close> is a panic.
\<close>

section \<open>Time\<close>

text \<open>\<open>Duration\<close> counts nanoseconds, with seconds of 64 bits; its operators panic on overflow.\<close>

type_synonym duration = nat

definition DURATION_MAX :: duration where
  "DURATION_MAX = 2 ^ 64 * 10 ^ 9 - 1"

definition duration_add :: "duration \<Rightarrow> duration \<Rightarrow> duration option" where
  "duration_add a b = (if a + b \<le> DURATION_MAX then Some (a + b) else None)"

definition duration_mul :: "duration \<Rightarrow> u32 \<Rightarrow> duration option" where
  "duration_mul a n = (if a * unat n \<le> DURATION_MAX then Some (a * unat n) else None)"

text \<open>The tasks that the time service has not run yet, by the handle that aborts them.\<close>

record time_service =
  ts_next_handle :: nat
  ts_tasks :: "(nat \<times> duration \<times> round_t) list"

definition run_after :: "duration \<Rightarrow> round_t \<Rightarrow> time_service \<Rightarrow> nat \<times> time_service" where
  "run_after timeout message ts =
     (ts_next_handle ts,
      ts\<lparr>ts_next_handle := ts_next_handle ts + 1,
         ts_tasks := ts_tasks ts @ [(ts_next_handle ts, timeout, message)]\<rparr>)"

definition abort_task :: "nat \<Rightarrow> time_service \<Rightarrow> time_service" where
  "abort_task handle ts = ts\<lparr>ts_tasks := filter (\<lambda>(h, _). h \<noteq> handle) (ts_tasks ts)\<rparr>"

section \<open>The round state\<close>

datatype new_round_reason = QCReady | TimeoutReason round_timeout_reason

record new_round_event =
  nre_round :: round_t
  nre_reason :: new_round_reason
  nre_timeout :: duration
  nre_prev_round_votes :: "hash_value \<rightharpoonup> vote_status"
  nre_prev_round_timeout_votes :: "two_chain_timeout_with_partial_signatures option"

record round_state =
  rs_highest_ordered_round :: round_t
  rs_current_round :: round_t
  rs_current_round_deadline :: duration
  rs_time_service :: time_service
  rs_pending_votes :: pending_votes
  rs_vote_sent :: "vote option"
  rs_timeout_sent :: "round_timeout option"
  rs_abort_handle :: "nat option"

definition round_state_new :: "time_service \<Rightarrow> duration \<Rightarrow> round_state" where
  "round_state_new ts now =
     \<lparr>rs_highest_ordered_round = 0, rs_current_round = 0, rs_current_round_deadline = now,
      rs_time_service = ts, rs_pending_votes = pending_votes_new, rs_vote_sent = None,
      rs_timeout_sent = None, rs_abort_handle = None\<rparr>"

definition is_timeout_sent :: "round_state \<Rightarrow> bool" where
  "is_timeout_sent rs \<longleftrightarrow>
     (case rs_vote_sent rs of Some v \<Rightarrow> vote_is_timeout v | None \<Rightarrow> False) \<or> rs_timeout_sent rs \<noteq> None"

text \<open>The number of rounds since the one after which a round is expected to order a block.\<close>

definition round_index_after_ordered_round :: "round_state \<Rightarrow> u64 option" where
  "round_index_after_ordered_round rs =
     (if rs_highest_ordered_round rs = 0 then checked_sub (rs_current_round rs) 1
      else Option.bind (checked_add (rs_highest_ordered_round rs) 3) (\<lambda>bound.
           if rs_current_round rs < bound then Some 0
           else Option.bind (checked_sub (rs_current_round rs) (rs_highest_ordered_round rs)) (\<lambda>d.
                checked_sub d 3)))"

definition setup_deadline ::
    "(nat \<Rightarrow> duration) \<Rightarrow> duration \<Rightarrow> u32 \<Rightarrow> round_state \<Rightarrow> (duration \<times> round_state) option" where
  "setup_deadline get_round_duration now multiplier rs =
     Option.bind (round_index_after_ordered_round rs) (\<lambda>index.
     Option.bind (duration_mul (get_round_duration (unat index)) multiplier) (\<lambda>timeout.
     Option.bind (duration_add now timeout) (\<lambda>deadline.
     Some (timeout, rs\<lparr>rs_current_round_deadline := deadline\<rparr>))))"

definition setup_timeout ::
    "(nat \<Rightarrow> duration) \<Rightarrow> duration \<Rightarrow> u32 \<Rightarrow> round_state \<Rightarrow> (duration \<times> round_state) option" where
  "setup_timeout get_round_duration now multiplier rs =
     Option.bind (setup_deadline get_round_duration now multiplier rs) (\<lambda>(timeout, rs1).
     case run_after timeout (rs_current_round rs1) (rs_time_service rs1) of
       (abort_handle, ts1) \<Rightarrow>
         Some (timeout,
           rs1\<lparr>rs_abort_handle := Some abort_handle,
               rs_time_service :=
                 (case rs_abort_handle rs1 of Some handle \<Rightarrow> abort_task handle ts1 | None \<Rightarrow> ts1)\<rparr>))"

definition process_local_timeout ::
    "(nat \<Rightarrow> duration) \<Rightarrow> duration \<Rightarrow> round_t \<Rightarrow> round_state \<Rightarrow> (bool \<times> round_state) option" where
  "process_local_timeout get_round_duration now rnd rs =
     (if rnd \<noteq> rs_current_round rs then Some (False, rs)
      else map_option (\<lambda>(_, rs'). (True, rs')) (setup_timeout get_round_duration now 1 rs))"

text \<open>The state at the start of a round, before its timer is set.\<close>

definition start_round :: "round_t \<Rightarrow> round_state \<Rightarrow> round_state" where
  "start_round new_round rs =
     rs\<lparr>rs_current_round := new_round, rs_pending_votes := pending_votes_new,
        rs_vote_sent := None, rs_timeout_sent := None\<rparr>"

definition process_certificates ::
    "((round_timeout_reason, u128) hash_map \<Rightarrow> (round_timeout_reason \<times> u128) list) \<Rightarrow> (nat \<Rightarrow> duration) \<Rightarrow>
     duration \<Rightarrow> sync_info \<Rightarrow> validator_verifier \<Rightarrow> round_state \<Rightarrow> (new_round_event option \<times> round_state) option" where
  "process_certificates order get_round_duration now si vv rs =
     (let rs0 = (if highest_ordered_round si > rs_highest_ordered_round rs
                 then rs\<lparr>rs_highest_ordered_round := highest_ordered_round si\<rparr> else rs)
      in Option.bind (checked_add (highest_round si) 1) (\<lambda>new_round.
         if new_round > rs_current_round rs0
         then let ((prev_votes, prev_timeout_votes), _) = drain_votes (rs_pending_votes rs0)
              in Option.bind (setup_timeout get_round_duration now 1 (start_round new_round rs0)) (\<lambda>(timeout, rs1).
                 Option.bind (case prev_timeout_votes of
                                None \<Rightarrow> Some (None, None)
                              | Some votes \<Rightarrow> map_option (\<lambda>(tc, reason). (Some tc, Some reason))
                                                (unpack_aggregate order vv votes)) (\<lambda>(prev_tc, prev_reason).
                 Option.bind (checked_add (highest_certified_round si) 1) (\<lambda>after_certified.
                 Some (Some \<lparr>nre_round = rs_current_round rs1,
                             nre_reason =
                               (if after_certified = new_round then QCReady
                                else TimeoutReason (case prev_reason of Some r \<Rightarrow> r | None \<Rightarrow> Unknown)),
                             nre_timeout = timeout, nre_prev_round_votes = prev_votes,
                             nre_prev_round_timeout_votes = prev_tc\<rparr>, rs1))))
         else Some (None, rs0)))"

definition rs_insert_vote ::
    "crypto \<Rightarrow> (ledger_info \<Rightarrow> hash_value) \<Rightarrow> validator_verifier \<Rightarrow> vote \<Rightarrow> round_state \<times> verify_mode \<Rightarrow>
     vote_reception_result \<times> round_state \<times> verify_mode" where
  "rs_insert_vote cr li_hash vv v state =
     (case state of (rs, mode) \<Rightarrow>
        if bi_round (vd_proposed (v_vote_data v)) = rs_current_round rs
        then (case pv_insert_vote cr li_hash vv v (rs_pending_votes rs, mode) of
                (result, pv, mode') \<Rightarrow> (result, rs\<lparr>rs_pending_votes := pv\<rparr>, mode'))
        else (UnexpectedRound (bi_round (vd_proposed (v_vote_data v))) (rs_current_round rs), rs, mode))"

definition rs_insert_round_timeout ::
    "crypto \<Rightarrow> validator_verifier \<Rightarrow> round_timeout \<Rightarrow> round_state \<Rightarrow> vote_reception_result \<times> round_state" where
  "rs_insert_round_timeout cr vv rt rs =
     (if tct_round (rt_timeout rt) = rs_current_round rs
      then (case pv_insert_round_timeout cr vv rt (rs_pending_votes rs) of
              (result, pv) \<Rightarrow> (result, rs\<lparr>rs_pending_votes := pv\<rparr>))
      else (UnexpectedRound (tct_round (rt_timeout rt)) (rs_current_round rs), rs))"

definition record_vote :: "vote \<Rightarrow> round_state \<Rightarrow> round_state" where
  "record_vote v rs =
     (if bi_round (vd_proposed (v_vote_data v)) = rs_current_round rs then rs\<lparr>rs_vote_sent := Some v\<rparr> else rs)"

definition record_round_timeout :: "round_timeout \<Rightarrow> round_state \<Rightarrow> round_state" where
  "record_round_timeout rt rs =
     (if tct_round (rt_timeout rt) = rs_current_round rs then rs\<lparr>rs_timeout_sent := Some rt\<rparr> else rs)"

section \<open>Runs\<close>

datatype rs_event =
    Certificates sync_info duration
  | LocalTimeout round_t duration
  | ReceiveVote vote
  | ReceiveTimeout round_timeout
  | RecordVote vote
  | RecordTimeout round_timeout
  | TaskRuns nat

text \<open>What the environment of a round state is made of.\<close>

record rs_env =
  re_crypto :: crypto
  re_li_hash :: "ledger_info \<Rightarrow> hash_value"
  re_verifier :: validator_verifier
  re_order :: "(round_timeout_reason, u128) hash_map \<Rightarrow> (round_timeout_reason \<times> u128) list"
  re_round_duration :: "nat \<Rightarrow> duration"

text \<open>The results of the collection that stand for a panic: an underflow, an overflow or a failed assertion.\<close>

fun reception_panics :: "vote_reception_result \<Rightarrow> bool" where
  "reception_panics (ErrorAddingVote e) \<longleftrightarrow> e = VerifyPanic"
| "reception_panics (ErrorAggregatingSignature e) \<longleftrightarrow> e = VerifyPanic"
| "reception_panics (ErrorAggregatingTimeoutCertificate e) \<longleftrightarrow> e = VerifyPanic"
| "reception_panics result \<longleftrightarrow> False"

fun rs_exec ::
    "rs_env \<Rightarrow> rs_event \<Rightarrow> round_state \<times> verify_mode \<Rightarrow> (new_round_event option \<times> round_state \<times> verify_mode) option" where
  "rs_exec env (Certificates si now) (rs, mode) =
     map_option (\<lambda>(ev, rs'). (ev, rs', mode))
       (process_certificates (re_order env) (re_round_duration env) now si (re_verifier env) rs)"
| "rs_exec env (LocalTimeout rnd now) (rs, mode) =
     map_option (\<lambda>(_, rs'). (None, rs', mode)) (process_local_timeout (re_round_duration env) now rnd rs)"
| "rs_exec env (ReceiveVote v) (rs, mode) =
     (case rs_insert_vote (re_crypto env) (re_li_hash env) (re_verifier env) v (rs, mode) of
        (result, state') \<Rightarrow> if reception_panics result then None else Some (None, state'))"
| "rs_exec env (ReceiveTimeout rt) (rs, mode) =
     (case rs_insert_round_timeout (re_crypto env) (re_verifier env) rt rs of
        (result, rs') \<Rightarrow> if reception_panics result then None else Some (None, rs', mode))"
| "rs_exec env (RecordVote v) (rs, mode) = Some (None, record_vote v rs, mode)"
| "rs_exec env (RecordTimeout rt) (rs, mode) = Some (None, record_round_timeout rt rs, mode)"
| "rs_exec env (TaskRuns handle) (rs, mode) =
     Some (None, rs\<lparr>rs_time_service := abort_task handle (rs_time_service rs)\<rparr>, mode)"

fun rs_run ::
    "rs_env \<Rightarrow> rs_event list \<Rightarrow> round_state \<times> verify_mode \<Rightarrow> (new_round_event list \<times> round_state \<times> verify_mode) option" where
  "rs_run env [] state = Some ([], state)"
| "rs_run env (e # es) state =
     Option.bind (rs_exec env e state) (\<lambda>(ev, state').
     map_option (\<lambda>(evs, state''). ((case ev of Some x \<Rightarrow> x # evs | None \<Rightarrow> evs), state''))
       (rs_run env es state'))"

section \<open>Timers\<close>

lemma setup_timeout_fields:
  assumes "setup_timeout d now m rs = Some (timeout, rs')"
  shows "rs_current_round rs' = rs_current_round rs" "rs_highest_ordered_round rs' = rs_highest_ordered_round rs"
    "rs_pending_votes rs' = rs_pending_votes rs" "rs_vote_sent rs' = rs_vote_sent rs" "rs_timeout_sent rs' = rs_timeout_sent rs"
    "rs_current_round_deadline rs' = now + timeout" "rs_abort_handle rs' = Some (ts_next_handle (rs_time_service rs))"
    "ts_next_handle (rs_time_service rs') = ts_next_handle (rs_time_service rs) + 1"
    "ts_tasks (rs_time_service rs') = filter (\<lambda>(h, _). Some h \<noteq> rs_abort_handle rs)
       (ts_tasks (rs_time_service rs) @ [(ts_next_handle (rs_time_service rs), timeout, rs_current_round rs)])"
proof -
  obtain rs1 where rs1: "setup_deadline d now m rs = Some (timeout, rs1)"
    using assms by (auto simp: setup_timeout_def run_after_def bind_eq_Some_conv)
  then have "rs1 = rs\<lparr>rs_current_round_deadline := now + timeout\<rparr>"
    by (auto simp: setup_deadline_def bind_eq_Some_conv duration_add_def split: if_splits)
  moreover have "filter (\<lambda>(h, _). True) xs = xs" for xs :: "(nat \<times> duration \<times> round_t) list"
    by (simp add: filter_id_conv)
  ultimately show "rs_current_round rs' = rs_current_round rs" "rs_highest_ordered_round rs' = rs_highest_ordered_round rs"
    "rs_pending_votes rs' = rs_pending_votes rs" "rs_vote_sent rs' = rs_vote_sent rs" "rs_timeout_sent rs' = rs_timeout_sent rs"
    "rs_current_round_deadline rs' = now + timeout" "rs_abort_handle rs' = Some (ts_next_handle (rs_time_service rs))"
    "ts_next_handle (rs_time_service rs') = ts_next_handle (rs_time_service rs) + 1"
    "ts_tasks (rs_time_service rs') = filter (\<lambda>(h, _). Some h \<noteq> rs_abort_handle rs)
       (ts_tasks (rs_time_service rs) @ [(ts_next_handle (rs_time_service rs), timeout, rs_current_round rs)])"
    using assms rs1 by (cases "rs_abort_handle rs"; auto simp: setup_timeout_def run_after_def abort_task_def)+
qed

text \<open>
  The state is about the current round only: the one timer there can be, the vote and the timeout
  sent, and the votes collected.
\<close>

definition timers_current :: "round_state \<Rightarrow> bool" where
  "timers_current rs \<longleftrightarrow>
     length (ts_tasks (rs_time_service rs)) \<le> 1 \<and>
     (\<forall>t \<in> set (ts_tasks (rs_time_service rs)). rs_abort_handle rs = Some (fst t) \<and> snd (snd t) = rs_current_round rs) \<and>
     (\<forall>h. rs_abort_handle rs = Some h \<longrightarrow> h < ts_next_handle (rs_time_service rs))"

definition votes_current :: "round_state \<Rightarrow> bool" where
  "votes_current rs \<longleftrightarrow>
     (\<forall>v. rs_vote_sent rs = Some v \<longrightarrow> bi_round (vd_proposed (v_vote_data v)) = rs_current_round rs) \<and>
     (\<forall>rt. rs_timeout_sent rs = Some rt \<longrightarrow> tct_round (rt_timeout rt) = rs_current_round rs) \<and>
     (\<forall>a w. hm_get (pv_author_to_vote (rs_pending_votes rs)) a = Some w \<longrightarrow>
        bi_round (vd_proposed (v_vote_data (fst w))) = rs_current_round rs)"

lemma setup_timeout_timers:
  assumes "setup_timeout d now m rs = Some (timeout, rs')"
    and "length (ts_tasks (rs_time_service rs)) \<le> 1"
    and "\<forall>t \<in> set (ts_tasks (rs_time_service rs)). rs_abort_handle rs = Some (fst t)"
    and "\<forall>h. rs_abort_handle rs = Some h \<longrightarrow> h < ts_next_handle (rs_time_service rs)"
  shows "timers_current rs'" "ts_tasks (rs_time_service rs') = [(ts_next_handle (rs_time_service rs), timeout, rs_current_round rs)]"
proof -
  have "filter (\<lambda>(h, _). Some h \<noteq> rs_abort_handle rs) (ts_tasks (rs_time_service rs)) = []"
    using assms(3) by (fastforce simp: filter_empty_conv)
  moreover have "Some (ts_next_handle (rs_time_service rs)) \<noteq> rs_abort_handle rs"
    using assms(4) by (metis less_irrefl)
  ultimately show "ts_tasks (rs_time_service rs') = [(ts_next_handle (rs_time_service rs), timeout, rs_current_round rs)]"
    using setup_timeout_fields(9) [OF assms(1)] by simp
  then show "timers_current rs'" using setup_timeout_fields [OF assms(1)] by (simp add: timers_current_def)
qed

definition learn_ordered :: "round_t \<Rightarrow> round_state \<Rightarrow> round_state" where
  "learn_ordered r rs = rs\<lparr>rs_highest_ordered_round := max r (rs_highest_ordered_round rs)\<rparr>"

lemma learn_ordered_simps [simp]:
  "rs_current_round (learn_ordered r rs) = rs_current_round rs" "rs_pending_votes (learn_ordered r rs) = rs_pending_votes rs"
  "rs_time_service (learn_ordered r rs) = rs_time_service rs" "rs_vote_sent (learn_ordered r rs) = rs_vote_sent rs"
  "rs_timeout_sent (learn_ordered r rs) = rs_timeout_sent rs" "rs_abort_handle (learn_ordered r rs) = rs_abort_handle rs"
  "rs_highest_ordered_round (learn_ordered r rs) = max r (rs_highest_ordered_round rs)"
  by (simp_all add: learn_ordered_def)

lemma start_round_simps [simp]:
  "rs_current_round (start_round r rs) = r" "rs_pending_votes (start_round r rs) = pending_votes_new"
  "rs_time_service (start_round r rs) = rs_time_service rs" "rs_vote_sent (start_round r rs) = None"
  "rs_timeout_sent (start_round r rs) = None" "rs_abort_handle (start_round r rs) = rs_abort_handle rs"
  "rs_highest_ordered_round (start_round r rs) = rs_highest_ordered_round rs"
  by (simp_all add: start_round_def)

lemma learn_ordered_if:
  "(if r > rs_highest_ordered_round rs then rs\<lparr>rs_highest_ordered_round := r\<rparr> else rs) = learn_ordered r rs"
  by (simp add: learn_ordered_def max_def not_less)

lemma process_certificates_cases:
  assumes "process_certificates order d now si vv rs = Some (ev, rs')"
  obtains (stay) "unat (highest_round si) + 1 \<le> unat (rs_current_round rs)" "ev = None"
      "rs' = learn_ordered (highest_ordered_round si) rs"
  | (move) e where "unat (rs_current_round rs) < unat (highest_round si) + 1" "ev = Some e"
      "nre_round e = highest_round si + 1" "unat (nre_round e) = unat (highest_round si) + 1"
      "nre_reason e = QCReady \<longleftrightarrow> highest_certified_round si = highest_round si"
      "setup_timeout d now 1 (start_round (nre_round e) (learn_ordered (highest_ordered_round si) rs)) = Some (nre_timeout e, rs')"
proof -
  note run = assms(1) [unfolded process_certificates_def Let_def learn_ordered_if]
  obtain nr where nr: "checked_add (highest_round si) 1 = Some nr" using run by (auto simp: bind_eq_Some_conv)
  note n = checked_add_Some_unat [OF nr, simplified]
  show thesis
  proof (cases "nr > rs_current_round rs")
    case False
    then show thesis using run nr n by (intro stay) (auto simp: word_less_nat_alt)
  next
    case True
    then obtain timeout after where r: "setup_timeout d now 1 (start_round nr (learn_ordered (highest_ordered_round si) rs)) = Some (timeout, rs')"
      "checked_add (highest_certified_round si) 1 = Some after"
      "\<exists>e. ev = Some e \<and> nre_round e = rs_current_round rs' \<and> (nre_reason e = QCReady \<longleftrightarrow> after = nr) \<and> nre_timeout e = timeout"
      using run nr by (auto simp: bind_eq_Some_conv split: prod.splits)
    have "after = nr \<longleftrightarrow> highest_certified_round si = highest_round si"
      using nr r(2) by (auto simp: checked_add_Some_iff)
    then show thesis
      using move r n True nr setup_timeout_fields(1) [OF r(1)]
      by (auto simp: word_less_nat_alt checked_add_Some_iff)
  qed
qed

section \<open>Invariants of a step\<close>

lemma insert_vote_authors:
  assumes "pv_insert_vote cr li_hash vv v (pv, mode) = (r, pv', mode')"
  shows "pv_author_to_vote pv' = pv_author_to_vote pv \<or>
    pv_author_to_vote pv' = hm_insert (v_author v) (v, li_hash (v_ledger_info v)) (pv_author_to_vote pv)"
proof (cases "previously_seen (li_hash (v_ledger_info v)) v pv")
  case None
  then have "count_vote cr (li_hash (v_ledger_info v)) vv v pv mode = (r, pv', mode')"
    using assms by (simp add: pv_insert_vote_def)
  then show ?thesis by (rule count_vote_cases) simp_all
next
  case (Some a)
  then show ?thesis using assms by (simp add: pv_insert_vote_def)
qed

lemma votes_current_vote:
  assumes "rs_insert_vote cr li_hash vv v (rs, mode) = (r, rs', mode')" "votes_current rs"
  shows "votes_current rs'"
proof (cases "bi_round (vd_proposed (v_vote_data v)) = rs_current_round rs")
  case True
  then obtain pv where pv: "pv_insert_vote cr li_hash vv v (rs_pending_votes rs, mode) = (r, pv, mode')"
    "rs' = rs\<lparr>rs_pending_votes := pv\<rparr>"
    using assms(1) by (auto simp: rs_insert_vote_def split: prod.splits)
  have "bi_round (vd_proposed (v_vote_data (fst w))) = rs_current_round rs"
    if "hm_get (pv_author_to_vote pv) a = Some w" for a w
    using insert_vote_authors [OF pv(1)] True that
      assms(2) [unfolded votes_current_def, THEN conjunct2, THEN conjunct2, rule_format, of a w]
    by (auto simp: hm_get_insert split: if_splits)
  then show ?thesis using assms(2) pv(2) by (simp add: votes_current_def)
next
  case False
  then show ?thesis using assms by (simp add: rs_insert_vote_def)
qed

lemma votes_current_timeout:
  assumes "rs_insert_round_timeout cr vv rt rs = (r, rs')" "votes_current rs"
  shows "votes_current rs'"
  using assms insert_round_timeout_frame(2)
  by (fastforce simp: rs_insert_round_timeout_def votes_current_def split: if_splits prod.splits)

text \<open>Inserting a vote or a timeout touches the pending votes only.\<close>

lemma insert_frame:
  "\<exists>pv. fst (snd (rs_insert_vote cr li_hash vv v (rs, mode))) = rs\<lparr>rs_pending_votes := pv\<rparr>"
  "\<exists>pv. snd (rs_insert_round_timeout cr vv rt rs) = rs\<lparr>rs_pending_votes := pv\<rparr>"
proof -
  have "\<exists>pv. rs = rs\<lparr>rs_pending_votes := pv\<rparr>" by (rule exI [of _ "rs_pending_votes rs"]) simp
  then show "\<exists>pv. fst (snd (rs_insert_vote cr li_hash vv v (rs, mode))) = rs\<lparr>rs_pending_votes := pv\<rparr>"
    "\<exists>pv. snd (rs_insert_round_timeout cr vv rt rs) = rs\<lparr>rs_pending_votes := pv\<rparr>"
    by (auto simp: rs_insert_vote_def rs_insert_round_timeout_def split: prod.splits)
qed

lemma timers_current_update [simp]:
  "timers_current (rs\<lparr>rs_pending_votes := pv\<rparr>) = timers_current rs"
  "timers_current (rs\<lparr>rs_vote_sent := vs\<rparr>) = timers_current rs"
  "timers_current (rs\<lparr>rs_timeout_sent := t\<rparr>) = timers_current rs"
  "timers_current (learn_ordered r rs) = timers_current rs"
  by (simp_all add: timers_current_def)

lemma votes_current_update [simp]:
  "votes_current (rs\<lparr>rs_time_service := ts\<rparr>) = votes_current rs"
  "votes_current (learn_ordered r rs) = votes_current rs"
  by (simp_all add: votes_current_def)

lemma record_keeps_current:
  "votes_current rs \<Longrightarrow> votes_current (record_vote v rs)" "timers_current rs \<Longrightarrow> timers_current (record_vote v rs)"
  "votes_current rs \<Longrightarrow> votes_current (record_round_timeout rt rs)"
  "timers_current rs \<Longrightarrow> timers_current (record_round_timeout rt rs)"
  by (simp_all add: votes_current_def timers_current_def record_vote_def record_round_timeout_def)

lemma timers_current_abort:
  "timers_current rs \<Longrightarrow> timers_current (rs\<lparr>rs_time_service := abort_task h (rs_time_service rs)\<rparr>)"
  by (auto simp: timers_current_def abort_task_def intro: order_trans [OF length_filter_le])

lemma step_keeps_current:
  assumes "rs_exec env e (rs, mode) = Some (ev, rs', mode')" "timers_current rs" "votes_current rs"
  shows "timers_current rs' \<and> votes_current rs'"
proof (cases e)
  case (Certificates si now)
  then have "process_certificates (re_order env) (re_round_duration env) now si (re_verifier env) rs = Some (ev, rs')"
    using assms(1) by auto
  then show ?thesis
  proof (cases rule: process_certificates_cases)
    case stay
    then show ?thesis using assms(2,3) by simp
  next
    case (move x)
    note fields = setup_timeout_fields [OF move(6)]
    have "timers_current rs'"
      by (rule setup_timeout_timers(1) [OF move(6)]) (use assms(2) in \<open>simp_all add: timers_current_def\<close>)
    then show ?thesis using fields by (simp add: votes_current_def pending_votes_new_def hm_get_def)
  qed
next
  case (LocalTimeout r now)
  then obtain b where "process_local_timeout (re_round_duration env) now r rs = Some (b, rs')" using assms(1) by auto
  then consider "rs' = rs" | timeout where "setup_timeout (re_round_duration env) now 1 rs = Some (timeout, rs')"
    by (auto simp: process_local_timeout_def split: if_splits)
  then show ?thesis
  proof cases
    case 2
    have "timers_current rs'"
      by (rule setup_timeout_timers(1) [OF 2]) (use assms(2) in \<open>simp_all add: timers_current_def\<close>)
    then show ?thesis using setup_timeout_fields [OF 2] assms(3) by (simp add: votes_current_def)
  qed (use assms in simp)
next
  case (ReceiveVote v)
  then obtain r where "rs_insert_vote (re_crypto env) (re_li_hash env) (re_verifier env) v (rs, mode) = (r, rs', mode')"
    using assms(1) by (auto split: prod.splits if_splits)
  then show ?thesis
    using votes_current_vote assms(2,3) insert_frame(1) [of "re_crypto env" "re_li_hash env" "re_verifier env" v rs mode] by auto
next
  case (ReceiveTimeout rt)
  then obtain r where "rs_insert_round_timeout (re_crypto env) (re_verifier env) rt rs = (r, rs')"
    using assms(1) by (auto split: prod.splits if_splits)
  then show ?thesis
    using votes_current_timeout assms(2,3) insert_frame(2) [of "re_crypto env" "re_verifier env" rt rs] by auto
qed (use assms timers_current_abort in \<open>auto simp: record_keeps_current\<close>)

text \<open>How a step moves the round.\<close>

lemma step_round:
  assumes "rs_exec env e (rs, mode) = Some (ev, rs', mode')"
  obtains (same) "ev = None" "rs_current_round rs' = rs_current_round rs"
      "\<forall>si now. e = Certificates si now \<longrightarrow> unat (highest_round si) + 1 \<le> unat (rs_current_round rs)"
  | (advance) si now x where "e = Certificates si now" "ev = Some x" "rs_current_round rs' = nre_round x"
      "unat (nre_round x) = unat (highest_round si) + 1" "rs_current_round rs < nre_round x"
      "nre_round x = highest_round si + 1"
      "nre_reason x = QCReady \<longleftrightarrow> highest_certified_round si = highest_round si"
proof (cases e)
  case (Certificates si now)
  then have "process_certificates (re_order env) (re_round_duration env) now si (re_verifier env) rs = Some (ev, rs')"
    using assms(1) by auto
  then show thesis
  proof (cases rule: process_certificates_cases)
    case stay
    then show thesis using same Certificates by simp
  next
    case (move x)
    then show thesis using advance [OF Certificates, of x] setup_timeout_fields(1) [OF move(6)] by (simp add: word_less_nat_alt)
  qed
next
  case (LocalTimeout r now)
  then show thesis
    using assms same by (auto simp: process_local_timeout_def dest: setup_timeout_fields(1) split: if_splits)
next
  case (ReceiveVote v)
  then show thesis
    using assms same insert_frame(1) [of "re_crypto env" "re_li_hash env" "re_verifier env" v rs mode]
    by (auto split: prod.splits if_splits)
next
  case (ReceiveTimeout rt)
  then show thesis
    using assms same insert_frame(2) [of "re_crypto env" "re_verifier env" rt rs]
    by (auto split: prod.splits if_splits)
qed (use assms same in \<open>auto simp: record_vote_def record_round_timeout_def split: if_splits\<close>)

section \<open>Rounds only grow\<close>

definition certificate_rounds :: "rs_event list \<Rightarrow> nat set" where
  "certificate_rounds es = {unat (highest_round si) + 1 | si now. Certificates si now \<in> set es}"

definition caused_by_certificate :: "rs_event list \<Rightarrow> new_round_event \<Rightarrow> bool" where
  "caused_by_certificate es x \<longleftrightarrow>
     (\<exists>si now. Certificates si now \<in> set es \<and> nre_round x = highest_round si + 1 \<and>
        (nre_reason x = QCReady \<longleftrightarrow> highest_certified_round si = highest_round si))"

lemma caused_by_certificate_Cons: "caused_by_certificate es x \<Longrightarrow> caused_by_certificate (e # es) x"
  by (auto simp: caused_by_certificate_def)

lemma finite_certificate_rounds [simp]: "finite (certificate_rounds es)"
proof -
  have "certificate_rounds es \<subseteq> (\<lambda>e. case e of Certificates si _ \<Rightarrow> unat (highest_round si) + 1 | _ \<Rightarrow> 0) ` set es"
    by (force simp: certificate_rounds_def)
  then show ?thesis by (rule finite_subset) simp
qed

lemma certificate_rounds_Cons:
  "certificate_rounds (Certificates si now # es) = insert (unat (highest_round si) + 1) (certificate_rounds es)"
  "(\<forall>si now. e \<noteq> Certificates si now) \<Longrightarrow> certificate_rounds (e # es) = certificate_rounds es"
  by (auto simp: certificate_rounds_def)

lemma Max_insert_below: "finite A \<Longrightarrow> b \<le> a \<Longrightarrow> Max (insert b (insert a A)) = Max (insert a A)" for a :: nat
  by (subst Max_insert) (auto intro!: max_absorb2 intro: order_trans [OF _ Max_ge])

lemma run_rounds:
  assumes "rs_run env es (rs, mode) = Some (evs, rs', mode')"
  shows "sorted_wrt (<) (rs_current_round rs # map nre_round evs) \<and>
    rs_current_round rs' = last (rs_current_round rs # map nre_round evs) \<and>
    unat (rs_current_round rs') = Max (insert (unat (rs_current_round rs)) (certificate_rounds es)) \<and>
    (\<forall>x \<in> set evs. caused_by_certificate es x)"
  using assms
proof (induction es arbitrary: rs mode evs)
  case Nil
  then show ?case by (simp add: certificate_rounds_def)
next
  case (Cons e es)
  then obtain ev rs1 mode1 evs1 where step: "rs_exec env e (rs, mode) = Some (ev, rs1, mode1)"
    and run: "rs_run env es (rs1, mode1) = Some (evs1, rs', mode')"
    and evs: "evs = (case ev of Some x \<Rightarrow> x # evs1 | None \<Rightarrow> evs1)"
    by (auto simp: bind_eq_Some_conv)
  note IH = Cons.IH [OF run]
  from step show ?case
  proof (cases rule: step_round)
    case same
    have "Max (insert (unat (rs_current_round rs)) (certificate_rounds (e # es))) =
      Max (insert (unat (rs_current_round rs)) (certificate_rounds es))"
    proof (cases "\<exists>si now. e = Certificates si now")
      case True
      then obtain si now where e: "e = Certificates si now" by blast
      have "insert (unat (rs_current_round rs)) (certificate_rounds (e # es)) =
        insert (unat (highest_round si) + 1) (insert (unat (rs_current_round rs)) (certificate_rounds es))"
        unfolding e certificate_rounds_Cons by (rule insert_commute)
      then show ?thesis using Max_insert_below [OF finite_certificate_rounds] same(3) e by metis
    next
      case False
      then show ?thesis by (simp add: certificate_rounds_Cons(2))
    qed
    then show ?thesis using IH same(1,2) evs by (auto intro: caused_by_certificate_Cons)
  next
    case (advance si now x)
    have "unat (rs_current_round rs) < unat (highest_round si) + 1" using advance by (simp add: word_less_nat_alt)
    then have "Max (insert (unat (rs_current_round rs)) (certificate_rounds (e # es))) =
      Max (insert (unat (nre_round x)) (certificate_rounds es))"
      using advance Max_insert_below [OF finite_certificate_rounds] by (simp add: certificate_rounds_Cons)
    moreover have "caused_by_certificate (e # es) x" using advance by (auto simp: caused_by_certificate_def)
    ultimately show ?thesis
      using IH advance(2,3,5) evs by (auto intro: caused_by_certificate_Cons less_trans)
  qed
qed

lemma run_keeps_current:
  assumes "rs_run env es (rs, mode) = Some (evs, rs', mode')" "timers_current rs" "votes_current rs"
  shows "timers_current rs' \<and> votes_current rs'"
  using assms
proof (induction es arbitrary: rs mode evs)
  case (Cons e es)
  then obtain ev rs1 mode1 evs1 where step: "rs_exec env e (rs, mode) = Some (ev, rs1, mode1)"
    and run: "rs_run env es (rs1, mode1) = Some (evs1, rs', mode')"
    by (auto simp: bind_eq_Some_conv)
  then show ?case using Cons.IH [OF run] step_keeps_current [OF step Cons.prems(2,3)] by blast
qed simp

section \<open>No panic\<close>

text \<open>The reasons collected are one per author, with well-formed sets of missing authors.\<close>

definition reasons_ok :: "pending_votes \<Rightarrow> bool" where
  "reasons_ok pv \<longleftrightarrow>
     (\<forall>votes. pv_maybe_2chain_timeout_votes pv = Some votes \<longrightarrow>
        distinct (map fst (tcv_timeout_reason votes)) \<and> (\<forall>p \<in> set (tcv_timeout_reason votes). reason_wf (snd p)))"

lemma reasons_ok_new [simp]: "reasons_ok pending_votes_new"
  by (simp add: reasons_ok_def pending_votes_new_def)

lemma reasons_ok_cong: "pv_maybe_2chain_timeout_votes pv' = pv_maybe_2chain_timeout_votes pv \<Longrightarrow> reasons_ok pv' = reasons_ok pv"
  by (simp add: reasons_ok_def)




text \<open>
  The aggregators that collect votes and the timeouts have one signature of each voter. Then no
  sum of voting powers overflows and no assertion of the collection fails.
\<close>

definition collection_wf :: "pending_votes \<Rightarrow> bool" where
  "collection_wf pv \<longleftrightarrow>
     (\<forall>d sa. status_of pv d = Some (NotEnoughVotes sa) \<longrightarrow> sa_wf sa) \<and>
     (\<forall>p. timeouts_of pv = Some p \<longrightarrow> btree_wf (pswr_signatures (ptc_signatures p)))"

lemma collection_wf_new [simp]: "collection_wf pending_votes_new"
  by (simp add: collection_wf_def pending_votes_new_def status_of_def timeouts_of_def hm_get_def)

















section \<open>A concrete round\<close>

text \<open>The certificate of round 1 starts round 2; its timer expires once.\<close>

definition ex_sync_info :: sync_info where
  "ex_sync_info = sync_info_new ex_qc (into_wrapped_ledger_info ex_genesis_qc) None"

definition ex_round_env :: rs_env where
  "ex_round_env =
     \<lparr>re_crypto = ex_crypto, re_li_hash = (\<lambda>_. 7), re_verifier = ex_verifier, re_order = (\<lambda>m. m),
      re_round_duration = (\<lambda>_. 1000)\<rparr>"

definition ex_time_service :: time_service where
  "ex_time_service = \<lparr>ts_next_handle = 0, ts_tasks = []\<rparr>"

definition ex_round_events :: "rs_event list" where
  "ex_round_events = [Certificates ex_sync_info 5, LocalTimeout 2 2000, Certificates ex_sync_info 2500]"



lemma replicate_4: "replicate 4 x = [x, x, x, x]"
  by (simp add: eval_nat_numeral)

lemma placeholder_hash_ne: "ACCUMULATOR_PLACEHOLDER_HASH \<noteq> 8" "8 \<noteq> ACCUMULATOR_PLACEHOLDER_HASH"
  by (simp_all add: ACCUMULATOR_PLACEHOLDER_HASH_def create_literal_hash_def of_char_def replicate_4)

lemma ex_sync_info_rounds [simp]:
  "highest_round ex_sync_info = 1" "highest_certified_round ex_sync_info = 1" "highest_ordered_round ex_sync_info = 0"
  "sync_info_verify_structure ex_sync_info = Inr ()"
  by (simp_all add: ex_sync_info_def sync_info_new_def sync_info_new_decoupled_def sync_info_verify_structure_def result_simps
      highest_round_def highest_certified_round_def highest_ordered_round_def highest_ordered_cert_def highest_commit_round_def
      si_highest_timeout_round_def certified_block_def ex_qc_def ex_vote_data_def ex_block_info_def ex_genesis_qc_def
      ex_genesis_info_def quorum_cert_new_def vote_data_new_def block_info_new_def into_wrapped_ledger_info_def
      wrapped_ledger_info_new_def wli_commit_info_def lis_new_def ledger_info_new_def block_info_empty_def is_ordered_only_def
      placeholder_hash_ne)

lemma ex_round_run:
  "\<exists>x rs mode. rs_run ex_round_env ex_round_events (round_state_new ex_time_service 0, ex_optimistic) = Some ([x], rs, mode) \<and>
     nre_round x = 2 \<and> rs_current_round rs = 2"
  by (simp add: ex_round_events_def ex_round_env_def round_state_new_def process_certificates_def process_local_timeout_def
      setup_timeout_def setup_deadline_def round_index_after_ordered_round_def checked_add_def checked_sub_def
      duration_mul_def duration_add_def DURATION_MAX_def run_after_def abort_task_def ex_time_service_def start_round_def
      drain_votes_def pending_votes_new_def)

section \<open>Properties\<close>

text \<open>C37. The events with which a round state announces new rounds have strictly increasing rounds,
  whatever it is given: certificates, votes, timeouts, expired timers. The current round is always one
  more than the greatest round for which it has seen a quorum or timeout certificate, and an event
  names the quorum certificate as its reason exactly when that certificate is the one of the highest
  round.\<close>

theorem new_rounds_increase:
  assumes "rs_run env es (round_state_new ts now, mode) = Some (evs, rs, mode')"
  shows "sorted_wrt (<) (map nre_round evs) \<and>
    unat (rs_current_round rs) = Max (insert 0 (certificate_rounds es)) \<and>
    (evs \<noteq> [] \<longrightarrow> rs_current_round rs = last (map nre_round evs)) \<and>
    (\<forall>x \<in> set evs. caused_by_certificate es x)"
  using run_rounds [OF assms] by (auto simp: round_state_new_def)

theorem new_rounds_increase_witness:
  "\<exists>x rs mode. rs_run ex_round_env ex_round_events (round_state_new ex_time_service 0, ex_optimistic) = Some ([x], rs, mode) \<and>
     unat (rs_current_round rs) = Max (insert 0 (certificate_rounds ex_round_events)) \<and> caused_by_certificate ex_round_events x"
proof -
  obtain x rs mode where "rs_run ex_round_env ex_round_events (round_state_new ex_time_service 0, ex_optimistic) = Some ([x], rs, mode)"
    using ex_round_run by blast
  then show ?thesis using new_rounds_increase [of ex_round_env ex_round_events ex_time_service 0 ex_optimistic "[x]" rs mode] by auto
qed

text \<open>C38. What a round state keeps is about the current round only. At most one timer is pending, it is
  for the current round and the state holds the handle to abort it; the vote and the timeout recorded
  as sent, and every vote collected, are of the current round.\<close>

theorem only_current_round_is_kept:
  assumes "rs_run env es (round_state_new ts now, mode) = Some (evs, rs, mode')" "ts_tasks ts = []"
  shows "length (ts_tasks (rs_time_service rs)) \<le> 1 \<and>
    (\<forall>t \<in> set (ts_tasks (rs_time_service rs)). rs_abort_handle rs = Some (fst t) \<and> snd (snd t) = rs_current_round rs) \<and>
    (\<forall>v. rs_vote_sent rs = Some v \<longrightarrow> bi_round (vd_proposed (v_vote_data v)) = rs_current_round rs) \<and>
    (\<forall>rt. rs_timeout_sent rs = Some rt \<longrightarrow> tct_round (rt_timeout rt) = rs_current_round rs) \<and>
    (\<forall>a w. hm_get (pv_author_to_vote (rs_pending_votes rs)) a = Some w \<longrightarrow>
       bi_round (vd_proposed (v_vote_data (fst w))) = rs_current_round rs)"
proof -
  have "timers_current (round_state_new ts now)" "votes_current (round_state_new ts now)"
    using assms(2) by (simp_all add: timers_current_def votes_current_def round_state_new_def pending_votes_new_def hm_get_def)
  then show ?thesis
    using run_keeps_current [OF assms(1)] unfolding timers_current_def votes_current_def by blast
qed

theorem only_current_round_is_kept_witness:
  "\<exists>x rs mode. rs_run ex_round_env ex_round_events (round_state_new ex_time_service 0, ex_optimistic) = Some ([x], rs, mode) \<and>
     length (ts_tasks (rs_time_service rs)) \<le> 1"
proof -
  obtain x rs mode where run: "rs_run ex_round_env ex_round_events (round_state_new ex_time_service 0, ex_optimistic) = Some ([x], rs, mode)"
    using ex_round_run by blast
  have "ts_tasks ex_time_service = []" by (simp add: ex_time_service_def)
  then show ?thesis using only_current_round_is_kept [OF run] run by blast
qed



end
