(* ===== verification/Block_Tree.thy ===== *)
theory Block_Tree
  imports Blocks
begin

text \<open>
  The in-memory tree of blocks of the block store (\<open>consensus/src/block_storage/block_tree.rs\<close>):
  insertion of blocks and certificates, the window of recent blocks, the path from a root, and the
  pruning of the tree when a block is committed. The pipeline that a block carries for its execution
  is not part of the model; the durable block storage is a parameter of the commit. The order in which
  a set of children is iterated over is the parameter \<open>iter\<close>. A loop that does not end is
  \<open>None\<close>.
\<close>

section \<open>The tree\<close>

record linkable_block =
  lb_executed_block :: block
  lb_children :: "hash_value list"

definition linkable_block_new :: "block \<Rightarrow> linkable_block" where
  "linkable_block_new b = \<lparr>lb_executed_block = b, lb_children = []\<rparr>"

definition add_child :: "hash_value \<Rightarrow> linkable_block \<Rightarrow> anyhow_error + linkable_block" where
  "add_child child_id lb =
     (if child_id \<in> set (lb_children lb) then Inl (Panicked ''Block already existed'')
      else Inr (lb\<lparr>lb_children := lb_children lb @ [child_id]\<rparr>))"

record block_tree =
  tree_id_to_block :: "hash_value \<rightharpoonup> linkable_block"
  tree_ordered_root_id :: hash_value
  tree_commit_root_id :: hash_value
  tree_window_root_id :: hash_value
  tree_highest_certified_block_id :: hash_value
  tree_highest_quorum_cert :: quorum_cert
  tree_highest_2chain_timeout_cert :: "two_chain_timeout_certificate option"
  tree_highest_ordered_cert :: wrapped_ledger_info
  tree_highest_commit_cert :: wrapped_ledger_info
  tree_id_to_quorum_cert :: "hash_value \<rightharpoonup> quorum_cert"
  tree_pruned_block_ids :: "hash_value list"
  tree_max_pruned_blocks_in_mem :: nat
  tree_round_to_ids :: "round_t \<rightharpoonup> hash_value"

definition block_tree_new ::
    "hash_value \<Rightarrow> block \<Rightarrow> quorum_cert \<Rightarrow> wrapped_ledger_info \<Rightarrow> wrapped_ledger_info \<Rightarrow> nat \<Rightarrow>
     two_chain_timeout_certificate option \<Rightarrow> anyhow_error + block_tree" where
  "block_tree_new commit_root_id window_root root_quorum_cert root_ordered_cert root_commit_cert max_pruned htc =
     (if b_epoch window_root \<noteq> bi_epoch (wli_commit_info root_ordered_cert) then Inl (Panicked ''assertion failed'')
      else if \<not> b_round window_root \<le> bi_round (wli_commit_info root_ordered_cert) then Inl (Panicked ''assertion failed'')
      else Inr
        \<lparr>tree_id_to_block = [b_id window_root \<mapsto> linkable_block_new window_root],
         tree_ordered_root_id = commit_root_id, tree_commit_root_id = commit_root_id,
         tree_window_root_id = b_id window_root, tree_highest_certified_block_id = commit_root_id,
         tree_highest_quorum_cert = root_quorum_cert, tree_highest_2chain_timeout_cert = htc,
         tree_highest_ordered_cert = root_ordered_cert, tree_highest_commit_cert = root_commit_cert,
         tree_id_to_quorum_cert = [bi_id (certified_block root_quorum_cert) \<mapsto> root_quorum_cert],
         tree_pruned_block_ids = [], tree_max_pruned_blocks_in_mem = max_pruned,
         tree_round_to_ids = [b_round window_root \<mapsto> b_id window_root]\<rparr>)"

definition get_all_quorum_certs_with_commit_info :: "block_tree \<Rightarrow> quorum_cert set" where
  "get_all_quorum_certs_with_commit_info t =
     {qc \<in> ran (tree_id_to_quorum_cert t). qc_commit_info qc \<noteq> block_info_empty}"

definition linkable_window_root :: "block_tree \<Rightarrow> anyhow_error + linkable_block" where
  "linkable_window_root t = ok_or (Panicked ''Window root must exist'') (tree_id_to_block t (tree_window_root_id t))"

definition remove_block :: "hash_value \<Rightarrow> block_tree \<Rightarrow> block_tree" where
  "remove_block block_id t =
     (let t1 = (case tree_id_to_block t block_id of
                  Some lb \<Rightarrow>
                    t\<lparr>tree_id_to_block := (tree_id_to_block t)(block_id := None),
                      tree_round_to_ids := (tree_round_to_ids t)(b_round (lb_executed_block lb) := None)\<rparr>
                | None \<Rightarrow> t)
      in t1\<lparr>tree_id_to_quorum_cert := (tree_id_to_quorum_cert t1)(block_id := None)\<rparr>)"

definition block_exists :: "block_tree \<Rightarrow> hash_value \<Rightarrow> bool" where
  "block_exists t block_id \<longleftrightarrow> tree_id_to_block t block_id \<noteq> None"

definition tree_get_block :: "block_tree \<Rightarrow> hash_value \<Rightarrow> block option" where
  "tree_get_block t block_id = map_option lb_executed_block (tree_id_to_block t block_id)"

definition get_block_for_round :: "block_tree \<Rightarrow> round_t \<Rightarrow> block option" where
  "get_block_for_round t rnd = Option.bind (tree_round_to_ids t rnd) (tree_get_block t)"

definition ordered_root :: "block_tree \<Rightarrow> anyhow_error + block" where
  "ordered_root t = ok_or (Panicked ''Root must exist'') (tree_get_block t (tree_ordered_root_id t))"

definition commit_root :: "block_tree \<Rightarrow> anyhow_error + block" where
  "commit_root t = ok_or (Panicked ''Commit root must exist'') (tree_get_block t (tree_commit_root_id t))"

definition highest_certified_block :: "block_tree \<Rightarrow> anyhow_error + block" where
  "highest_certified_block t = ok_or (Panicked ''Highest cerfified block must exist'') (tree_get_block t (tree_highest_certified_block_id t))"

definition replace_2chain_timeout_cert :: "two_chain_timeout_certificate \<Rightarrow> block_tree \<Rightarrow> block_tree" where
  "replace_2chain_timeout_cert tc t = t\<lparr>tree_highest_2chain_timeout_cert := Some tc\<rparr>"

definition get_all_blocks :: "block_tree \<Rightarrow> block set" where
  "get_all_blocks t = lb_executed_block ` ran (tree_id_to_block t)"

section \<open>The window of recent blocks\<close>

definition calculate_window_start_round :: "round_t \<Rightarrow> u64 \<Rightarrow> anyhow_error + round_t" where
  "calculate_window_start_round current_round window_size =
     (if \<not> window_size > 0 then Inl (Panicked ''assertion failed'')
      else rbind (ok_or (Panicked ''arithmetic overflow'') (checked_add current_round 1)) (\<lambda>next.
           Inr (if window_size \<le> next then next - window_size else 0)))"

partial_function (option) window_loop ::
    "block_tree \<Rightarrow> round_t \<Rightarrow> block \<Rightarrow> block list \<Rightarrow> (anyhow_error + block list) option" where
  "window_loop t window_start_round current_block window =
     (if \<not> is_genesis_block (b_block_data current_block) \<and>
         bi_round (certified_block (b_quorum_cert current_block)) \<ge> window_start_round
      then (case tree_get_block t (b_parent_id current_block) of
              Some parent \<Rightarrow> window_loop t window_start_round parent (window @ [parent])
            | None \<Rightarrow> Some (Inl (Msg ''Parent block not found'')))
      else Some (Inr window))"

definition get_ordered_block_window ::
    "block_tree \<Rightarrow> block \<Rightarrow> u64 option \<Rightarrow> (anyhow_error + block list) option" where
  "get_ordered_block_window t b window_size =
     (case rbind (commit_root t) (\<lambda>root.
           ensure (b_round b \<ge> b_round root) (Msg ''Block round is less than the commit root round'')) of
        Inl e \<Rightarrow> Some (Inl e)
      | Inr _ \<Rightarrow>
          (case window_size of
             None \<Rightarrow> Some (Inr [])
           | Some max_size \<Rightarrow>
               (case rbind (calculate_window_start_round (b_round b) max_size) (\<lambda>start.
                     rbind (ok_or (Panicked ''arithmetic overflow'') (checked_sub (b_round b) start)) (\<lambda>d.
                     rbind (ok_or (Panicked ''arithmetic overflow'') (checked_add d 1)) (\<lambda>size'.
                     rbind (ensure (size' > 0) (Msg ''window_size must be greater than 0'')) (\<lambda>_.
                     Inr (start, size'))))) of
                  Inl e \<Rightarrow> Some (Inl e)
                | Inr (start, size') \<Rightarrow>
                    map_option (\<lambda>r. rbind r (\<lambda>window.
                      rbind (ensure (length window < unat size') (Msg ''Condition failed'')) (\<lambda>_.
                      Inr (rev window)))) (window_loop t start b []))))"

definition find_window_root ::
    "block_tree \<Rightarrow> hash_value \<Rightarrow> u64 option \<Rightarrow> (anyhow_error + hash_value) option" where
  "find_window_root t block_to_commit_id window_size =
     (if window_size = Some 0 then Some (Inl (Panicked ''Window size must be greater than 0''))
      else case tree_get_block t block_to_commit_id of
             None \<Rightarrow> Some (Inl (Panicked ''Block not found''))
           | Some b \<Rightarrow>
               map_option (\<lambda>r. case r of
                   Inl _ \<Rightarrow> Inl (Panicked ''Ordered block window not found'')
                 | Inr window \<Rightarrow> Inr (b_id (case window of first # _ \<Rightarrow> first | [] \<Rightarrow> b)))
                 (get_ordered_block_window t b window_size))"

section \<open>Insertion\<close>

definition insert_block :: "block \<Rightarrow> block_tree \<Rightarrow> (anyhow_error + block) \<times> block_tree" where
  "insert_block b t =
     (case tree_get_block t (b_id b) of
        Some existing_block \<Rightarrow> (Inr existing_block, t)
      | None \<Rightarrow>
          (case tree_id_to_block t (b_parent_id b) of
             None \<Rightarrow> (Inl (Msg ''Parent block not found''), t)
           | Some parent_lb \<Rightarrow>
               (case add_child (b_id b) parent_lb of
                  Inl e \<Rightarrow> (Inl e, t)
                | Inr parent_lb' \<Rightarrow>
                    let t1 = t\<lparr>tree_id_to_block :=
                           (tree_id_to_block t)(b_parent_id b \<mapsto> parent_lb', b_id b \<mapsto> linkable_block_new b)\<rparr>
                    in (Inr b,
                        case tree_round_to_ids t1 (b_round b) of
                          Some _ \<Rightarrow> t1
                        | None \<Rightarrow> t1\<lparr>tree_round_to_ids := (tree_round_to_ids t1)(b_round b \<mapsto> b_id b)\<rparr>))))"

definition update_ordered_root :: "hash_value \<Rightarrow> block_tree \<Rightarrow> (anyhow_error + unit) \<times> block_tree" where
  "update_ordered_root root_id t =
     (if block_exists t root_id then (Inr (), t\<lparr>tree_ordered_root_id := root_id\<rparr>)
      else (Inl (Panicked ''assertion failed''), t))"

definition update_commit_root :: "hash_value \<Rightarrow> block_tree \<Rightarrow> (anyhow_error + unit) \<times> block_tree" where
  "update_commit_root root_id t =
     (if block_exists t root_id then (Inr (), t\<lparr>tree_commit_root_id := root_id\<rparr>)
      else (Inl (Panicked ''assertion failed''), t))"

definition update_window_root :: "hash_value \<Rightarrow> block_tree \<Rightarrow> (anyhow_error + unit) \<times> block_tree" where
  "update_window_root root_id t =
     (if block_exists t root_id then (Inr (), t\<lparr>tree_window_root_id := root_id\<rparr>)
      else (Inl (Panicked ''Block not found''), t))"

definition update_highest_commit_cert :: "wrapped_ledger_info \<Rightarrow> block_tree \<Rightarrow> (anyhow_error + unit) \<times> block_tree" where
  "update_highest_commit_cert new_commit_cert t =
     (if bi_round (wli_commit_info new_commit_cert) > bi_round (wli_commit_info (tree_highest_commit_cert t))
      then update_commit_root (bi_id (wli_commit_info new_commit_cert)) (t\<lparr>tree_highest_commit_cert := new_commit_cert\<rparr>)
      else (Inr (), t))"

definition insert_quorum_cert :: "quorum_cert \<Rightarrow> block_tree \<Rightarrow> (anyhow_error + unit) \<times> block_tree" where
  "insert_quorum_cert qc t =
     (let block_id = bi_id (certified_block qc)
      in case tree_get_block t block_id of
           None \<Rightarrow> (Inl (Msg ''Block not found''), t)
         | Some b \<Rightarrow>
             (case highest_certified_block t of
                Inl e \<Rightarrow> (Inl e, t)
              | Inr highest \<Rightarrow>
                  let t1 = (if b_round b > b_round highest
                            then t\<lparr>tree_highest_certified_block_id := b_id b, tree_highest_quorum_cert := qc\<rparr> else t);
                      t2 = (case tree_id_to_quorum_cert t1 block_id of
                              Some _ \<Rightarrow> t1
                            | None \<Rightarrow> t1\<lparr>tree_id_to_quorum_cert := (tree_id_to_quorum_cert t1)(block_id \<mapsto> qc)\<rparr>)
                  in (Inr (),
                      if bi_round (wli_commit_info (tree_highest_ordered_cert t2)) < bi_round (qc_commit_info qc)
                      then t2\<lparr>tree_highest_ordered_cert := into_wrapped_ledger_info qc\<rparr> else t2)))"

definition insert_ordered_cert :: "wrapped_ledger_info \<Rightarrow> block_tree \<Rightarrow> block_tree" where
  "insert_ordered_cert ordered_cert t =
     (if bi_round (wli_commit_info ordered_cert) > bi_round (wli_commit_info (tree_highest_ordered_cert t))
      then t\<lparr>tree_highest_ordered_cert := ordered_cert\<rparr> else t)"

section \<open>Pruning\<close>

text \<open>The stack of blocks to be pruned has its top first.\<close>

fun push_children ::
    "block_tree \<Rightarrow> hash_value \<Rightarrow> hash_value list \<Rightarrow> linkable_block list \<Rightarrow> anyhow_error + linkable_block list" where
  "push_children t next_window_root_id [] blocks_to_be_pruned = Inr blocks_to_be_pruned"
| "push_children t next_window_root_id (child_id # children) blocks_to_be_pruned =
     (if next_window_root_id = child_id then push_children t next_window_root_id children blocks_to_be_pruned
      else rbind (ok_or (Panicked ''Child must exist in the tree'') (tree_id_to_block t child_id)) (\<lambda>lb.
           push_children t next_window_root_id children (lb # blocks_to_be_pruned)))"

partial_function (option) prune_loop ::
    "(hash_value list \<Rightarrow> hash_value list) \<Rightarrow> block_tree \<Rightarrow> hash_value \<Rightarrow> linkable_block list \<Rightarrow> hash_value list \<Rightarrow>
     (anyhow_error + hash_value list) option" where
  "prune_loop iter t next_window_root_id blocks_to_be_pruned blocks_pruned =
     (case blocks_to_be_pruned of
        [] \<Rightarrow> Some (Inr blocks_pruned)
      | block_to_remove # rest \<Rightarrow>
          (case push_children t next_window_root_id (iter (lb_children block_to_remove)) rest of
             Inl e \<Rightarrow> Some (Inl e)
           | Inr stack \<Rightarrow>
               prune_loop iter t next_window_root_id stack
                 (blocks_pruned @ [b_id (lb_executed_block block_to_remove)])))"

definition find_blocks_to_prune ::
    "(hash_value list \<Rightarrow> hash_value list) \<Rightarrow> block_tree \<Rightarrow> hash_value \<Rightarrow> (anyhow_error + hash_value list) option" where
  "find_blocks_to_prune iter t next_window_root_id =
     (if next_window_root_id = tree_window_root_id t then Some (Inr [])
      else case linkable_window_root t of
             Inl e \<Rightarrow> Some (Inl e)
           | Inr root \<Rightarrow> prune_loop iter t next_window_root_id [root] [])"

fun remove_oldest :: "nat \<Rightarrow> block_tree \<Rightarrow> block_tree" where
  "remove_oldest 0 t = t"
| "remove_oldest (Suc n) t =
     (case tree_pruned_block_ids t of
        [] \<Rightarrow> remove_oldest n t
      | block_id # ids \<Rightarrow> remove_oldest n (remove_block block_id (t\<lparr>tree_pruned_block_ids := ids\<rparr>)))"

definition process_pruned_blocks :: "hash_value list \<Rightarrow> block_tree \<Rightarrow> block_tree" where
  "process_pruned_blocks newly_pruned_blocks t =
     (let t1 = t\<lparr>tree_pruned_block_ids := tree_pruned_block_ids t @ newly_pruned_blocks\<rparr>
      in if length (tree_pruned_block_ids t1) > tree_max_pruned_blocks_in_mem t1
         then remove_oldest (length (tree_pruned_block_ids t1) - tree_max_pruned_blocks_in_mem t1) t1
         else t1)"

text \<open>
  The block storage \<open>db\<close> deletes the pruned blocks too; its failure to do so is ignored.
\<close>

definition apply_pruning ::
    "(hash_value list \<Rightarrow> 'db \<Rightarrow> (anyhow_error + unit) \<times> 'db) \<Rightarrow> wrapped_ledger_info \<Rightarrow> hash_value \<Rightarrow> hash_value list \<Rightarrow>
     block_tree \<times> 'db \<Rightarrow> (anyhow_error + unit) \<times> block_tree \<times> 'db" where
  "apply_pruning prune_tree commit_proof window_root_id ids_to_remove state =
     (case state of (t, db) \<Rightarrow>
        let db1 = snd (prune_tree ids_to_remove db);
            t1 = process_pruned_blocks ids_to_remove t
        in case update_window_root window_root_id t1 of
             (Inl e, t2) \<Rightarrow> (Inl e, t2, db1)
           | (Inr _, t2) \<Rightarrow> (case update_highest_commit_cert commit_proof t2 of (r, t3) \<Rightarrow> (r, t3, db1)))"

definition commit_callback ::
    "(hash_value list \<Rightarrow> hash_value list) \<Rightarrow> (hash_value list \<Rightarrow> 'db \<Rightarrow> (anyhow_error + unit) \<times> 'db) \<Rightarrow> hash_value \<Rightarrow>
     wrapped_ledger_info \<Rightarrow> ledger_info_with_signatures \<Rightarrow> u64 option \<Rightarrow> block_tree \<times> 'db \<Rightarrow>
     ((anyhow_error + unit) \<times> block_tree \<times> 'db) option" where
  "commit_callback iter prune_tree block_id finality_proof commit_decision window_size state =
     (case rbind (commit_root (fst state)) (\<lambda>_.
           map_err (\<lambda>_. Panicked ''Inconsistent commit proof and evaluation decision, cannot commit block'')
             (wli_create_merged_with_executed_state finality_proof commit_decision)) of
        Inl e \<Rightarrow> Some (Inl e, state)
      | Inr commit_proof \<Rightarrow>
          Option.bind (find_window_root (fst state) block_id window_size) (\<lambda>r.
          case r of
            Inl e \<Rightarrow> Some (Inl e, state)
          | Inr window_root_id \<Rightarrow>
              map_option (\<lambda>r. case r of
                  Inl e \<Rightarrow> (Inl e, state)
                | Inr ids_to_remove \<Rightarrow> apply_pruning prune_tree commit_proof window_root_id ids_to_remove state)
                (find_blocks_to_prune iter (fst state) window_root_id)))"

section \<open>Paths\<close>

partial_function (option) path_loop ::
    "block_tree \<Rightarrow> round_t \<Rightarrow> hash_value \<Rightarrow> block list \<Rightarrow> (hash_value \<times> block list) option option" where
  "path_loop t root_round cur_block_id res =
     (case tree_get_block t cur_block_id of
        Some b \<Rightarrow>
          if b_round b \<le> root_round then Some (Some (cur_block_id, res))
          else path_loop t root_round (b_parent_id b) (res @ [b])
      | None \<Rightarrow> Some None)"

definition path_from_root_to_block ::
    "block_tree \<Rightarrow> hash_value \<Rightarrow> hash_value \<Rightarrow> round_t \<Rightarrow> block list option option" where
  "path_from_root_to_block t block_id root_id root_round =
     map_option (\<lambda>r. case r of
         None \<Rightarrow> None
       | Some (cur_block_id, res) \<Rightarrow> if cur_block_id \<noteq> root_id then None else Some (rev res))
       (path_loop t root_round block_id [])"

definition path_from_ordered_root :: "block_tree \<Rightarrow> hash_value \<Rightarrow> (anyhow_error + block list option) option" where
  "path_from_ordered_root t block_id =
     (case ordered_root t of
        Inl e \<Rightarrow> Some (Inl e)
      | Inr root \<Rightarrow> map_option Inr (path_from_root_to_block t block_id (tree_ordered_root_id t) (b_round root)))"

definition path_from_commit_root :: "block_tree \<Rightarrow> hash_value \<Rightarrow> (anyhow_error + block list option) option" where
  "path_from_commit_root t block_id =
     (case commit_root t of
        Inl e \<Rightarrow> Some (Inl e)
      | Inr root \<Rightarrow> map_option Inr (path_from_root_to_block t block_id (tree_commit_root_id t) (b_round root)))"

section \<open>Links\<close>

definition child_of :: "block_tree \<Rightarrow> hash_value \<Rightarrow> hash_value \<Rightarrow> bool" where
  "child_of t p c \<longleftrightarrow> (\<exists>lb. tree_id_to_block t p = Some lb \<and> c \<in> set (lb_children lb))"

definition descendants :: "block_tree \<Rightarrow> hash_value \<Rightarrow> hash_value set" where
  "descendants t r = {x. (child_of t)\<^sup>*\<^sup>* r x}"

text \<open>The blocks reached from \<open>r\<close> without entering \<open>n\<close>.\<close>

definition reached :: "block_tree \<Rightarrow> hash_value \<Rightarrow> hash_value \<Rightarrow> hash_value set" where
  "reached t n r = {x. (\<lambda>p c. child_of t p c \<and> c \<noteq> n)\<^sup>*\<^sup>* r x}"

text \<open>What the quorum certificate of a block says about its parent.\<close>

definition extends :: "block \<Rightarrow> block \<Rightarrow> bool" where
  "extends p b \<longleftrightarrow> bi_round (certified_block (b_quorum_cert b)) = b_round p \<and> b_round p < b_round b"

text \<open>
  The invariant that the structure documents: for all parent links a child link exists. Ids and
  child links are those of the blocks, and a block extends its parent.
\<close>

definition links_wf :: "block_tree \<Rightarrow> bool" where
  "links_wf t \<longleftrightarrow>
     finite (dom (tree_id_to_block t)) \<and>
     (\<forall>x lb. tree_id_to_block t x = Some lb \<longrightarrow> b_id (lb_executed_block lb) = x \<and> distinct (lb_children lb)) \<and>
     (\<forall>p c. child_of t p c \<longrightarrow>
        (\<exists>b b'. tree_get_block t p = Some b \<and> tree_get_block t c = Some b' \<and> b_parent_id b' = p \<and> extends b b')) \<and>
     (\<forall>c b. tree_get_block t c = Some b \<longrightarrow> block_exists t (b_parent_id b) \<longrightarrow> child_of t (b_parent_id b) c)"

lemma links_wfD:
  assumes "links_wf t"
  shows "finite (dom (tree_id_to_block t))"
    and "tree_id_to_block t x = Some lb \<Longrightarrow> b_id (lb_executed_block lb) = x"
    and "tree_id_to_block t x = Some lb \<Longrightarrow> distinct (lb_children lb)"
    and "tree_get_block t c = Some b \<Longrightarrow> block_exists t (b_parent_id b) \<Longrightarrow> child_of t (b_parent_id b) c"
  using assms by (auto simp: links_wf_def)

lemma links_wf_id: "links_wf t \<Longrightarrow> tree_get_block t x = Some b \<Longrightarrow> b_id b = x"
  by (auto simp: tree_get_block_def dest: links_wfD(2))

lemma child_ofE:
  assumes "links_wf t" "child_of t p c"
  obtains b b' where "tree_get_block t p = Some b" "tree_get_block t c = Some b'" "b_parent_id b' = p" "extends b b'"
  using assms unfolding links_wf_def by metis

lemma child_of_unique: "links_wf t \<Longrightarrow> child_of t p c \<Longrightarrow> child_of t q c \<Longrightarrow> p = q"
  by (metis child_ofE option.inject)

definition round_of :: "block_tree \<Rightarrow> hash_value \<Rightarrow> nat" where
  "round_of t x = (case tree_get_block t x of Some b \<Rightarrow> unat (b_round b) | None \<Rightarrow> 0)"

lemma child_of_round: "links_wf t \<Longrightarrow> child_of t p c \<Longrightarrow> round_of t p < round_of t c"
  by (erule (1) child_ofE) (simp add: round_of_def extends_def word_less_nat_alt)

lemma child_of_exists: "links_wf t \<Longrightarrow> child_of t p c \<Longrightarrow> block_exists t p \<and> block_exists t c"
  by (erule (1) child_ofE) (auto simp: block_exists_def tree_get_block_def)

lemma descendants_refl [simp]: "r \<in> descendants t r"
  by (simp add: descendants_def)

lemma descendants_child: "x \<in> descendants t r \<Longrightarrow> child_of t x y \<Longrightarrow> y \<in> descendants t r"
  by (auto simp: descendants_def)

lemma descendants_trans: "y \<in> descendants t x \<Longrightarrow> x \<in> descendants t r \<Longrightarrow> y \<in> descendants t r"
  by (auto simp: descendants_def)

lemma descendants_round:
  assumes "links_wf t" "x \<in> descendants t r"
  shows "x = r \<or> round_of t r < round_of t x"
  using assms(2) unfolding descendants_def mem_Collect_eq
proof (induction rule: rtranclp_induct)
  case (step y z)
  then show ?case using child_of_round [OF assms(1)] by fastforce
qed simp

lemma descendants_pred:
  assumes "links_wf t" "y \<in> descendants t r" "child_of t x y"
  shows "y = r \<or> x \<in> descendants t r"
  using assms(2) unfolding descendants_def mem_Collect_eq
  by (cases rule: rtranclp.cases) (use child_of_unique [OF assms(1)] assms(3) in auto)

lemma descendants_exist:
  assumes "links_wf t" "block_exists t r" "x \<in> descendants t r"
  shows "block_exists t x"
  using assms(3) unfolding descendants_def mem_Collect_eq
  by (cases rule: rtranclp.cases) (use child_of_exists [OF assms(1)] assms(2) in auto)

lemma descendants_antisym:
  "links_wf t \<Longrightarrow> x \<in> descendants t y \<Longrightarrow> y \<in> descendants t x \<Longrightarrow> x = y"
  using descendants_round [of t x y] descendants_round [of t y x] by fastforce

lemma reached_refl [simp]: "r \<in> reached t n r"
  by (simp add: reached_def)

lemma reached_descendants: "reached t n r \<subseteq> descendants t r"
  unfolding reached_def descendants_def using mono_rtranclp [of "\<lambda>p c. child_of t p c \<and> c \<noteq> n" "child_of t"] by blast

lemma reached_child: "x \<in> reached t n r \<Longrightarrow> child_of t x y \<Longrightarrow> y \<noteq> n \<Longrightarrow> y \<in> reached t n r"
  unfolding reached_def mem_Collect_eq by (erule rtranclp.rtrancl_into_rtrancl) simp

lemma reached_from_child:
  "reached t n r = insert r (\<Union>c \<in> {c. child_of t r c \<and> c \<noteq> n}. reached t n c)"
proof -
  let ?R = "\<lambda>p c. child_of t p c \<and> c \<noteq> n"
  have "?R\<^sup>*\<^sup>* r x \<longleftrightarrow> x = r \<or> (\<exists>c. ?R r c \<and> ?R\<^sup>*\<^sup>* c x)" for x
    using converse_rtranclpE [of ?R r x] converse_rtranclp_into_rtranclp [of ?R r] by blast
  then show ?thesis by (auto simp: reached_def)
qed

lemma reached_pred:
  assumes "links_wf t" "y \<in> reached t n r" "child_of t x y"
  shows "y = r \<or> x \<in> reached t n r"
  using assms(2) unfolding reached_def mem_Collect_eq
  by (cases rule: rtranclp.cases) (use child_of_unique [OF assms(1)] assms(3) in auto)

text \<open>Cutting the tree below \<open>n\<close> off the tree below \<open>r\<close>.\<close>

lemma reached_eq:
  assumes "links_wf t" "n \<in> descendants t r" "n \<noteq> r"
  shows "reached t n r = descendants t r - descendants t n"
proof -
  have "x \<notin> descendants t n" if "x \<in> reached t n r" for x
    using that unfolding reached_def mem_Collect_eq
  proof (induction rule: rtranclp_induct)
    case base
    then show ?case using descendants_antisym [OF assms(1)] assms(2,3) by blast
  next
    case (step y z)
    then show ?case using descendants_pred [OF assms(1)] by blast
  qed
  moreover have "x \<in> descendants t n \<or> x \<in> reached t n r" if "x \<in> descendants t r" for x
    using that unfolding descendants_def mem_Collect_eq
  proof (induction rule: rtranclp_induct)
    case (step y z)
    then show ?case using reached_child [of y t n r z] by (cases "z = n") auto
  qed simp
  ultimately show ?thesis using reached_descendants by blast
qed

section \<open>The blocks to prune\<close>

definition iter_ok :: "('a list \<Rightarrow> 'a list) \<Rightarrow> bool" where
  "iter_ok iter \<longleftrightarrow> (\<forall>xs. set (iter xs) = set xs \<and> (distinct xs \<longrightarrow> distinct (iter xs)))"

abbreviation lb_id :: "linkable_block \<Rightarrow> hash_value" where
  "lb_id lb \<equiv> b_id (lb_executed_block lb)"

lemma finite_reached:
  assumes "links_wf t" "block_exists t r"
  shows "finite (reached t n r)"
proof (rule finite_subset [OF _ links_wfD(1) [OF assms(1)]])
  show "reached t n r \<subseteq> dom (tree_id_to_block t)"
    using reached_descendants descendants_exist [OF assms] by (fastforce simp: block_exists_def)
qed

lemma push_children_eq:
  assumes "\<And>c. c \<in> set cs \<Longrightarrow> block_exists t c"
  shows "push_children t n cs stack = Inr (rev (map (the \<circ> tree_id_to_block t) (filter (\<lambda>c. c \<noteq> n) cs)) @ stack)"
  using assms
proof (induction cs arbitrary: stack)
  case (Cons c cs)
  obtain lb where "tree_id_to_block t c = Some lb" using Cons.prems [of c] by (auto simp: block_exists_def)
  then show ?case using Cons by (cases "n = c") (auto simp: ok_or_def rbind_def)
qed simp

text \<open>
  A stack of blocks none of which is reached from another one. Replacing its top by the children of
  the top keeps it so, and leaves exactly the top itself behind.
\<close>

definition stack_ok :: "block_tree \<Rightarrow> hash_value \<Rightarrow> linkable_block list \<Rightarrow> bool" where
  "stack_ok t n stack \<longleftrightarrow>
     (\<forall>lb \<in> set stack. tree_id_to_block t (lb_id lb) = Some lb) \<and> distinct (map lb_id stack) \<and>
     (\<forall>a \<in> set (map lb_id stack). \<forall>b \<in> set (map lb_id stack). a \<noteq> b \<longrightarrow> a \<notin> reached t n b)"

definition stack_reach :: "block_tree \<Rightarrow> hash_value \<Rightarrow> linkable_block list \<Rightarrow> hash_value set" where
  "stack_reach t n stack = (\<Union>a \<in> set (map lb_id stack). reached t n a)"

lemma reached_acyclic: "links_wf t \<Longrightarrow> child_of t r c \<Longrightarrow> r \<notin> reached t n c"
  using child_of_round [of t r c] descendants_round [of t r c] reached_descendants [of t n c] by fastforce

lemma siblings_apart:
  "links_wf t \<Longrightarrow> child_of t r c \<Longrightarrow> child_of t r c' \<Longrightarrow> c \<noteq> c' \<Longrightarrow> c \<notin> reached t n c'"
  using reached_pred [of t c n c' r] reached_acyclic [of t r c' n] by blast

lemma child_apart:
  assumes wf: "links_wf t" and c: "child_of t r c" "c \<noteq> n" and apart: "r \<notin> reached t n b" "b \<notin> reached t n r"
  shows "c \<notin> reached t n b" "b \<notin> reached t n c" "b \<noteq> c"
proof -
  have "c \<in> reached t n r" using reached_child [OF reached_refl c] .
  then show "b \<noteq> c" using apart(2) by blast
  then show "c \<notin> reached t n b" using reached_pred [OF wf _ c(1)] apart(1) by blast
  show "b \<notin> reached t n c" using apart(2) c reached_from_child [of t n r] by blast
qed

lemma stack_step:
  assumes wf: "links_wf t" and iter: "iter_ok iter" and ok: "stack_ok t n (lb # rest)"
  defines "ids \<equiv> filter (\<lambda>c. c \<noteq> n) (iter (lb_children lb))"
  defines "stack \<equiv> rev (map (the \<circ> tree_id_to_block t) ids) @ rest"
  shows "push_children t n (iter (lb_children lb)) rest = Inr stack" "stack_ok t n stack"
    "stack_reach t n (lb # rest) = insert (lb_id lb) (stack_reach t n stack)" "lb_id lb \<notin> stack_reach t n stack"
    "set (map lb_id stack) = {c. child_of t (lb_id lb) c \<and> c \<noteq> n} \<union> set (map lb_id rest)"
proof -
  let ?r = "lb_id lb"
  have lb: "tree_id_to_block t ?r = Some lb" using ok by (simp add: stack_ok_def)
  have children: "set (iter (lb_children lb)) = {c. child_of t ?r c}"
    using iter lb by (simp add: iter_ok_def child_of_def)
  have ids: "set ids = {c. child_of t ?r c \<and> c \<noteq> n}" "distinct ids"
    using children iter links_wfD(3) [OF wf lb] by (auto simp: ids_def iter_ok_def)
  have exists: "block_exists t c" if "child_of t ?r c" for c using child_of_exists [OF wf that] by simp
  then have look: "tree_id_to_block t c = Some (the (tree_id_to_block t c))" if "c \<in> set ids" for c
    using that ids(1) by (auto simp: block_exists_def)
  then have names: "map (lb_id \<circ> (the \<circ> tree_id_to_block t)) ids = ids"
    using links_wfD(2) [OF wf] by (intro map_idI) auto
  show "push_children t n (iter (lb_children lb)) rest = Inr stack"
    using push_children_eq [of "iter (lb_children lb)" t n rest] children exists by (simp add: stack_def ids_def)
  have stack_ids: "map lb_id stack = rev ids @ map lb_id rest"
    using names by (simp add: stack_def rev_map [symmetric])
  then show set_ids: "set (map lb_id stack) = {c. child_of t ?r c \<and> c \<noteq> n} \<union> set (map lb_id rest)"
    using ids(1) by simp
  have distinct: "?r \<notin> set (map lb_id rest)" "distinct (map lb_id rest)"
    using ok by (simp_all add: stack_ok_def)
  have apart: "a \<notin> reached t n b" if "a \<in> insert ?r (set (map lb_id rest))" "b \<in> insert ?r (set (map lb_id rest))" "a \<noteq> b" for a b
    using ok that unfolding stack_ok_def list.map list.set by blast
  have chain: "?r \<notin> reached t n b" "b \<notin> reached t n ?r" if "b \<in> set (map lb_id rest)" for b
    using apart [of ?r b] apart [of b ?r] that distinct(1) by blast+
  note rest_child = child_apart [OF wf _ _ chain]
  show "stack_reach t n (lb # rest) = insert ?r (stack_reach t n stack)"
    unfolding stack_reach_def set_ids using reached_from_child [of t n ?r] by auto
  show "?r \<notin> stack_reach t n stack"
    unfolding stack_reach_def set_ids using reached_acyclic [OF wf] chain(1) by auto
  have "distinct (map lb_id stack)"
    unfolding stack_ids using ids rest_child(3) distinct(2) by (auto simp del: set_map)
  moreover have "a \<notin> reached t n b" if "a \<in> set (map lb_id stack)" "b \<in> set (map lb_id stack)" "a \<noteq> b" for a b
    using that siblings_apart [OF wf] rest_child apart unfolding set_ids by blast
  moreover have "tree_id_to_block t (lb_id x) = Some x" if x: "x \<in> set stack" for x
  proof (cases "x \<in> set rest")
    case True
    then show ?thesis using ok by (simp add: stack_ok_def)
  next
    case False
    then obtain c where c: "c \<in> set ids" "x = the (tree_id_to_block t c)" using x by (auto simp: stack_def)
    then show ?thesis using look [OF c(1)] links_wfD(2) [OF wf, of c x] by simp
  qed
  ultimately show "stack_ok t n stack" unfolding stack_ok_def by blast
qed

lemma prune_loop_correct:
  assumes wf: "links_wf t" and iter: "iter_ok iter"
  shows "stack_ok t n stack \<Longrightarrow>
    \<exists>zs. prune_loop iter t n stack acc = Some (Inr (acc @ zs)) \<and> distinct zs \<and> set zs = stack_reach t n stack \<and>
      (\<forall>us z vs. zs = us @ z # vs \<longrightarrow> z \<in> set (map lb_id stack) \<or> (\<exists>p \<in> set us. child_of t p z))"
proof (induction "card (stack_reach t n stack)" arbitrary: stack acc rule: less_induct)
  case less
  show ?case
  proof (cases stack)
    case Nil
    then show ?thesis by (simp add: prune_loop.simps stack_reach_def)
  next
    case (Cons lb rest)
    define stack' where
      "stack' = rev (map (the \<circ> tree_id_to_block t) (filter (\<lambda>c. c \<noteq> n) (iter (lb_children lb)))) @ rest"
    note step = stack_step [OF wf iter less.prems [unfolded Cons], folded stack'_def]
    have "finite (stack_reach t n stack)"
      unfolding stack_reach_def using less.prems finite_reached [OF wf] by (auto simp: stack_ok_def block_exists_def)
    then have "card (stack_reach t n stack') < card (stack_reach t n stack)"
      using step(3,4) Cons by simp
    from less.hyps [OF this step(2), of "acc @ [lb_id lb]"] obtain zs where zs:
      "prune_loop iter t n stack' (acc @ [lb_id lb]) = Some (Inr ((acc @ [lb_id lb]) @ zs))" "distinct zs"
      "set zs = stack_reach t n stack'"
      "\<And>us z vs. zs = us @ z # vs \<Longrightarrow> z \<in> set (map lb_id stack') \<or> (\<exists>p \<in> set us. child_of t p z)"
      by blast
    have "prune_loop iter t n stack acc = Some (Inr (acc @ lb_id lb # zs))"
      using zs(1) step(1) Cons by (simp add: prune_loop.simps [of iter t n "lb # rest"])
    moreover have "distinct (lb_id lb # zs)" "set (lb_id lb # zs) = stack_reach t n stack"
      using zs(2,3) step(3,4) Cons by simp_all
    moreover have "z \<in> set (map lb_id stack) \<or> (\<exists>p \<in> set us. child_of t p z)" if "lb_id lb # zs = us @ z # vs" for us z vs
    proof (cases us)
      case Nil
      then show ?thesis using that Cons by simp
    next
      case us: (Cons u us')
      then have "zs = us' @ z # vs" "u = lb_id lb" using that by simp_all
      then show ?thesis using zs(4) [of us' z vs] step(5) Cons us by auto
    qed
    ultimately show ?thesis by blast
  qed
qed

lemma find_blocks_to_prune_correct:
  assumes wf: "links_wf t" and iter: "iter_ok iter" and root: "block_exists t (tree_window_root_id t)"
  shows "\<exists>ids. find_blocks_to_prune iter t n = Some (Inr ids) \<and> distinct ids \<and>
    set ids = (if n = tree_window_root_id t then {} else reached t n (tree_window_root_id t)) \<and>
    (\<forall>us z vs. ids = us @ z # vs \<longrightarrow> z = tree_window_root_id t \<or> (\<exists>p \<in> set us. child_of t p z))"
proof (cases "n = tree_window_root_id t")
  case True
  then show ?thesis by (simp add: find_blocks_to_prune_def)
next
  case False
  obtain lb where lb: "tree_id_to_block t (tree_window_root_id t) = Some lb" using root by (auto simp: block_exists_def)
  then have "lb_id lb = tree_window_root_id t" using links_wfD(2) [OF wf] by blast
  then show ?thesis
    using prune_loop_correct [OF wf iter, of n "[lb]" "[]"] lb False
    by (auto simp: stack_ok_def stack_reach_def find_blocks_to_prune_def linkable_window_root_def ok_or_def)
qed

section \<open>The tree invariant\<close>

lemma tree_cong:
  assumes "tree_id_to_block t' = tree_id_to_block t"
  shows "child_of t' = child_of t" "tree_get_block t' = tree_get_block t" "block_exists t' = block_exists t"
    "links_wf t' = links_wf t" "descendants t' = descendants t"
proof -
  show eq: "child_of t' = child_of t" "tree_get_block t' = tree_get_block t" "block_exists t' = block_exists t"
    using assms by (simp_all add: fun_eq_iff child_of_def tree_get_block_def block_exists_def)
  show "links_wf t' = links_wf t" unfolding links_wf_def eq assms ..
  show "descendants t' = descendants t" by (rule ext) (simp add: descendants_def eq)
qed

definition parents_first :: "block_tree \<Rightarrow> hash_value list \<Rightarrow> bool" where
  "parents_first t zs \<longleftrightarrow> (\<forall>us z vs. zs = us @ z # vs \<longrightarrow> (\<forall>p. child_of t p z \<longrightarrow> p \<in> set us))"

text \<open>
  The id of a block determines its parent, \<open>par\<close>. When the parent of a block is not in the tree,
  then neither is any ancestor of the parent.
\<close>

definition parents_known :: "(hash_value \<Rightarrow> hash_value) \<Rightarrow> block_tree \<Rightarrow> bool" where
  "parents_known par t \<longleftrightarrow>
     (\<forall>c b. tree_get_block t c = Some b \<longrightarrow> b_parent_id b = par c \<and>
        (\<not> block_exists t (par c) \<longrightarrow> (\<forall>k. \<not> block_exists t ((par ^^ k) (par c)))))"

lemma parents_known_remove:
  assumes wf: "links_wf t" and known: "parents_known par t" and orphan: "\<And>p. \<not> child_of t p i" and i: "block_exists t i"
    and eq: "tree_id_to_block t' = (tree_id_to_block t)(i := None)"
  shows "parents_known par t'"
proof -
  have ex: "block_exists t' x \<longleftrightarrow> x \<noteq> i \<and> block_exists t x" for x by (simp add: block_exists_def eq)
  obtain bi where bi: "tree_get_block t i = Some bi" "b_parent_id bi = par i"
    using i known by (auto simp: block_exists_def tree_get_block_def parents_known_def)
  then have "\<not> block_exists t (par i)" using links_wfD(4) [OF wf bi(1)] orphan by auto
  then have gone: "\<not> block_exists t ((par ^^ k) (par i))" for k using known bi(1) by (auto simp: parents_known_def)
  have "b_parent_id b = par c \<and> (\<not> block_exists t' (par c) \<longrightarrow> (\<forall>k. \<not> block_exists t' ((par ^^ k) (par c))))"
    if "tree_get_block t' c = Some b" for c b
  proof (intro conjI impI allI)
    have c: "tree_get_block t c = Some b" using that by (auto simp: tree_get_block_def eq split: if_splits)
    then show "b_parent_id b = par c" using known by (simp add: parents_known_def)
    fix k assume "\<not> block_exists t' (par c)"
    then consider "par c = i" | "\<not> block_exists t (par c)" using ex by blast
    then show "\<not> block_exists t' ((par ^^ k) (par c))"
    proof cases
      case 1
      then show ?thesis using gone by (cases k) (auto simp: ex funpow_swap1)
    next
      case 2
      then show ?thesis using c known ex by (auto simp: parents_known_def)
    qed
  qed
  then show ?thesis by (simp add: parents_known_def)
qed

text \<open>
  Blocks that have been pruned are removed in the order in which they were pruned, parents first, so
  that no child link ever points to a missing block.
\<close>

definition tree_wf :: "(hash_value \<Rightarrow> hash_value) \<Rightarrow> block_tree \<Rightarrow> bool" where
  "tree_wf par t \<longleftrightarrow>
     links_wf t \<and> parents_known par t \<and> distinct (tree_pruned_block_ids t) \<and> (\<forall>z \<in> set (tree_pruned_block_ids t). block_exists t z) \<and>
     parents_first t (tree_pruned_block_ids t) \<and> block_exists t (tree_window_root_id t) \<and>
     tree_window_root_id t \<notin> set (tree_pruned_block_ids t) \<and>
     (\<forall>p. child_of t p (tree_window_root_id t) \<longrightarrow> p \<in> set (tree_pruned_block_ids t))"

lemma tree_wf_cong:
  assumes "tree_id_to_block t' = tree_id_to_block t" "tree_pruned_block_ids t' = tree_pruned_block_ids t"
    and "tree_window_root_id t' = tree_window_root_id t"
  shows "tree_wf par t' = tree_wf par t"
  using tree_cong [OF assms(1)] assms(2,3) by (simp add: tree_wf_def parents_first_def parents_known_def)

lemma parents_first_mem: "parents_first t zs \<Longrightarrow> z \<in> set zs \<Longrightarrow> child_of t p z \<Longrightarrow> p \<in> set zs"
  unfolding parents_first_def by (metis in_set_conv_decomp Un_iff set_append)

lemma parents_first_append:
  assumes "parents_first t xs" "\<And>us z vs p. ys = us @ z # vs \<Longrightarrow> child_of t p z \<Longrightarrow> p \<in> set xs \<union> set us"
  shows "parents_first t (xs @ ys)"
proof -
  have "p \<in> set us" if eq: "xs @ ys = us @ z # vs" and p: "child_of t p z" for us z vs p
  proof -
    obtain ws where "xs = us @ ws \<and> ws @ ys = z # vs \<or> xs @ ws = us \<and> ys = ws @ z # vs"
      using append_eq_append_conv2 [THEN iffD1, OF eq] by blast
    then consider ws where "xs = us @ z # ws" | ws where "us = xs @ ws" "ys = ws @ z # vs"
      by (cases ws) auto
    then show ?thesis
    proof cases
      case 1
      then show ?thesis using assms(1) p unfolding parents_first_def by blast
    next
      case 2
      then show ?thesis using assms(2) [OF 2(2) p] by simp
    qed
  qed
  then show ?thesis by (simp add: parents_first_def)
qed

lemma descendants_not_pruned:
  assumes "tree_wf par t" "x \<in> descendants t (tree_window_root_id t)"
  shows "x \<notin> set (tree_pruned_block_ids t)"
  using assms(2) unfolding descendants_def mem_Collect_eq
proof (induction rule: rtranclp_induct)
  case base
  then show ?case using assms(1) by (simp add: tree_wf_def)
next
  case (step y z)
  then show ?case using parents_first_mem assms(1) unfolding tree_wf_def by blast
qed

text \<open>Pruning the tree down to a new window root.\<close>

lemma prune_keeps_wf:
  assumes wf: "tree_wf par t" and iter: "iter_ok iter" and n: "n \<in> descendants t (tree_window_root_id t)"
    and ids: "find_blocks_to_prune iter t n = Some (Inr ids)"
  shows "tree_wf par (t\<lparr>tree_pruned_block_ids := tree_pruned_block_ids t @ ids, tree_window_root_id := n\<rparr>)"
    "set ids = descendants t (tree_window_root_id t) - descendants t n"
proof -
  let ?w = "tree_window_root_id t" and ?old = "tree_pruned_block_ids t"
  have links: "links_wf t" and root: "block_exists t ?w" using wf by (simp_all add: tree_wf_def)
  note found = find_blocks_to_prune_correct [OF links iter root, of n]
  then have dist: "distinct ids"
    and first: "\<And>us z vs. ids = us @ z # vs \<Longrightarrow> z = ?w \<or> (\<exists>p \<in> set us. child_of t p z)"
    and set: "set ids = (if n = ?w then {} else reached t n ?w)"
    using ids by auto
  show set_ids: "set ids = descendants t ?w - descendants t n"
    using set reached_eq [OF links n] by auto
  have new: "x \<notin> set ?old" if "x \<in> descendants t ?w" for x using descendants_not_pruned [OF wf that] .
  have "p \<in> set ?old \<union> set us" if "ids = us @ z # vs" "child_of t p z" for us z vs p
    using first [OF that(1)] that(2) child_of_unique [OF links that(2)] wf unfolding tree_wf_def by blast
  then have "parents_first t (?old @ ids)" using parents_first_append [of t ?old ids] wf by (simp add: tree_wf_def)
  moreover have "p \<in> set (?old @ ids)" if p: "child_of t p n" for p
  proof (cases "n = ?w")
    case True
    then show ?thesis using wf p by (simp add: tree_wf_def)
  next
    case False
    then have "p \<in> descendants t ?w" using descendants_pred [OF links n p] by simp
    moreover have "p \<notin> descendants t n" using child_of_round [OF links p] descendants_round [OF links, of p n] by auto
    ultimately show ?thesis using set_ids by simp
  qed
  moreover have "block_exists t z" if "z \<in> set ids" for z
    using that descendants_exist [OF links root] set_ids by auto
  moreover have "block_exists t n" using descendants_exist [OF links root n] .
  moreover have "distinct (?old @ ids)" using wf dist new set_ids by (auto simp: tree_wf_def)
  moreover have "n \<notin> set (?old @ ids)" using new [OF n] set_ids by simp
  moreover have "\<forall>z \<in> set ?old. block_exists t z" using wf by (simp add: tree_wf_def)
  moreover have "parents_known par t" using wf by (simp add: tree_wf_def)
  ultimately show "tree_wf par (t\<lparr>tree_pruned_block_ids := ?old @ ids, tree_window_root_id := n\<rparr>)"
    using links tree_cong [of "t\<lparr>tree_pruned_block_ids := ?old @ ids, tree_window_root_id := n\<rparr>" t]
    by (auto simp: tree_wf_def parents_first_def parents_known_def)
qed

lemma remove_block_fields:
  "tree_id_to_block (remove_block i t) = (tree_id_to_block t)(i := None)"
  "tree_pruned_block_ids (remove_block i t) = tree_pruned_block_ids t"
  "tree_window_root_id (remove_block i t) = tree_window_root_id t"
  "tree_max_pruned_blocks_in_mem (remove_block i t) = tree_max_pruned_blocks_in_mem t"
  by (auto simp: remove_block_def Let_def fun_eq_iff split: option.splits)

lemma links_wf_remove:
  assumes wf: "links_wf t" and orphan: "\<And>p. \<not> child_of t p i" and eq: "tree_id_to_block t' = (tree_id_to_block t)(i := None)"
  shows "links_wf t'" "child_of t' p c \<longleftrightarrow> p \<noteq> i \<and> child_of t p c"
proof -
  show child: "child_of t' p c \<longleftrightarrow> p \<noteq> i \<and> child_of t p c" for p c
    by (auto simp: child_of_def eq)
  have get: "tree_get_block t' x = (if x = i then None else tree_get_block t x)" for x
    by (simp add: tree_get_block_def eq)
  have ex: "block_exists t' x \<longleftrightarrow> x \<noteq> i \<and> block_exists t x" for x
    by (simp add: block_exists_def eq)
  have "\<exists>b b'. tree_get_block t' p = Some b \<and> tree_get_block t' c = Some b' \<and> b_parent_id b' = p \<and> extends b b'"
    if "child_of t' p c" for p c
    using that orphan child_ofE [OF wf, of p c] unfolding child get by metis
  moreover have "child_of t' (b_parent_id b) c" if "tree_get_block t' c = Some b" "block_exists t' (b_parent_id b)" for c b
    using that links_wfD(4) [OF wf, of c b] unfolding child get ex by (simp split: if_splits)
  ultimately show "links_wf t'"
    using links_wfD(1-3) [OF wf] unfolding links_wf_def by (auto simp: eq)
qed

lemma remove_oldest_wf:
  assumes "tree_wf par t" "n \<le> length (tree_pruned_block_ids t)"
  shows "tree_wf par (remove_oldest n t) \<and> tree_pruned_block_ids (remove_oldest n t) = drop n (tree_pruned_block_ids t) \<and>
    tree_window_root_id (remove_oldest n t) = tree_window_root_id t \<and>
    tree_id_to_block (remove_oldest n t) = tree_id_to_block t |` (- set (take n (tree_pruned_block_ids t)))"
  using assms
proof (induction n arbitrary: t)
  case (Suc n)
  obtain i rest where pruned: "tree_pruned_block_ids t = i # rest" using Suc.prems(2) by (cases "tree_pruned_block_ids t") auto
  define t1 where "t1 = remove_block i (t\<lparr>tree_pruned_block_ids := rest\<rparr>)"
  have fields: "tree_id_to_block t1 = (tree_id_to_block t)(i := None)" "tree_pruned_block_ids t1 = rest"
    "tree_window_root_id t1 = tree_window_root_id t"
    by (simp_all add: t1_def remove_block_fields)
  have wf: "links_wf t" "distinct (i # rest)" "parents_first t (i # rest)"
    using Suc.prems(1) pruned by (simp_all add: tree_wf_def)
  have orphan: "\<not> child_of t p i" for p using wf(3) unfolding parents_first_def by (metis append_Nil empty_iff empty_set)
  note removed = links_wf_remove [OF wf(1) orphan fields(1)]
  have "p \<in> set us" if "rest = us @ z # vs" "p \<noteq> i" "child_of t p z" for us z vs p
    using wf(3) that unfolding parents_first_def by (metis append_Cons set_ConsD)
  then have "parents_first t1 rest" by (auto simp: parents_first_def removed(2))
  moreover have "parents_known par t1"
    using parents_known_remove [OF wf(1) _ orphan _ fields(1)] Suc.prems(1) pruned by (simp add: tree_wf_def)
  ultimately have "tree_wf par t1"
    using Suc.prems(1) removed wf(2) fields pruned by (auto simp: tree_wf_def block_exists_def)
  then have IH: "tree_wf par (remove_oldest n t1) \<and> tree_pruned_block_ids (remove_oldest n t1) = drop n rest \<and>
    tree_window_root_id (remove_oldest n t1) = tree_window_root_id t \<and>
    tree_id_to_block (remove_oldest n t1) = tree_id_to_block t1 |` (- set (take n rest))"
    using Suc.IH [of t1] Suc.prems(2) fields(2,3) pruned by simp
  have eq: "remove_oldest (Suc n) t = remove_oldest n t1" using pruned by (simp add: t1_def)
  have "tree_id_to_block t1 |` (- set (take n rest)) = tree_id_to_block t |` (- set (take (Suc n) (i # rest)))"
    by (auto simp: fields(1) restrict_map_def fun_eq_iff)
  then show ?case using IH unfolding eq pruned by simp
qed (simp add: restrict_map_def)

lemma remove_oldest_window:
  "remove_oldest n (t\<lparr>tree_window_root_id := w\<rparr>) = (remove_oldest n t)\<lparr>tree_window_root_id := w\<rparr>"
proof (induction n arbitrary: t)
  case (Suc n)
  have rb: "remove_block i (t\<lparr>tree_window_root_id := w\<rparr>) = (remove_block i t)\<lparr>tree_window_root_id := w\<rparr>" for i t
    by (simp add: remove_block_def Let_def split: option.splits)
  show ?case
  proof (cases "tree_pruned_block_ids t")
    case (Cons i ids)
    let ?t = "t\<lparr>tree_pruned_block_ids := ids\<rparr>"
    have swap: "t\<lparr>tree_window_root_id := w, tree_pruned_block_ids := ids\<rparr> = ?t\<lparr>tree_window_root_id := w\<rparr>" by simp
    have "remove_oldest (Suc n) (t\<lparr>tree_window_root_id := w\<rparr>) = remove_oldest n ((remove_block i ?t)\<lparr>tree_window_root_id := w\<rparr>)"
      unfolding rb [symmetric] by (simp add: Cons) (simp only: swap)
    also have "\<dots> = (remove_oldest n (remove_block i ?t))\<lparr>tree_window_root_id := w\<rparr>" by (rule Suc)
    finally show ?thesis by (simp add: Cons)
  qed (use Suc in simp)
qed simp

text \<open>What pruning down to a new window root leaves.\<close>

lemma prune_and_process:
  assumes wf: "tree_wf par t" and iter: "iter_ok iter" and n: "n \<in> descendants t (tree_window_root_id t)"
    and ids: "find_blocks_to_prune iter t n = Some (Inr ids)"
  defines "t' \<equiv> (process_pruned_blocks ids t)\<lparr>tree_window_root_id := n\<rparr>"
  shows "tree_wf par t'" "length (tree_pruned_block_ids t') \<le> tree_max_pruned_blocks_in_mem t"
    "\<And>x. x \<in> descendants t n \<Longrightarrow> tree_id_to_block t' x = tree_id_to_block t x"
    "\<And>x. x \<in> descendants t (tree_window_root_id t) - descendants t n \<Longrightarrow> block_exists t' x \<Longrightarrow> x \<in> set (tree_pruned_block_ids t')"
proof -
  let ?max = "tree_max_pruned_blocks_in_mem t" and ?all = "tree_pruned_block_ids t @ ids"
  define t1 where "t1 = t\<lparr>tree_pruned_block_ids := ?all, tree_window_root_id := n\<rparr>"
  define k where "k = length ?all - ?max"
  have all: "tree_pruned_block_ids t1 = ?all" and blocks: "tree_id_to_block t1 = tree_id_to_block t" by (simp_all add: t1_def)
  note pruned = prune_keeps_wf [OF wf iter n ids, folded t1_def]
  have t': "t' = remove_oldest k t1"
    by (simp add: t'_def process_pruned_blocks_def k_def t1_def Let_def remove_oldest_window)
  have removed: "tree_wf par t'" "tree_pruned_block_ids t' = drop k ?all"
    "tree_id_to_block t' = tree_id_to_block t |` (- set (take k ?all))"
    using remove_oldest_wf [OF pruned(1), of k] all blocks by (simp_all add: t' k_def)
  then show "tree_wf par t'" "length (tree_pruned_block_ids t') \<le> ?max" by (simp_all add: k_def)
  show "tree_id_to_block t' x = tree_id_to_block t x" if "x \<in> descendants t n" for x
  proof -
    have "x \<notin> set ?all"
      using descendants_not_pruned [OF wf] descendants_trans [OF that n] pruned(2) that by auto
    then show ?thesis using removed(3) by (auto simp: restrict_map_def dest: in_set_takeD)
  qed
  show "x \<in> set (tree_pruned_block_ids t')"
    if "x \<in> descendants t (tree_window_root_id t) - descendants t n" "block_exists t' x" for x
  proof -
    have "x \<in> set ?all" using that(1) pruned(2) by simp
    moreover have "x \<notin> set (take k ?all)" using that(2) removed(3) by (auto simp: block_exists_def restrict_map_def)
    ultimately show ?thesis unfolding removed(2) by (metis Un_iff append_take_drop_id set_append)
  qed
qed

text \<open>Inserting a block that is not in the tree yet below its parent.\<close>

lemma insert_block_cases:
  assumes wf: "links_wf t" and run: "insert_block b t = (r, t')"
  obtains (present) "block_exists t (b_id b)" "t' = t" "r = Inr (the (tree_get_block t (b_id b)))"
  | (orphan) "\<not> block_exists t (b_id b)" "\<not> block_exists t (b_parent_id b)" "t' = t" "\<exists>e. r = Inl (Msg e)"
  | (inserted) lp where "\<not> block_exists t (b_id b)" "tree_id_to_block t (b_parent_id b) = Some lp" "r = Inr b"
      "tree_id_to_block t' = (tree_id_to_block t)(b_parent_id b \<mapsto> lp\<lparr>lb_children := lb_children lp @ [b_id b]\<rparr>,
         b_id b \<mapsto> linkable_block_new b)"
      "tree_pruned_block_ids t' = tree_pruned_block_ids t" "tree_window_root_id t' = tree_window_root_id t"
      "tree_max_pruned_blocks_in_mem t' = tree_max_pruned_blocks_in_mem t"
proof (cases "block_exists t (b_id b)")
  case True
  then show ?thesis using present run by (auto simp: insert_block_def block_exists_def tree_get_block_def)
next
  case new: False
  then have none: "tree_get_block t (b_id b) = None" by (simp add: block_exists_def tree_get_block_def)
  show ?thesis
  proof (cases "tree_id_to_block t (b_parent_id b)")
    case None
    then have "insert_block b t = (Inl (Msg ''Parent block not found''), t)" by (simp add: insert_block_def none)
    then have "r = Inl (Msg ''Parent block not found'')" "t' = t" using run by simp_all
    moreover have "\<not> block_exists t (b_parent_id b)" using None by (simp add: block_exists_def)
    ultimately show ?thesis using orphan [OF new] by blast
  next
    case (Some lp)
    then have "b_id b \<notin> set (lb_children lp)" using new child_of_exists [OF wf, of "b_parent_id b"] by (auto simp: child_of_def)
    then have "add_child (b_id b) lp = Inr (lp\<lparr>lb_children := lb_children lp @ [b_id b]\<rparr>)" by (simp add: add_child_def)
    then show ?thesis
      using run by (intro inserted [OF new Some]) (auto simp: insert_block_def none Some Let_def split: option.splits)
  qed
qed

lemma parents_known_insert:
  assumes known: "parents_known par t" and p: "block_exists t (par i)" and par: "b_parent_id b = par i"
    and get: "\<And>x. tree_get_block t' x = (if x = i then Some b else tree_get_block t x)"
  shows "parents_known par t'"
proof -
  have ex: "block_exists t' x \<longleftrightarrow> x = i \<or> block_exists t x" for x
    using arg_cong [OF get [of x], of "\<lambda>m. m = None"] by (simp add: block_exists_def tree_get_block_def split: if_splits)
  have "\<not> block_exists t' ((par ^^ k) (par c))" if "tree_get_block t' c = Some y" "\<not> block_exists t' (par c)" for c y k
  proof -
    have "c \<noteq> i" using that(2) p ex by metis
    then have c: "tree_get_block t c = Some y" "\<not> block_exists t (par c)" using that get ex by auto
    then have gone: "\<not> block_exists t ((par ^^ j) (par c))" for j using known by (auto simp: parents_known_def)
    have "(par ^^ k) (par c) \<noteq> i" using gone [of "Suc k"] p by auto
    then show ?thesis using gone ex by blast
  qed
  then show ?thesis using known par get unfolding parents_known_def by (auto split: if_splits)
qed

lemma insert_block_keeps_wf:
  assumes wf: "tree_wf par t" and run: "insert_block b t = (r, t')"
    and par: "b_parent_id b = par (b_id b)" and ext: "\<And>p. tree_get_block t (b_parent_id b) = Some p \<Longrightarrow> extends p b"
  shows "tree_wf par t'"
proof -
  have links: "links_wf t" and known: "parents_known par t" using wf by (simp_all add: tree_wf_def)
  from links run show ?thesis
  proof (cases rule: insert_block_cases)
    case (inserted lp)
    let ?i = "b_id b" and ?p = "b_parent_id b"
    have neq: "?i \<noteq> ?p" using inserted(1,2) by (auto simp: block_exists_def)
    have ex: "block_exists t' x \<longleftrightarrow> x = ?i \<or> block_exists t x" for x
      using inserted(2) by (auto simp: block_exists_def inserted(4))
    have get: "tree_get_block t' x = (if x = ?i then Some b else tree_get_block t x)" for x
      using inserted(2) neq by (auto simp: tree_get_block_def inserted(4) linkable_block_new_def)
    have child: "child_of t' x c \<longleftrightarrow> child_of t x c \<or> x = ?p \<and> c = ?i" for x c
      using inserted(1,2) neq by (auto simp: child_of_def inserted(4) linkable_block_new_def block_exists_def)
    obtain bp where bp: "tree_get_block t ?p = Some bp" using inserted(2) by (auto simp: tree_get_block_def)
    have no_children: "b_parent_id b' \<noteq> ?i" if "tree_get_block t c = Some b'" for c b'
    proof
      assume eq: "b_parent_id b' = ?i"
      then have "par c = ?i" "\<not> block_exists t ((par ^^ 1) (par c))"
        using known that inserted(1) unfolding parents_known_def by metis+
      then show False using par inserted(2) by (simp add: block_exists_def)
    qed
    have "\<exists>x y. tree_get_block t' p = Some x \<and> tree_get_block t' c = Some y \<and> b_parent_id y = p \<and> extends x y"
      if "child_of t' p c" for p c
    proof (cases "child_of t p c")
      case True
      then show ?thesis using child_ofE [OF links True] child_of_exists [OF links True] inserted(1) get by metis
    next
      case False
      then show ?thesis using that child get bp ext neq by auto
    qed
    moreover have "child_of t' (b_parent_id y) c" if "tree_get_block t' c = Some y" "block_exists t' (b_parent_id y)" for c y
      using that no_children links_wfD(4) [OF links, of c y] unfolding child get ex by (auto split: if_splits)
    moreover have "b_id (lb_executed_block lb) = x \<and> distinct (lb_children lb)" if "tree_id_to_block t' x = Some lb" for x lb
      using that inserted(1,2) links_wfD(2,3) [OF links] child_of_exists [OF links, of ?p ?i]
      by (auto simp: inserted(4) linkable_block_new_def child_of_def split: if_splits)
    ultimately have "links_wf t'" using links_wfD(1) [OF links] inserted(4) unfolding links_wf_def by auto
    moreover have "parents_known par t'"
      using parents_known_insert [OF known _ par get] inserted(2) par by (simp add: block_exists_def)
    ultimately show ?thesis
      using wf inserted(1,5,6) links child_of_exists [OF links] unfolding tree_wf_def parents_first_def
      by (auto simp: ex child)
  qed (use wf in simp_all)
qed

section \<open>Commits\<close>

lemma update_highest_commit_cert_fields:
  assumes "update_highest_commit_cert cert t = (r, t')"
  shows "tree_id_to_block t' = tree_id_to_block t" "tree_pruned_block_ids t' = tree_pruned_block_ids t"
    "tree_window_root_id t' = tree_window_root_id t" "tree_max_pruned_blocks_in_mem t' = tree_max_pruned_blocks_in_mem t"
  using assms by (auto simp: update_highest_commit_cert_def update_commit_root_def split: if_splits)

lemma process_pruned_max: "tree_max_pruned_blocks_in_mem (process_pruned_blocks ids t) = tree_max_pruned_blocks_in_mem t"
proof -
  have "tree_max_pruned_blocks_in_mem (remove_oldest n t) = tree_max_pruned_blocks_in_mem t" for n t
    by (induction n arbitrary: t) (simp_all add: remove_block_fields split: list.splits)
  then show ?thesis by (simp add: process_pruned_blocks_def Let_def)
qed

lemma commit_callback_cases:
  assumes wf: "tree_wf par t" and iter: "iter_ok iter"
    and run: "commit_callback iter prune i proof decision ws (t, db) = Some (r, t', db')"
    and below: "\<forall>n. find_window_root t i ws = Some (Inr n) \<longrightarrow> n \<in> descendants t (tree_window_root_id t)"
  obtains (failed) e where "r = Inl e" "t' = t"
  | (pruned) n ids where "find_window_root t i ws = Some (Inr n)" "n \<in> descendants t (tree_window_root_id t)"
      "find_blocks_to_prune iter t n = Some (Inr ids)" "tree_window_root_id t' = n"
      "tree_id_to_block t' = tree_id_to_block (process_pruned_blocks ids t)"
      "tree_pruned_block_ids t' = tree_pruned_block_ids (process_pruned_blocks ids t)"
      "tree_max_pruned_blocks_in_mem t' = tree_max_pruned_blocks_in_mem t" "db' = snd (prune ids db)"
proof -
  have links: "links_wf t" and root: "block_exists t (tree_window_root_id t)" using wf by (simp_all add: tree_wf_def)
  show thesis
  proof (cases "\<exists>e. r = Inl e \<and> t' = t")
    case True
    then show thesis using failed by blast
  next
    case False
    then obtain cp where cp: "rbind (commit_root t) (\<lambda>_.
        map_err (\<lambda>_. Panicked ''Inconsistent commit proof and evaluation decision, cannot commit block'')
          (wli_create_merged_with_executed_state proof decision)) = Inr cp"
      using run by (auto simp: commit_callback_def split: sum.splits)
    then obtain x where x: "find_window_root t i ws = Some x" using run by (auto simp: commit_callback_def bind_eq_Some_conv)
    then obtain n where n: "x = Inr n" using run cp False by (cases x) (auto simp: commit_callback_def)
    then obtain y where y: "find_blocks_to_prune iter t n = Some y" using run cp x by (auto simp: commit_callback_def)
    then obtain ids where ids: "y = Inr ids" using run cp x n False by (cases y) (auto simp: commit_callback_def)
    have rest: "apply_pruning prune cp n ids (t, db) = (r, t', db')" using run cp x n y ids by (simp add: commit_callback_def)
    note found = x [unfolded n] y [unfolded ids]
    note n = below [rule_format, OF found(1)]
    note kept = prune_and_process [OF wf iter n found(2)]
    have "block_exists (process_pruned_blocks ids t) n"
      using kept(3) [of n] descendants_exist [OF links root n] by (simp add: block_exists_def)
    then obtain cert_result where "update_highest_commit_cert cp ((process_pruned_blocks ids t)\<lparr>tree_window_root_id := n\<rparr>) = (cert_result, t')"
      and db: "db' = snd (prune ids db)"
      using rest by (auto simp: apply_pruning_def Let_def update_window_root_def split: prod.splits)
    from update_highest_commit_cert_fields [OF this(1)] show thesis
      using pruned [OF found(1) n found(2)] db by (simp add: process_pruned_max)
  qed
qed

lemma commit_callback_keeps_wf:
  assumes wf: "tree_wf par t" and iter: "iter_ok iter"
    and run: "commit_callback iter prune i proof decision ws (t, db) = Some (r, t', db')"
    and below: "\<forall>n. find_window_root t i ws = Some (Inr n) \<longrightarrow> n \<in> descendants t (tree_window_root_id t)"
    and len: "length (tree_pruned_block_ids t) \<le> tree_max_pruned_blocks_in_mem t"
  shows "tree_wf par t' \<and> length (tree_pruned_block_ids t') \<le> tree_max_pruned_blocks_in_mem t'"
  using wf iter run below
proof (cases rule: commit_callback_cases)
  case (pruned n ids)
  note kept = prune_and_process [OF wf iter pruned(2,3)]
  have "tree_wf par t' = tree_wf par ((process_pruned_blocks ids t)\<lparr>tree_window_root_id := n\<rparr>)"
    by (rule tree_wf_cong) (use pruned in simp_all)
  then show ?thesis using kept(1,2) pruned by simp
qed (use wf len in simp)

section \<open>Chains of ancestors\<close>

fun ancestor_chain :: "block_tree \<Rightarrow> block \<Rightarrow> block list \<Rightarrow> bool" where
  "ancestor_chain t b [] \<longleftrightarrow> True"
| "ancestor_chain t b (p # ps) \<longleftrightarrow> tree_get_block t (b_parent_id b) = Some p \<and> ancestor_chain t p ps"

definition extends_tree :: "block_tree \<Rightarrow> block \<Rightarrow> bool" where
  "extends_tree t b \<longleftrightarrow> (\<forall>p. tree_get_block t (b_parent_id b) = Some p \<longrightarrow> extends p b)"

lemma block_extends_tree:
  assumes "links_wf t" "tree_get_block t c = Some b"
  shows "extends_tree t b"
  unfolding extends_tree_def
proof (intro allI impI)
  fix p assume p: "tree_get_block t (b_parent_id b) = Some p"
  then have "child_of t (b_parent_id b) c"
    using links_wfD(4) [OF assms] by (auto simp: block_exists_def tree_get_block_def)
  then show "extends p b" using child_ofE [OF assms(1)] p assms(2) by (metis option.inject)
qed

lemma chain_rounds:
  assumes "links_wf t" "extends_tree t b" "ancestor_chain t b ps"
  shows "sorted_wrt (\<lambda>x y. b_round y < b_round x) (b # ps)"
  using assms(2,3)
proof (induction ps arbitrary: b)
  case (Cons p ps)
  then have p: "tree_get_block t (b_parent_id b) = Some p" "ancestor_chain t p ps" by simp_all
  have IH: "sorted_wrt (\<lambda>x y. b_round y < b_round x) (p # ps)"
    by (rule Cons.IH [OF block_extends_tree [OF assms(1) p(1)] p(2)])
  have "b_round p < b_round b" using Cons.prems(1) p(1) by (simp add: extends_tree_def extends_def)
  moreover from this have "\<forall>y \<in> set ps. b_round y < b_round b" using IH by (meson less_trans sorted_wrt.simps(2))
  ultimately show ?case using IH by simp
qed simp

lemma decreasing_length:
  assumes "sorted_wrt (\<lambda>x y. b_round y < b_round x) (b # ps)" "\<forall>p \<in> set ps. s \<le> b_round p" "s \<le> b_round b"
  shows "length ps \<le> unat (b_round b) - unat s"
proof -
  let ?r = "\<lambda>x. unat (b_round x)"
  have "sorted_wrt (\<lambda>x y. ?r y < ?r x) ps" using assms(1) by (simp add: word_less_nat_alt)
  then have "distinct (map ?r ps)" by (induction ps) auto
  then have "length ps = card (?r ` set ps)" by (metis distinct_card length_map set_map)
  also have "\<dots> \<le> card {unat s..<?r b}"
    using assms by (intro card_mono) (auto simp: word_less_nat_alt word_le_nat_alt)
  finally show ?thesis by simp
qed

text \<open>The block at which the walk to the start of a window ends.\<close>

definition window_end :: "round_t \<Rightarrow> block \<Rightarrow> bool" where
  "window_end start b \<longleftrightarrow> is_genesis_block (b_block_data b) \<or> bi_round (certified_block (b_quorum_cert b)) < start"

lemma window_loop_correct:
  assumes wf: "links_wf t"
  shows "extends_tree t b \<Longrightarrow>
    (\<exists>ps. window_loop t start b acc = Some (Inr (acc @ ps)) \<and> ancestor_chain t b ps \<and> (\<forall>p \<in> set ps. start \<le> b_round p) \<and>
       window_end start (last (b # ps))) \<or>
    (window_loop t start b acc = Some (Inl (Msg ''Parent block not found'')) \<and>
     (\<exists>ps. ancestor_chain t b ps \<and> \<not> window_end start (last (b # ps)) \<and>
        \<not> block_exists t (b_parent_id (last (b # ps)))))"
proof (induction "unat (b_round b)" arbitrary: b acc rule: less_induct)
  case less
  show ?case
  proof (cases "window_end start b")
    case True
    then have "window_loop t start b acc = Some (Inr (acc @ []))"
      by (subst window_loop.simps) (auto simp: window_end_def)
    then show ?thesis using True by (intro disjI1 exI [of _ "[]"]) simp
  next
    case False
    then have loop: "window_loop t start b acc = (case tree_get_block t (b_parent_id b) of
        Some parent \<Rightarrow> window_loop t start parent (acc @ [parent])
      | None \<Rightarrow> Some (Inl (Msg ''Parent block not found'')))"
      by (subst window_loop.simps) (auto simp: window_end_def)
    show ?thesis
    proof (cases "tree_get_block t (b_parent_id b)")
      case None
      then have "\<not> block_exists t (b_parent_id b)" by (simp add: block_exists_def tree_get_block_def)
      then show ?thesis using loop None False by (intro disjI2 conjI exI [of _ "[]"]) simp_all
    next
      case (Some p)
      have p: "b_round p < b_round b" "start \<le> b_round p"
        using less.prems Some False by (auto simp: extends_tree_def extends_def window_end_def)
      then have "unat (b_round p) < unat (b_round b)" by (simp add: word_less_nat_alt)
      from less.hyps [OF this block_extends_tree [OF wf Some], of "acc @ [p]"] show ?thesis
      proof (elim disjE exE conjE)
        fix ps assume "window_loop t start p (acc @ [p]) = Some (Inr ((acc @ [p]) @ ps))" "ancestor_chain t p ps"
          "\<forall>x \<in> set ps. start \<le> b_round x" "window_end start (last (p # ps))"
        then show ?thesis using loop Some p by (intro disjI1 exI [of _ "p # ps"]) simp
      next
        fix ps assume "window_loop t start p (acc @ [p]) = Some (Inl (Msg ''Parent block not found''))"
          "ancestor_chain t p ps" "\<not> window_end start (last (p # ps))" "\<not> block_exists t (b_parent_id (last (p # ps)))"
        then show ?thesis using loop Some by (intro disjI2 conjI exI [of _ "p # ps"]) simp_all
      qed
    qed
  qed
qed

lemma path_loop_cases:
  "tree_get_block t c = None \<Longrightarrow> path_loop t r c acc = Some None"
  "tree_get_block t c = Some b \<Longrightarrow> b_round b \<le> r \<Longrightarrow> path_loop t r c acc = Some (Some (c, acc))"
  "tree_get_block t c = Some b \<Longrightarrow> \<not> b_round b \<le> r \<Longrightarrow> path_loop t r c acc = path_loop t r (b_parent_id b) (acc @ [b])"
  by (subst path_loop.simps, simp)+

lemma descendants_parent:
  assumes wf: "links_wf t" and c: "tree_get_block t c = Some b" "c \<in> descendants t x"
  shows "c = x \<or> b_parent_id b \<in> descendants t x"
  using c(2) unfolding descendants_def mem_Collect_eq
  by (cases rule: rtranclp.cases) (use child_ofE [OF wf] c(1) in \<open>metis option.inject\<close>)+

lemma path_loop_correct:
  assumes wf: "links_wf t"
  shows "(path_loop t r c acc = Some None \<and> (\<forall>x. block_exists t x \<longrightarrow> c \<notin> descendants t x \<or> unat r < round_of t x)) \<or>
    (\<exists>c' bs. path_loop t r c acc = Some (Some (c', acc @ bs)) \<and> block_exists t c' \<and> round_of t c' \<le> unat r \<and>
       c \<in> descendants t c' \<and> (\<forall>y. c \<in> descendants t y \<longrightarrow> round_of t y \<le> unat r \<longrightarrow> c' \<in> descendants t y) \<and>
       map (tree_get_block t) (map b_id bs) = map Some bs \<and>
       map b_id bs @ [c'] = c # map b_parent_id bs)"
proof (induction "round_of t c" arbitrary: c acc rule: less_induct)
  case less
  show ?case
  proof (cases "tree_get_block t c")
    case None
    note path_loop_cases(1) [OF None]
    moreover have "\<not> block_exists t c" using None by (simp add: block_exists_def tree_get_block_def)
    ultimately show ?thesis using descendants_exist [OF wf] by blast
  next
    case (Some b)
    have exists: "block_exists t c" using Some by (auto simp: block_exists_def tree_get_block_def)
    show ?thesis
    proof (cases "b_round b \<le> r")
      case True
      have "path_loop t r c acc = Some (Some (c, acc @ []))" using path_loop_cases(2) [OF Some True] by simp
      moreover have "round_of t c \<le> unat r" using Some True by (simp add: round_of_def word_le_nat_alt)
      ultimately show ?thesis using exists by (intro disjI2 exI [of _ c] exI [of _ "[]"]) simp
    next
      case False
      let ?p = "b_parent_id b"
      note loop = path_loop_cases(3) [OF Some False]
      have above: "unat r < round_of t c" using Some False by (simp add: round_of_def word_le_nat_alt)
      note up = descendants_parent [OF wf Some]
      have low: "?p \<in> descendants t y" if "c \<in> descendants t y" "round_of t y \<le> unat r" for y
        using up [OF that(1)] that(2) above by auto
      show ?thesis
      proof (cases "block_exists t ?p")
        case missing: False
        then have "path_loop t r ?p (acc @ [b]) = Some None"
          by (intro path_loop_cases(1)) (simp add: block_exists_def tree_get_block_def)
        moreover have "c \<notin> descendants t x \<or> unat r < round_of t x" if "block_exists t x" for x
          using up descendants_exist [OF wf that] missing above by blast
        ultimately show ?thesis using loop by simp
      next
        case True
        have link: "child_of t ?p c" using links_wfD(4) [OF wf Some True] .
        from less.hyps [OF child_of_round [OF wf link], of "acc @ [b]"] show ?thesis
        proof (elim disjE exE conjE)
          assume "path_loop t r ?p (acc @ [b]) = Some None"
            "\<forall>x. block_exists t x \<longrightarrow> ?p \<notin> descendants t x \<or> unat r < round_of t x"
          then show ?thesis using loop up above by auto
        next
          fix c' bs assume "path_loop t r ?p (acc @ [b]) = Some (Some (c', (acc @ [b]) @ bs))" "block_exists t c'"
            "round_of t c' \<le> unat r" "?p \<in> descendants t c'"
            "\<forall>y. ?p \<in> descendants t y \<longrightarrow> round_of t y \<le> unat r \<longrightarrow> c' \<in> descendants t y"
            "map (tree_get_block t) (map b_id bs) = map Some bs" "map b_id bs @ [c'] = ?p # map b_parent_id bs"
          then show ?thesis
            using loop link low links_wf_id [OF wf Some] Some descendants_child
            by (intro disjI2 exI [of _ c'] exI [of _ "b # bs"]) auto
        qed
      qed
    qed
  qed
qed

lemma window_start:
  assumes "0 < len" "unat r + 1 < 2 ^ 64"
  obtains s where "calculate_window_start_round r len = Inr s" "unat s = unat r + 1 - unat len" "s \<le> r"
    "s = word_of_nat (unat r + 1 - unat len)"
proof -
  have add: "checked_add r 1 = Some (r + 1)" using assms(2) by (simp add: checked_add_def)
  note nxt = checked_add_Some_unat [OF add, simplified]
  define s where "s = (if len \<le> r + 1 then r + 1 - len else 0)"
  have s: "unat s = unat r + 1 - unat len"
    using nxt by (auto simp: s_def word_le_nat_alt unat_sub)
  moreover have "calculate_window_start_round r len = Inr s"
    using assms(1) add by (simp add: calculate_window_start_round_def s_def rbind_def ok_or_def)
  moreover have "s \<le> r" using s assms(1) by (simp add: word_le_nat_alt word_less_nat_alt)
  moreover have "s = word_of_nat (unat r + 1 - unat len)" unfolding s [symmetric] by simp
  ultimately show thesis using that by blast
qed

lemma window_length:
  fixes r s :: round_t
  assumes "s \<le> r" "unat r + 1 < 2 ^ 64"
  shows "checked_sub r s = Some (r - s)" "checked_add (r - s) 1 = Some (r - s + 1)" "unat (r - s + 1) = unat r - unat s + 1"
    "0 < r - s + 1"
proof -
  have d: "unat (r - s) = unat r - unat s" using assms(1) by (simp add: unat_sub)
  show "checked_sub r s = Some (r - s)" using assms(1) by (simp add: checked_sub_def)
  show add: "checked_add (r - s) 1 = Some (r - s + 1)" using assms(2) d by (simp add: checked_add_def)
  show len: "unat (r - s + 1) = unat r - unat s + 1" using checked_add_Some_unat [OF add] d by simp
  show "0 < r - s + 1" using len by (simp add: word_less_nat_alt)
qed

section \<open>Reachable trees\<close>

text \<open>
  The trees of a block store: a new tree, in which blocks and certificates are inserted and blocks
  committed. A block inserted below a parent in the tree extends it, and a commit moves the window
  root down the tree, which \<open>commit_callback\<close> relies on and does not check.
\<close>

inductive reachable_tree ::
    "(hash_value \<Rightarrow> hash_value) \<Rightarrow> (hash_value list \<Rightarrow> hash_value list) \<Rightarrow>
     (hash_value list \<Rightarrow> 'db \<Rightarrow> (anyhow_error + unit) \<times> 'db) \<Rightarrow> block_tree \<Rightarrow> bool"
  for par iter prune where
  new_tree: "block_tree_new commit_root_id root qc hoc hcc max_pruned htc = Inr t \<Longrightarrow>
     b_parent_id root = par (b_id root) \<Longrightarrow> (\<And>k. (par ^^ k) (par (b_id root)) \<noteq> b_id root) \<Longrightarrow> reachable_tree par iter prune t"
| block_inserted: "reachable_tree par iter prune t \<Longrightarrow> insert_block b t = (r, t') \<Longrightarrow>
     b_parent_id b = par (b_id b) \<Longrightarrow> extends_tree t b \<Longrightarrow> reachable_tree par iter prune t'"
| quorum_cert_inserted: "reachable_tree par iter prune t \<Longrightarrow> insert_quorum_cert cert t = (r', t') \<Longrightarrow> reachable_tree par iter prune t'"
| ordered_cert_inserted: "reachable_tree par iter prune t \<Longrightarrow> reachable_tree par iter prune (insert_ordered_cert w t)"
| timeout_cert_replaced: "reachable_tree par iter prune t \<Longrightarrow> reachable_tree par iter prune (replace_2chain_timeout_cert tc t)"
| root_ordered: "reachable_tree par iter prune t \<Longrightarrow> update_ordered_root i t = (r'', t') \<Longrightarrow> reachable_tree par iter prune t'"
| block_committed: "reachable_tree par iter prune t \<Longrightarrow>
     commit_callback iter prune i w decision ws (t, db) = Some (r'', t', db') \<Longrightarrow>
     \<forall>n. find_window_root t i ws = Some (Inr n) \<longrightarrow> n \<in> descendants t (tree_window_root_id t) \<Longrightarrow> reachable_tree par iter prune t'"

lemma new_tree_wf:
  assumes "block_tree_new commit_root_id root qc hoc hcc max_pruned htc = Inr t" "b_parent_id root = par (b_id root)"
    and "\<And>k. (par ^^ k) (par (b_id root)) \<noteq> b_id root"
  shows "tree_wf par t" "tree_pruned_block_ids t = []"
proof -
  have t: "tree_id_to_block t = [b_id root \<mapsto> linkable_block_new root]" "tree_pruned_block_ids t = []"
    "tree_window_root_id t = b_id root"
    using assms(1) by (auto simp: block_tree_new_def split: if_splits)
  have no_child: "\<not> child_of t p c" for p c by (simp add: child_of_def t(1) linkable_block_new_def)
  have exists: "block_exists t x \<longleftrightarrow> x = b_id root" and get: "tree_get_block t x = (if x = b_id root then Some root else None)" for x
    by (simp_all add: block_exists_def tree_get_block_def t(1) linkable_block_new_def)
  have "links_wf t" using assms(2) assms(3) [of 0] by (simp add: links_wf_def no_child exists get t(1) linkable_block_new_def)
  moreover have "parents_known par t" using assms(2,3) by (simp add: parents_known_def exists get)
  ultimately show "tree_wf par t" "tree_pruned_block_ids t = []"
    by (simp_all add: tree_wf_def parents_first_def no_child exists t)
qed

lemma reachable_tree_wf:
  assumes "reachable_tree par iter prune t" "iter_ok iter"
  shows "tree_wf par t \<and> length (tree_pruned_block_ids t) \<le> tree_max_pruned_blocks_in_mem t"
  using assms(1)
proof induction
  case (new_tree commit_root_id root qc hoc hcc max_pruned htc t)
  then show ?case using new_tree_wf by fastforce
next
  case (block_inserted t b r t')
  then have "tree_wf par t'" using insert_block_keeps_wf by (auto simp: extends_tree_def)
  moreover have "links_wf t" using block_inserted.IH by (simp add: tree_wf_def)
  ultimately show ?case using block_inserted.IH insert_block_cases [OF _ block_inserted.hyps(2)] by metis
next
  case (quorum_cert_inserted t cert r' t')
  then have "tree_id_to_block t' = tree_id_to_block t \<and> tree_pruned_block_ids t' = tree_pruned_block_ids t \<and>
    tree_window_root_id t' = tree_window_root_id t \<and> tree_max_pruned_blocks_in_mem t' = tree_max_pruned_blocks_in_mem t"
    by (auto simp: insert_quorum_cert_def Let_def split: option.splits sum.splits if_splits)
  then show ?case using quorum_cert_inserted.IH tree_wf_cong by metis
next
  case (ordered_cert_inserted t w)
  then show ?case using tree_wf_cong [of "insert_ordered_cert w t" t] by (simp add: insert_ordered_cert_def)
next
  case (timeout_cert_replaced t tc)
  then show ?case using tree_wf_cong [of "replace_2chain_timeout_cert tc t" t] by (simp add: replace_2chain_timeout_cert_def)
next
  case (root_ordered t i r'' t')
  then show ?case using tree_wf_cong [of t' t] by (auto simp: update_ordered_root_def split: if_splits)
next
  case (block_committed t i w decision ws db r'' t' db')
  show ?case
    by (rule commit_callback_keeps_wf [OF conjunct1 [OF block_committed.IH] assms(2) block_committed.hyps(2,3)
        conjunct2 [OF block_committed.IH]])
qed

section \<open>A concrete tree\<close>

text \<open>A root of round 0 with a child of round 1, which has two children, of rounds 2 and 3.\<close>

definition ex_block_qc :: "hash_value \<Rightarrow> round_t \<Rightarrow> quorum_cert" where
  "ex_block_qc i r =
     quorum_cert_new (vote_data_new (block_info_new 1 r i 0 0 0 None) (block_info_new 1 0 0 0 0 0 None))
       (lis_new (ledger_info_new (block_info_new 1 0 1 8 0 0 None) 0) aggregate_signature_empty)"

definition ex_tree_block :: "hash_value \<Rightarrow> round_t \<Rightarrow> hash_value \<Rightarrow> round_t \<Rightarrow> block_type \<Rightarrow> block" where
  "ex_tree_block i r p rp typ =
     \<lparr>b_id = i, b_block_data = \<lparr>bd_epoch = 1, bd_round = r, bd_timestamp_usecs = 0, bd_quorum_cert = ex_block_qc p rp,
        bd_block_type = typ\<rparr>, b_signature = None\<rparr>"

definition ex_par :: "hash_value \<Rightarrow> hash_value" where
  "ex_par i = (if i = 4 \<or> i = 3 then 2 else if i = 2 then 1 else 0)"

definition ex_root :: block where "ex_root = ex_tree_block 1 0 0 0 Genesis"
definition ex_block_2 :: block where "ex_block_2 = ex_tree_block 2 1 1 0 (NilBlock [])"
definition ex_block_3 :: block where "ex_block_3 = ex_tree_block 3 2 2 1 (NilBlock [])"
definition ex_block_4 :: block where "ex_block_4 = ex_tree_block 4 3 2 1 (NilBlock [])"

lemma ex_tree_block_simps [simp]:
  "b_id (ex_tree_block i r p rp typ) = i" "b_round (ex_tree_block i r p rp typ) = r" "b_epoch (ex_tree_block i r p rp typ) = 1"
  "bi_round (certified_block (b_quorum_cert (ex_tree_block i r p rp typ))) = rp"
  "b_parent_id (ex_tree_block i r p rp (NilBlock fs)) = p" "b_parent_id (ex_tree_block i r p rp Genesis) = p"
  "is_genesis_block (b_block_data (ex_tree_block i r p rp typ)) \<longleftrightarrow> typ = Genesis"
  by (simp_all add: ex_tree_block_def b_round_def b_epoch_def b_quorum_cert_def ex_block_qc_def b_parent_id_def bd_parent_id_def
      quorum_cert_new_def vote_data_new_def block_info_new_def certified_block_def is_genesis_block_def)

definition ex_ordered_cert :: wrapped_ledger_info where
  "ex_ordered_cert = into_wrapped_ledger_info (ex_block_qc 1 0)"

lemma ex_ordered_cert_info: "wli_commit_info ex_ordered_cert = block_info_new 1 0 1 8 0 0 None"
  by (simp add: ex_ordered_cert_def into_wrapped_ledger_info_def wli_commit_info_def wrapped_ledger_info_new_def ex_block_qc_def
      quorum_cert_new_def lis_new_def ledger_info_new_def)

definition ex_new_tree :: block_tree where
  "ex_new_tree = (case block_tree_new 1 ex_root (ex_block_qc 1 0) ex_ordered_cert ex_ordered_cert 1 None of Inr t \<Rightarrow> t)"

definition ex_tree :: block_tree where
  "ex_tree = snd (insert_block ex_block_4 (snd (insert_block ex_block_3 (snd (insert_block ex_block_2 ex_new_tree)))))"

lemma ex_new_tree_eq: "block_tree_new 1 ex_root (ex_block_qc 1 0) ex_ordered_cert ex_ordered_cert 1 None = Inr ex_new_tree"
  by (simp add: ex_new_tree_def block_tree_new_def ex_ordered_cert_info block_info_new_def ex_root_def)

lemma ex_new_tree_simps:
  "tree_id_to_block ex_new_tree = [1 \<mapsto> linkable_block_new ex_root]" "tree_window_root_id ex_new_tree = 1"
  "tree_commit_root_id ex_new_tree = 1" "tree_pruned_block_ids ex_new_tree = []" "tree_round_to_ids ex_new_tree = [0 \<mapsto> 1]"
  "tree_max_pruned_blocks_in_mem ex_new_tree = 1"
  by (simp_all add: ex_new_tree_def block_tree_new_def ex_ordered_cert_info block_info_new_def ex_root_def)

lemmas ex_blocks = ex_root_def ex_block_2_def ex_block_3_def ex_block_4_def

lemma ex_tree_simps [simp]:
  "tree_id_to_block ex_tree =
     [1 \<mapsto> \<lparr>lb_executed_block = ex_root, lb_children = [2]\<rparr>, 2 \<mapsto> \<lparr>lb_executed_block = ex_block_2, lb_children = [3, 4]\<rparr>,
      3 \<mapsto> linkable_block_new ex_block_3, 4 \<mapsto> linkable_block_new ex_block_4]"
  "tree_window_root_id ex_tree = 1" "tree_commit_root_id ex_tree = 1" "tree_pruned_block_ids ex_tree = []"
  "tree_max_pruned_blocks_in_mem ex_tree = 1"
  by (simp_all add: ex_tree_def insert_block_def tree_get_block_def add_child_def Let_def ex_new_tree_simps ex_blocks
      linkable_block_new_def fun_upd_twist)

lemma ex_tree_reachable: "reachable_tree ex_par (\<lambda>cs. cs) prune ex_tree"
proof -
  let ?r = "reachable_tree ex_par (\<lambda>cs. cs) prune"
  have "(ex_par ^^ k) 0 = 0" for k by (induction k) (simp_all add: ex_par_def)
  then have t0: "?r ex_new_tree"
    by (intro reachable_tree.new_tree [OF ex_new_tree_eq]) (simp_all add: ex_par_def ex_root_def)
  let ?t1 = "snd (insert_block ex_block_2 ex_new_tree)"
  have t1: "?r ?t1"
    by (rule reachable_tree.block_inserted [OF t0 surjective_pairing])
      (simp_all add: ex_par_def ex_blocks extends_tree_def extends_def tree_get_block_def ex_new_tree_simps linkable_block_new_def)
  have t1_blocks: "tree_get_block ?t1 2 = Some ex_block_2"
    by (simp add: insert_block_def tree_get_block_def add_child_def Let_def ex_new_tree_simps ex_blocks linkable_block_new_def)
  let ?t2 = "snd (insert_block ex_block_3 ?t1)"
  have t2: "?r ?t2"
    by (rule reachable_tree.block_inserted [OF t1 surjective_pairing])
      (use t1_blocks in \<open>simp_all add: ex_par_def ex_blocks extends_tree_def extends_def\<close>)
  have t2_blocks: "tree_get_block ?t2 2 = Some ex_block_2"
    by (simp add: insert_block_def tree_get_block_def add_child_def Let_def ex_new_tree_simps ex_blocks linkable_block_new_def)
  show ?thesis
    unfolding ex_tree_def
    by (rule reachable_tree.block_inserted [OF t2 surjective_pairing])
      (use t2_blocks in \<open>simp_all add: ex_par_def ex_blocks extends_tree_def extends_def\<close>)
qed

lemma ex_tree_facts:
  "commit_root ex_tree = Inr ex_root" "find_window_root ex_tree 3 (Some 1) = Some (Inr 3)" "child_of ex_tree 1 2" "child_of ex_tree 2 3"
  "tree_get_block ex_tree 1 = Some ex_root" "tree_get_block ex_tree 3 = Some ex_block_3"
  "wli_create_merged_with_executed_state ex_ordered_cert (wli_signed_ledger_info ex_ordered_cert) = Inr ex_ordered_cert"
proof -
  show root: "commit_root ex_tree = Inr ex_root" "tree_get_block ex_tree 1 = Some ex_root"
    and block: "tree_get_block ex_tree 3 = Some ex_block_3" "child_of ex_tree 1 2" "child_of ex_tree 2 3"
    by (simp_all add: commit_root_def tree_get_block_def child_of_def ok_or_def linkable_block_new_def)
  have "window_loop ex_tree 2 ex_block_3 [] = Some (Inr [])" by (subst window_loop.simps) (simp add: ex_blocks word_le_nat_alt)
  then show "find_window_root ex_tree 3 (Some 1) = Some (Inr 3)"
    using root block by (simp add: find_window_root_def get_ordered_block_window_def calculate_window_start_round_def
        checked_add_def checked_sub_def ex_blocks result_simps rbind_def ensure_def ok_or_def)
  show "wli_create_merged_with_executed_state ex_ordered_cert (wli_signed_ledger_info ex_ordered_cert) = Inr ex_ordered_cert"
    by (simp add: wli_create_merged_with_executed_state_def match_ordered_only_def rbind_def ensure_def wli_commit_info_def
        lis_commit_info_def wrapped_ledger_info_new_def)
qed

section \<open>Properties\<close>

text \<open>C15. However blocks that extend their parent and certificates are inserted and blocks committed, as long
  as each commit moves the window root down the tree, the tree stays consistent: every parent link between two blocks of the tree has its child link and every child link points to a
  block of the tree whose parent it is. The window root and all blocks below it are in the tree and not
  pruned, and no more pruned blocks are kept than the configured number.\<close>

theorem block_tree_links_consistent:
  assumes "reachable_tree par iter prune t" "iter_ok iter"
  shows "(\<forall>c b. tree_get_block t c = Some b \<longrightarrow>
       b_id b = c \<and> (block_exists t (b_parent_id b) \<longrightarrow> child_of t (b_parent_id b) c)) \<and>
    (\<forall>p c. child_of t p c \<longrightarrow> (\<exists>b. tree_get_block t c = Some b \<and> b_parent_id b = p)) \<and>
    (\<forall>x \<in> descendants t (tree_window_root_id t). block_exists t x \<and> x \<notin> set (tree_pruned_block_ids t)) \<and>
    length (tree_pruned_block_ids t) \<le> tree_max_pruned_blocks_in_mem t"
proof -
  have wf: "tree_wf par t" and len: "length (tree_pruned_block_ids t) \<le> tree_max_pruned_blocks_in_mem t"
    using reachable_tree_wf [OF assms] by simp_all
  then have links: "links_wf t" and root: "block_exists t (tree_window_root_id t)" by (simp_all add: tree_wf_def)
  have "\<exists>b. tree_get_block t c = Some b \<and> b_parent_id b = p" if "child_of t p c" for p c
    using child_ofE [OF links that] by blast
  then show ?thesis
    using links_wf_id [OF links] links_wfD(4) [OF links] descendants_exist [OF links root]
      descendants_not_pruned [OF wf] len by blast
qed

theorem block_tree_links_consistent_witness:
  "child_of ex_tree (b_parent_id ex_block_3) 3 \<and> length (tree_pruned_block_ids ex_tree) \<le> 1"
proof -
  have "iter_ok (\<lambda>cs :: hash_value list. cs)" by (simp add: iter_ok_def)
  note consistent = block_tree_links_consistent [OF ex_tree_reachable [of "\<lambda>_ db :: unit. (Inr (), db)"] this]
  have "block_exists ex_tree (b_parent_id ex_block_3)" by (simp add: block_exists_def ex_blocks)
  then have "child_of ex_tree (b_parent_id ex_block_3) 3" using consistent ex_tree_facts(6) by blast
  moreover have "length (tree_pruned_block_ids ex_tree) \<le> tree_max_pruned_blocks_in_mem ex_tree" using consistent by blast
  ultimately show ?thesis by simp
qed

text \<open>C16. Committing a block ends, and prunes exactly the blocks that are not below the new window root:
  the subtree of the new root is left as it is, every other block below the old root is removed or waits
  among the pruned blocks for its removal, and the block storage is told to delete exactly these, each of
  them once.\<close>

theorem commit_prunes_other_branches:
  assumes "reachable_tree par iter prune t" "iter_ok iter"
    and "find_window_root t i ws = Some (Inr n)" "n \<in> descendants t (tree_window_root_id t)"
    and "commit_root t = Inr root" "wli_create_merged_with_executed_state w decision = Inr proof"
  shows "\<exists>r t' ids. commit_callback iter prune i w decision ws (t, db) = Some (r, t', snd (prune ids db)) \<and>
    distinct ids \<and> set ids = descendants t (tree_window_root_id t) - descendants t n \<and> tree_window_root_id t' = n \<and>
    (\<forall>x \<in> descendants t n. tree_id_to_block t' x = tree_id_to_block t x) \<and>
    (\<forall>x \<in> set ids. block_exists t' x \<longrightarrow> x \<in> set (tree_pruned_block_ids t'))"
proof -
  have wf: "tree_wf par t" using reachable_tree_wf [OF assms(1,2)] by simp
  then have links: "links_wf t" and root: "block_exists t (tree_window_root_id t)" by (simp_all add: tree_wf_def)
  obtain ids where ids: "find_blocks_to_prune iter t n = Some (Inr ids)" "distinct ids"
    using find_blocks_to_prune_correct [OF links assms(2) root, of n] by blast
  have run: "commit_callback iter prune i w decision ws (t, db) = Some (apply_pruning prune proof n ids (t, db))"
    using assms(3,5,6) ids(1) by (simp add: commit_callback_def rbind_def map_err_def)
  obtain r t' db' where result: "apply_pruning prune proof n ids (t, db) = (r, t', db')" by (metis prod_cases3)
  note kept = prune_and_process [OF wf assms(2,4) ids(1)]
  have "block_exists (process_pruned_blocks ids t) n"
    using kept(3) [of n] descendants_exist [OF links root assms(4)] by (simp add: block_exists_def)
  then have "update_highest_commit_cert proof ((process_pruned_blocks ids t)\<lparr>tree_window_root_id := n\<rparr>) = (r, t')"
    and db: "db' = snd (prune ids db)"
    using result by (auto simp: apply_pruning_def Let_def update_window_root_def split: prod.splits)
  note fields = update_highest_commit_cert_fields [OF this(1)]
  have set_ids: "set ids = descendants t (tree_window_root_id t) - descendants t n"
    using prune_keeps_wf(2) [OF wf assms(2,4) ids(1)] .
  have "x \<in> set (tree_pruned_block_ids t')" if "x \<in> set ids" "block_exists t' x" for x
    using kept(4) [of x] that set_ids fields tree_cong(3) [OF fields(1)] by simp
  then show ?thesis using run result db ids(2) set_ids fields kept(3) by auto
qed

theorem commit_prunes_other_branches_witness:
  "\<exists>r t' ids. commit_callback (\<lambda>cs. cs) (\<lambda>gone db. (Inr (), db @ gone)) 3 ex_ordered_cert (wli_signed_ledger_info ex_ordered_cert)
       (Some 1) (ex_tree, []) = Some (r, t', ids) \<and>
     set ids = descendants ex_tree 1 - descendants ex_tree 3 \<and> tree_window_root_id t' = 3"
proof -
  have "3 \<in> descendants ex_tree (tree_window_root_id ex_tree)"
    using descendants_child [OF descendants_child [OF descendants_refl ex_tree_facts(3)] ex_tree_facts(4)] by simp
  from commit_prunes_other_branches [OF ex_tree_reachable [of "\<lambda>gone db. (Inr (), db @ gone)"] _ ex_tree_facts(2) this
      ex_tree_facts(1,7), of "[]"]
  show ?thesis by (auto simp: iter_ok_def)
qed

text \<open>C17. The search for the path from a root to a block ends for every block. It finds the path, each
  block the parent of the next one, exactly when the block is below the root.\<close>

theorem path_from_root_exact:
  assumes "reachable_tree par iter prune t" "iter_ok iter" "tree_get_block t r = Some root"
  shows "\<exists>result. path_from_root_to_block t x r (b_round root) = Some result \<and>
    (case result of
       None \<Rightarrow> x \<notin> descendants t r
     | Some bs \<Rightarrow> x \<in> descendants t r \<and> r # map b_id bs = map b_parent_id bs @ [x] \<and>
         map (tree_get_block t) (map b_id bs) = map Some bs)"
proof -
  have links: "links_wf t" using reachable_tree_wf [OF assms(1,2)] by (simp add: tree_wf_def)
  have r: "block_exists t r" "round_of t r = unat (b_round root)"
    using assms(3) by (auto simp: block_exists_def tree_get_block_def round_of_def)
  from path_loop_correct [OF links, of "b_round root" x "[]"] show ?thesis
  proof (elim disjE exE conjE)
    assume "path_loop t (b_round root) x [] = Some None"
      "\<forall>y. block_exists t y \<longrightarrow> x \<notin> descendants t y \<or> unat (b_round root) < round_of t y"
    then show ?thesis using r by (auto simp: path_from_root_to_block_def)
  next
    fix c bs assume loop: "path_loop t (b_round root) x [] = Some (Some (c, [] @ bs))"
      and c: "round_of t c \<le> unat (b_round root)" "x \<in> descendants t c"
        "\<forall>y. x \<in> descendants t y \<longrightarrow> round_of t y \<le> unat (b_round root) \<longrightarrow> c \<in> descendants t y"
      and bs: "map (tree_get_block t) (map b_id bs) = map Some bs" "map b_id bs @ [c] = x # map b_parent_id bs"
    have "c = r" if "x \<in> descendants t r" using c(1,3) that r(2) descendants_round [OF links, of c r] by force
    moreover have "c # map b_id (rev bs) = map b_parent_id (rev bs) @ [x]"
      using arg_cong [OF bs(2), of rev] by (simp add: rev_map)
    ultimately show ?thesis using loop c(2) bs(1) by (auto simp: path_from_root_to_block_def rev_map [symmetric])
  qed
qed

theorem path_from_root_exact_witness:
  "\<exists>bs. path_from_root_to_block ex_tree 3 1 0 = Some (Some bs) \<and> 1 # map b_id bs = map b_parent_id bs @ [3]"
proof -
  have "3 \<in> descendants ex_tree 1"
    using descendants_child [OF descendants_child [OF descendants_refl ex_tree_facts(3)] ex_tree_facts(4)] .
  then show ?thesis
    using path_from_root_exact [OF ex_tree_reachable [of "\<lambda>_ db :: unit. (Inr (), db)"] _ ex_tree_facts(5), of 3]
    by (auto simp: iter_ok_def ex_root_def split: option.splits)
qed

text \<open>C18. The window of recent blocks before a block is computed without overflow, and the walk to its
  start ends. It fails only if the parent of an ancestor inside the window is not in the tree. Otherwise it
  returns the ancestors of the block in ascending order of their rounds, back to the first one whose parent
  lies before the window; there are fewer of them than the window is long, so that the final length check
  never fails.\<close>

theorem block_window_bounded:
  assumes "reachable_tree par iter prune t" "iter_ok iter" "extends_tree t b"
    and "commit_root t = Inr root" "b_round root \<le> b_round b" "0 < len" "unat (b_round b) + 1 < 2 ^ 64"
  shows "(get_ordered_block_window t b (Some len) = Some (Inl (Msg ''Parent block not found'')) \<and>
     (\<exists>ps. ancestor_chain t b ps \<and> \<not> window_end (word_of_nat (unat (b_round b) + 1 - unat len)) (last (b # ps)) \<and>
        \<not> block_exists t (b_parent_id (last (b # ps))))) \<or>
    (\<exists>window. get_ordered_block_window t b (Some len) = Some (Inr window) \<and> length window < unat len \<and>
       ancestor_chain t b (rev window) \<and> sorted_wrt (\<lambda>x y. b_round x < b_round y) (window @ [b]) \<and>
       (\<forall>p \<in> set window. unat (b_round b) + 1 - unat len \<le> unat (b_round p)) \<and>
       window_end (word_of_nat (unat (b_round b) + 1 - unat len)) (hd (window @ [b])))"
proof -
  have links: "links_wf t" using reachable_tree_wf [OF assms(1,2)] by (simp add: tree_wf_def)
  let ?r = "b_round b"
  obtain s where s: "calculate_window_start_round ?r len = Inr s" "unat s = unat ?r + 1 - unat len" "s \<le> ?r"
    "s = word_of_nat (unat ?r + 1 - unat len)"
    using window_start [OF assms(6,7)] .
  note size = window_length [OF s(3) assms(7)]
  have run: "get_ordered_block_window t b (Some len) =
      map_option (\<lambda>x. rbind x (\<lambda>window. rbind (ensure (length window < unat (?r - s + 1)) (Msg ''Condition failed'')) (\<lambda>_.
        Inr (rev window)))) (window_loop t s b [])"
    using assms(4,5) s(1) size by (simp add: get_ordered_block_window_def rbind_def ensure_def ok_or_def)
  from window_loop_correct [OF links assms(3), of s "[]"] show ?thesis
  proof (elim disjE exE conjE)
    fix ps assume loop: "window_loop t s b [] = Some (Inr ([] @ ps))" and chain: "ancestor_chain t b ps"
      and above: "\<forall>p \<in> set ps. s \<le> b_round p" and end_block: "window_end s (last (b # ps))"
    note rounds = chain_rounds [OF links assms(3) chain]
    have "length ps \<le> unat ?r - unat s" using decreasing_length [OF rounds above s(3)] .
    then have "length ps < unat (?r - s + 1)" "length ps < unat len"
      using size(3) s(2) assms(6) by (auto simp: word_less_nat_alt)
    moreover have "sorted_wrt (\<lambda>x y. b_round x < b_round y) (rev (b # ps))"
      using rounds unfolding sorted_wrt_rev .
    moreover have "hd (rev ps @ [b]) = last (b # ps)" by (cases ps) (simp_all add: hd_append hd_rev)
    moreover from calculation have "get_ordered_block_window t b (Some len) = Some (Inr (rev ps))"
      using run loop by (simp add: rbind_def ensure_def)
    ultimately show ?thesis unfolding s(4) [symmetric]
      using chain above end_block s(2) by (intro disjI2 exI [of _ "rev ps"]) (simp add: word_le_nat_alt)
  next
    fix ps assume "window_loop t s b [] = Some (Inl (Msg ''Parent block not found''))"
      and "ancestor_chain t b ps" "\<not> window_end s (last (b # ps))" "\<not> block_exists t (b_parent_id (last (b # ps)))"
    moreover from this have "get_ordered_block_window t b (Some len) = Some (Inl (Msg ''Parent block not found''))"
      using run by (simp add: rbind_def)
    ultimately show ?thesis unfolding s(4) [symmetric] by blast
  qed
qed

theorem block_window_bounded_witness:
  "\<exists>window. get_ordered_block_window ex_tree ex_block_3 (Some 2) = Some (Inr window) \<and> length window < 2 \<and>
     ancestor_chain ex_tree ex_block_3 (rev window)"
proof -
  have "window_loop ex_tree 1 ex_block_2 [ex_block_2] = Some (Inr [ex_block_2])" by (subst window_loop.simps) (simp add: ex_blocks)
  then have "window_loop ex_tree 1 ex_block_3 [] = Some (Inr [ex_block_2])"
    by (subst window_loop.simps) (simp add: ex_blocks tree_get_block_def)
  then have found: "get_ordered_block_window ex_tree ex_block_3 (Some 2) \<noteq> Some (Inl (Msg ''Parent block not found''))"
    using ex_tree_facts(1) by (simp add: get_ordered_block_window_def calculate_window_start_round_def
        checked_add_def checked_sub_def ex_blocks rbind_def ensure_def ok_or_def word_le_nat_alt)
  have "extends_tree ex_tree ex_block_3" by (simp add: extends_tree_def extends_def tree_get_block_def ex_blocks)
  from block_window_bounded [OF ex_tree_reachable [of "\<lambda>_ db :: unit. (Inr (), db)"] _ this ex_tree_facts(1), of 2] found
  show ?thesis by (auto simp: iter_ok_def ex_blocks)
qed

end
