(* ===== verification/Validator_Set.thy ===== *)
theory Validator_Set
  imports Validator_Verifier
begin

text \<open>
  The conversion of the validator set of the chain to a verifier
  (\<open>From<&ValidatorSet> for ValidatorVerifier\<close>): when it succeeds, and that what it gives is a
  well-formed verifier, which the properties of certificates, votes and quorums assume.
\<close>

section \<open>Sorting the validators by index\<close>

definition consensus_info_of :: "validator_info \<Rightarrow> validator_consensus_info" where
  "consensus_info_of info =
     \<lparr>vci_address = vi_account_address info, vci_public_key = vi_consensus_public_key info,
      vci_voting_power = vi_consensus_voting_power info\<rparr>"

lemma consensus_info_of_simps [simp]:
  "vci_address (consensus_info_of info) = vi_account_address info"
  "vci_public_key (consensus_info_of info) = vi_consensus_public_key info"
  "vci_voting_power (consensus_info_of info) = vi_consensus_voting_power info"
  by (simp_all add: consensus_info_of_def)

definition sorted_infos :: "validator_info list \<Rightarrow> (u64, validator_consensus_info) btree_map" where
  "sorted_infos infos = fold (\<lambda>info. btree_insert (vi_validator_index info) (consensus_info_of info)) infos []"

abbreviation index_nat :: "validator_info \<Rightarrow> nat" where
  "index_nat info \<equiv> unat (vi_validator_index info)"

definition indices_checked :: "validator_info list \<Rightarrow> bool" where
  "indices_checked infos \<longleftrightarrow>
     (\<forall>info \<in> set infos. index_nat info < length (sorted_infos infos) \<and>
        vci_address (map snd (sorted_infos infos) ! index_nat info) = vi_account_address info)"

lemma verifier_from_validator_set_eq:
  "verifier_from_validator_set vs =
     (if indices_checked (validator_set_payload vs)
      then validator_verifier_new (map snd (sorted_infos (validator_set_payload vs))) else None)"
  by (simp only: verifier_from_validator_set_def indices_checked_def sorted_infos_def consensus_info_of_def list_all_iff
      Let_def length_map)

lemma sorted_infos_snoc:
  "sorted_infos (infos @ [info]) = btree_insert (vi_validator_index info) (consensus_info_of info) (sorted_infos infos)"
  by (simp add: sorted_infos_def)

lemma sorted_infos_wf: "btree_wf (sorted_infos infos)"
  by (induction infos rule: rev_induct) (simp_all add: sorted_infos_snoc btree_wf_insert, simp add: sorted_infos_def)

lemma sorted_infos_keys: "fst ` set (sorted_infos infos) = vi_validator_index ` set infos"
  by (induction infos rule: rev_induct) (simp_all add: sorted_infos_snoc btree_keys_insert, simp add: sorted_infos_def)

lemma sorted_infos_get:
  "inj_on vi_validator_index (set infos) \<Longrightarrow> info \<in> set infos \<Longrightarrow>
     btree_get (sorted_infos infos) (vi_validator_index info) = Some (consensus_info_of info)"
proof (induction infos rule: rev_induct)
  case (snoc x infos)
  then show ?case by (cases "info = x") (auto simp: sorted_infos_snoc btree_get_insert inj_on_def)
qed simp

lemma length_sorted_infos: "length (sorted_infos infos) = card (index_nat ` set infos)"
proof -
  have "length (sorted_infos infos) = card (fst ` set (sorted_infos infos))"
    using distinct_card [OF btree_wf_distinct [OF sorted_infos_wf [of infos]]] by simp
  also have "\<dots> = card (unat ` vi_validator_index ` set infos)"
    unfolding sorted_infos_keys by (rule card_image [symmetric]) (auto intro!: inj_onI unsigned_word_eqI)
  finally show ?thesis by (simp add: image_image)
qed

text \<open>If the indices are the positions, every validator is at its index.\<close>

lemma sorted_infos_positions:
  assumes "index_nat ` set infos = {..<length infos}"
  shows "map (unat \<circ> fst) (sorted_infos infos) = [0..<length infos]"
proof (rule sorted_distinct_set_unique)
  have "sorted_wrt (<) (map (unat \<circ> fst) (sorted_infos infos))"
    using sorted_infos_wf [of infos] by (simp add: btree_wf_def sorted_wrt_map word_less_nat_alt)
  then show "sorted (map (unat \<circ> fst) (sorted_infos infos))" "distinct (map (unat \<circ> fst) (sorted_infos infos))"
    by (simp_all add: strict_sorted_iff)
  have "set (map (unat \<circ> fst) (sorted_infos infos)) = unat ` fst ` set (sorted_infos infos)" by (simp add: image_comp)
  then show "set (map (unat \<circ> fst) (sorted_infos infos)) = set [0..<length infos]"
    using assms by (simp add: sorted_infos_keys image_image atLeast0LessThan)
qed simp_all

lemma indices_inj:
  assumes "index_nat ` set infos = {..<length infos}"
  shows "inj_on vi_validator_index (set infos)"
proof -
  have "card (index_nat ` set infos) = length infos" using assms by simp
  then have "inj_on index_nat (set infos)"
    by (metis List.finite_set card_length card_image_le eq_card_imp_inj_on le_antisym)
  then show ?thesis by (auto simp: inj_on_def)
qed

lemma sorted_infos_nth:
  assumes "index_nat ` set infos = {..<length infos}" "info \<in> set infos"
  shows "map snd (sorted_infos infos) ! index_nat info = consensus_info_of info"
proof -
  have "(vi_validator_index info, consensus_info_of info) \<in> set (sorted_infos infos)"
    using sorted_infos_get [OF indices_inj [OF assms(1)] assms(2)]
    by (simp add: btree_get_eq_Some_iff [OF sorted_infos_wf])
  then obtain j where j: "j < length (sorted_infos infos)"
    "sorted_infos infos ! j = (vi_validator_index info, consensus_info_of info)"
    by (auto simp: in_set_conv_nth)
  have "length (sorted_infos infos) = length infos"
    using arg_cong [OF sorted_infos_positions [OF assms(1)], of length] by simp
  then have "map (unat \<circ> fst) (sorted_infos infos) ! j = j" using j(1) by (simp only: sorted_infos_positions [OF assms(1)]) simp
  then show ?thesis using j by simp
qed

section \<open>The sums\<close>

lemma sum_voting_power_infos_total:
  assumes "length infos < 2 ^ 16"
  shows "\<exists>t. sum_voting_power_infos infos = Some t"
proof -
  let ?add = "\<lambda>x sum. Option.bind sum (\<lambda>s :: u128. checked_add s (ucast (vci_voting_power x)))"
  have total: "unat acc + length xs * 2 ^ 64 < 2 ^ 128 \<Longrightarrow> \<exists>t. fold ?add xs (Some acc) = Some t" for xs acc
  proof (induction xs arbitrary: acc)
    case (Cons x xs)
    let ?p = "ucast (vci_voting_power x) :: u128"
    have p: "unat ?p < 2 ^ 64" unfolding unat_ucast_u64 using unsigned_less [of "vci_voting_power x"] by simp
    have room: "unat acc + 2 ^ 64 + length xs * 2 ^ 64 < 2 ^ 128" using Cons.prems by simp
    have "unat acc + unat ?p < 2 ^ LENGTH(128)" using room p by simp
    then have s: "checked_add acc ?p = Some (acc + ?p)" by (simp add: checked_add_Some_iff)
    have "unat (acc + ?p) + length xs * 2 ^ 64 < 2 ^ 128" using room p checked_add_Some_unat [OF s] by linarith
    from Cons.IH [OF this] show ?case by (simp only: fold_simps comp_apply bind.bind_lunit s)
  qed simp
  have "unat (0 :: u128) + length infos * 2 ^ 64 < 2 ^ 128" using assms by simp
  from total [OF this] show ?thesis unfolding sum_voting_power_infos_def .
qed

lemma validator_verifier_new_total:
  assumes "infos \<noteq> []" "length infos < 2 ^ 16" "distinct (map vci_address infos)"
  shows "\<exists>vv. validator_verifier_new infos = Some vv \<and> validator_infos vv = infos \<and> verifier_wf vv"
proof -
  obtain t where t: "sum_voting_power_infos infos = Some t" using sum_voting_power_infos_total [OF assms(2)] by blast
  have "unat p < 2 ^ 64" for p :: u64 using unsigned_less [of p] by simp
  then have "sum_list (map (unat \<circ> vci_voting_power) infos) \<le> sum_list (map (\<lambda>_. 2 ^ 64) infos)"
    by (intro sum_list_mono) (simp add: less_imp_le)
  then have "unat t \<le> 2 ^ 80" using sum_voting_power_infos_Some [OF t] assms(2) by (simp add: sum_list_triv)
  then obtain d where d: "checked_mul t 2 = Some d" by (simp add: checked_mul_def)
  have "unat (d div 3) \<le> 2 ^ 81" using checked_mul_Some_unat [OF d] \<open>unat t \<le> 2 ^ 80\<close> by (simp add: unat_div)
  then obtain q where "checked_add (d div 3) 1 = Some q" by (simp add: checked_add_def)
  then have "validator_verifier_new infos = Some (build_index infos q t)"
    using assms(1) t d by (simp add: validator_verifier_new_def)
  then show ?thesis using assms by (simp add: verifier_wf_def build_index_def)
qed

section \<open>The conversion\<close>

text \<open>The assertions on the indices hold exactly if the indices are the positions.\<close>

lemma indices_checked_iff:
  assumes "distinct (map vi_account_address infos)"
  shows "indices_checked infos \<longleftrightarrow> index_nat ` set infos = {..<length infos}" (is "_ \<longleftrightarrow> ?positions")
proof
  assume checked: "indices_checked infos"
  then have same: "vi_account_address x = vi_account_address y" if "x \<in> set infos" "y \<in> set infos" "index_nat x = index_nat y" for x y
    using that unfolding indices_checked_def by metis
  have inj: "inj_on vi_account_address (set infos)" using assms by (simp add: distinct_map)
  have "inj_on index_nat (set infos)" by (rule inj_onI) (rule inj_onD [OF inj same])
  then have n: "length (sorted_infos infos) = length infos"
    using assms by (simp add: length_sorted_infos card_image distinct_card distinct_map)
  show ?positions
    by (rule card_subset_eq) (use checked n length_sorted_infos [of infos] in \<open>auto simp: indices_checked_def\<close>)
next
  assume positions: ?positions
  then have "length (sorted_infos infos) = length infos" by (simp add: length_sorted_infos)
  then show "indices_checked infos" using positions sorted_infos_nth [OF positions] by (auto simp: indices_checked_def)
qed

lemma sorted_infos_addresses:
  assumes "distinct (map vi_account_address infos)" "index_nat ` set infos = {..<length infos}"
  shows "distinct (map vci_address (map snd (sorted_infos infos)))"
proof (rule card_distinct)
  have n: "length (sorted_infos infos) = length infos" using assms(2) by (simp add: length_sorted_infos)
  have "vi_account_address ` set infos \<subseteq> set (map vci_address (map snd (sorted_infos infos)))"
  proof
    fix a assume "a \<in> vi_account_address ` set infos"
    then obtain info where info: "info \<in> set infos" "a = vi_account_address info" by blast
    then have "index_nat info < length (map vci_address (map snd (sorted_infos infos)))" using assms(2) n by auto
    moreover have "map vci_address (map snd (sorted_infos infos)) ! index_nat info = a"
      using sorted_infos_nth [OF assms(2) info(1)] calculation info(2) by simp
    ultimately show "a \<in> set (map vci_address (map snd (sorted_infos infos)))" by (metis nth_mem)
  qed
  then have "card (vi_account_address ` set infos) \<le> card (set (map vci_address (map snd (sorted_infos infos))))"
    by (intro card_mono) simp_all
  moreover have "card (vi_account_address ` set infos) = length infos"
    using distinct_card [OF assms(1)] by simp
  ultimately show "card (set (map vci_address (map snd (sorted_infos infos)))) = length (map vci_address (map snd (sorted_infos infos)))"
    using card_length [of "map vci_address (map snd (sorted_infos infos))"] n by simp
qed

section \<open>A concrete validator set\<close>

definition ex_validator :: "account_address \<Rightarrow> u64 \<Rightarrow> u64 \<Rightarrow> validator_info" where
  "ex_validator a p i =
     \<lparr>vi_account_address = a, vi_consensus_voting_power = p, vi_consensus_public_key = [], vi_validator_index = i\<rparr>"

definition ex_validator_set :: validator_set where
  "ex_validator_set =
     \<lparr>active_validators = [ex_validator 7 20 1], pending_inactive = [ex_validator 8 10 0], pending_active = [],
      vs_total_voting_power = 30, vs_total_joining_power = 0\<rparr>"

section \<open>Properties\<close>

text \<open>C19. A validator set with distinct addresses, not empty and of a size that fits the signer masks, is
  converted to a verifier without a panic exactly if its indices are the positions \<open>0, 1, ...\<close> in some
  order. The verifier is then well formed, no sum of voting powers having overflowed, and gives every
  validator the index, the public key and the voting power of the validator set.\<close>

theorem validator_set_gives_verifier:
  fixes vs :: validator_set
  defines "infos \<equiv> validator_set_payload vs"
  assumes "infos \<noteq> []" "length infos < 2 ^ 16" "distinct (map vi_account_address infos)"
  shows "if index_nat ` set infos = {..<length infos}
    then \<exists>vv. verifier_from_validator_set vs = Some vv \<and> verifier_wf vv \<and> verifier_len vv = length infos \<and>
      (\<forall>info \<in> set infos.
         address_to_validator_index vv (vi_account_address info) = Some (index_nat info) \<and>
         get_public_key vv (vi_account_address info) = Some (vi_consensus_public_key info) \<and>
         get_voting_power vv (vi_account_address info) = Some (vi_consensus_voting_power info))
    else verifier_from_validator_set vs = None"
proof (cases "index_nat ` set infos = {..<length infos}")
  case True
  let ?infos = "map snd (sorted_infos infos)"
  have n: "length ?infos = length infos" using True by (simp add: length_sorted_infos)
  then have "?infos \<noteq> []" "length ?infos < 2 ^ 16" using assms(2,3) by auto
  from validator_verifier_new_total [OF this sorted_infos_addresses [OF assms(4) True]]
  obtain vv where vv: "validator_verifier_new ?infos = Some vv" "validator_infos vv = ?infos" "verifier_wf vv" by blast
  have index: "address_to_validator_index vv (vi_account_address info) = Some (index_nat info)" if "info \<in> set infos" for info
    using True n that sorted_infos_nth [OF True that] unfolding verifier_index [OF vv(3)] vv(2) by auto
  have "verifier_from_validator_set vs = Some vv"
    using indices_checked_iff [OF assms(4)] True vv(1) by (simp add: verifier_from_validator_set_eq infos_def)
  moreover have "get_public_key vv (vi_account_address info) = Some (vi_consensus_public_key info)"
    "get_voting_power vv (vi_account_address info) = Some (vi_consensus_voting_power info)" if "info \<in> set infos" for info
    using index [OF that] sorted_infos_nth [OF True that] vv(2) by (simp_all add: get_public_key_def get_voting_power_def)
  moreover have "verifier_len vv = length infos" using vv(2) n by (simp add: verifier_len_def)
  ultimately show ?thesis unfolding if_P [OF True] using vv(3) index by blast
next
  case False
  then show ?thesis
    using indices_checked_iff [OF assms(4)] by (simp add: verifier_from_validator_set_eq infos_def)
qed

theorem validator_set_gives_verifier_witness:
  "\<exists>vv. verifier_from_validator_set ex_validator_set = Some vv \<and> verifier_wf vv \<and>
     address_to_validator_index vv 7 = Some 1 \<and> get_voting_power vv 7 = Some 20 \<and>
     address_to_validator_index vv 8 = Some 0 \<and> get_voting_power vv 8 = Some 10"
proof -
  have payload: "validator_set_payload ex_validator_set = [ex_validator 7 20 1, ex_validator 8 10 0]"
    by (simp add: validator_set_payload_def ex_validator_set_def)
  have positions: "index_nat ` set (validator_set_payload ex_validator_set) = {..<length (validator_set_payload ex_validator_set)}"
    by (auto simp: payload ex_validator_def)
  have "validator_set_payload ex_validator_set \<noteq> []" "length (validator_set_payload ex_validator_set) < 2 ^ 16"
    "distinct (map vi_account_address (validator_set_payload ex_validator_set))"
    by (simp_all add: payload ex_validator_def)
  from validator_set_gives_verifier [OF this, unfolded if_P [OF positions]]
  obtain vv where vv: "verifier_from_validator_set ex_validator_set = Some vv" "verifier_wf vv"
    "\<forall>info \<in> set (validator_set_payload ex_validator_set).
       address_to_validator_index vv (vi_account_address info) = Some (index_nat info) \<and>
       get_voting_power vv (vi_account_address info) = Some (vi_consensus_voting_power info)" by blast
  from vv(3) have "address_to_validator_index vv 7 = Some 1 \<and> get_voting_power vv 7 = Some 20 \<and>
      address_to_validator_index vv 8 = Some 0 \<and> get_voting_power vv 8 = Some 10"
    unfolding payload by (simp add: ex_validator_def)
  then show ?thesis using vv(1,2) by blast
qed

end
