(* ===== verification/Spec2Isabelle.thy ===== *)
theory Spec2Isabelle
  imports Consensus_Safety Round_State Block_Tree Validator_Set
begin

text \<open>
  A verification development for the consensus core of Aptos. It models what decides whether the
  validators of the chain agree: which messages a validator signs and what it remembers of them, how
  signatures become certificates, how a validator moves from round to round and which blocks it
  keeps, and how a client follows the validator sets. Paths are relative to \<open>src/\<close>; \<open>ct/\<close> stands
  for \<open>consensus/consensus-types/src/\<close>.

  \<^bold>\<open>The parts and how they interact.\<close> A validator set with voting powers signs messages with BLS
  signatures, which are aggregated under a bit mask of the signers. A proposal is a block with a quorum
  certificate for its parent. Each validator asks its safety rules for a vote; the safety rules check
  the proposal, store what they are about to sign, and sign. Votes, timeouts and order votes are
  collected into quorum, timeout and order certificates. Certificates move the round state to the next
  round and the block tree to the next commit. A commit at the end of an epoch names the next validator
  set; clients and restarted validators follow these changes from a waypoint.

  \<^bold>\<open>Conventions.\<close> A struct is a record, an enum a datatype, a method a function of its receiver that
  returns the result and the receiver after the call. Machine integers are words of their width. The
  release profile checks overflow, so \<open>+\<close> and \<open>-\<close> are checked operations whose failure is a
  panic; panics are the value \<open>None\<close> or one of the errors \<open>Panicked\<close>, \<open>VerifyPanic\<close> and
  \<open>SafetyRulesPanic\<close>, which are passed on to the caller. \<open>Result\<close> is a sum, \<open>?\<close> and \<open>ensure!\<close> are \<open>rbind\<close> and \<open>ensure\<close>, and a method that changes its receiver
  and may fail half way is a \<open>method_result\<close>, so that what an early return leaves behind is part of the
  model. A \<open>BTreeMap\<close> is a list sorted by key; a \<open>HashMap\<close> is a map, or a list of entries where the
  source iterates over it, the order of the iteration then being a parameter. Cryptography that is not
  in the sources (the BLS curve, the hash functions) is a record of functions, and the theorems name what
  they assume of it: completeness of signing for the ones that promise a certificate, and that signatures
  are not forged and block ids do not collide for the safety of consensus.

  \<^bold>\<open>The theories.\<close>

  \<^item> \<open>Prelude\<close>: words, checked arithmetic, the result and state monads, ordered maps, and the collections
    \<open>result_simps\<close> and \<open>btree_simps\<close>.
  \<^item> \<open>Bitvec\<close> (\<open>crates/aptos-bitvec/src/lib.rs\<close>): every operation of \<open>BitVec\<close>; round trips with
    vectors of booleans and bytes, and what the counting operations return. The locale \<open>position_set\<close> is
    what the verifier relies on.
  \<^item> \<open>Validator_Verifier\<close> and \<open>Validator_Set\<close> (\<open>types/src/validator_verifier.rs\<close>,
    \<open>aggregate_signature.rs\<close>, \<open>lazy_bls.rs\<close>, \<open>on_chain_config/validator_set.rs\<close>,
    \<open>validator_info.rs\<close>): voting power, verification and aggregation of signatures, and the conversion of
    the on-chain validator set. Two quorums share an honest member (locale \<open>quorum_system\<close>);
    \<open>check_voting_power\<close> decides quorums; aggregates of a quorum verify; the conversion gives a verifier
    with the invariant \<open>verifier_wf\<close> that all of this assumes.
  \<^item> \<open>Signature_Aggregator\<close>, \<open>Ledger_Info\<close> (\<open>types/src/ledger_info.rs\<close>, \<open>block_info.rs\<close>,
    \<open>epoch_state.rs\<close>, \<open>validator_signer.rs\<close>): ledger infos and the collection of signatures, verified
    one by one or optimistically in the aggregate. Only certificates that verify are formed, a quorum of
    valid signatures forms one whatever invalid ones were collected, and a voter is moved to the set that is
    verified eagerly only for a signature that does not hold.
  \<^item> \<open>Quorum_Cert\<close>, \<open>Timeouts\<close>, \<open>Votes\<close> (\<open>ct/quorum_cert.rs\<close>, \<open>vote_data.rs\<close>,
    \<open>wrapped_ledger_info.rs\<close>, \<open>timeout_2chain.rs\<close>, \<open>vote.rs\<close>, \<open>order_vote.rs\<close>,
    \<open>round_timeout.rs\<close>, \<open>sync_info.rs\<close>, \<open>vote_msg.rs\<close>, \<open>order_vote_msg.rs\<close>): the messages of the
    protocol, their construction and every check of their verification.
  \<^item> \<open>Payload\<close> (\<open>ct/payload.rs\<close>, \<open>common.rs\<close>, \<open>proof_of_store.rs\<close>): payloads, execution limits,
    batches and proofs of store. Verification with the cache of verified proofs is equivalent to
    verification without it. The locale \<open>batch_info_contract\<close> is the trait of the two batch formats.
  \<^item> \<open>Accumulator\<close> (\<open>types/src/proof/accumulator/mod.rs\<close>, \<open>proof/definition.rs\<close>): the accumulator that
    keeps the roots of its full subtrees refines the Merkle tree over all leaves, up to \<open>2 ^ 64\<close> leaves.
  \<^item> \<open>Blocks\<close> (\<open>ct/block.rs\<close>, \<open>block_data.rs\<close>, \<open>opt_block_data.rs\<close>, \<open>proposal_ext.rs\<close>,
    \<open>proposal_msg.rs\<close>, \<open>opt_proposal_msg.rs\<close>, \<open>vote_proposal.rs\<close>, \<open>order_vote_proposal.rs\<close>,
    \<open>types/src/block_metadata.rs\<close>): blocks, proposals and what a vote is computed from.
  \<^item> \<open>Epoch_Change\<close> (\<open>types/src/waypoint.rs\<close>, \<open>epoch_change.rs\<close>, \<open>state_proof.rs\<close>,
    \<open>trusted_state.rs\<close>): a client that ratchets its trusted state ends only at ledger infos that a chain
    of validator sets vouches for, and never goes back to an older version. The locale
    \<open>ledger_verifier\<close> is the trait \<open>Verifier\<close>, interpreted for its three implementations.
  \<^item> \<open>Secure_Storage\<close>, \<open>Safety_Storage\<close> (\<open>secure/storage/src\<close>,
    \<open>consensus/safety-rules/src/persistent_safety_storage.rs\<close>, \<open>safety_rules_manager.rs\<close>,
    \<open>ct/safety_data.rs\<close>): the key-value storages with the faults of each write to disk, and the safety
    data in them with its cache. What was written is what a restarted process reads, a failed write
    changes nothing, and reopening a storage keeps the safety data, except with a test configuration; two
    theorems show that initialization overwrites what was there and ignores a failed write of the key.
    The locale \<open>kv_store\<close> is the trait \<open>KVStorage\<close>.
  \<^item> \<open>Safety_Rules\<close> (\<open>consensus/safety-rules/src/safety_rules.rs\<close>, \<open>safety_rules_2chain.rs\<close>,
    \<open>consensus_state.rs\<close>, \<open>serializer.rs\<close>): every request of \<open>TSafetyRules\<close>, in the order of the
    checks, writes and signatures of the code.
  \<^item> \<open>Signing_History\<close>: runs of this service over any sequence of requests, write faults and restarts,
    as histories of signed messages. No two votes in a round, timeouts that cover earlier votes, safety
    data that never goes back, votes that are stored before they are released.
  \<^item> \<open>Consensus_Safety\<close>: many validators with such histories, up to a third of the voting power faulty.
    Any two ledger infos signed by a quorum commit blocks of one chain. This holds with and without
    \<open>skip_sig_verify\<close>, for requests that passed the checks which the safety rules leave to their callers
    (\<open>caller_checks\<close>): the epoch of a timeout certificate, which the verification of a sync info
    checks; the round, epoch and consensus data hash of a commit vote; and, with
    \<open>skip_sig_verify\<close>, the verification of the certificates.
  \<^item> \<open>Pending_Votes\<close>, \<open>Timeout_Reasons\<close> (\<open>consensus/src/pending_votes.rs\<close>,
    \<open>pending_order_votes.rs\<close>): the collection of votes, timeouts and order votes. Certificates that are
    formed verify, quorums are certified, and the aggregated reason of a timeout is one that was reported
    by more than the faulty; one theorem shows how a second timeout of one validator spoils a certificate.
  \<^item> \<open>Round_State\<close> (\<open>consensus/src/liveness/round_state.rs\<close>): rounds increase, timers, votes and timeouts
    kept are those of the current round, and no event makes it panic, neither in its arithmetic nor in the
    collection of votes and timeouts.
  \<^item> \<open>Block_Tree\<close> (\<open>consensus/src/block_storage/block_tree.rs\<close>): the links of the tree stay consistent, a
    commit prunes exactly the branches that are not below the new root, and the walks to a root and over
    a window end and return the chain they should.

  \<^bold>\<open>Loops and bounds.\<close> Loops over vectors and words are structural or have a termination proof. The
  loops that follow parent links (\<open>window_loop\<close>, \<open>path_loop\<close>) and the stack of blocks to prune
  (\<open>prune_loop\<close>) may run forever on an arbitrary tree; they are partial functions whose value \<open>None\<close> is
  that they do not end, and the theorems about them state that they return. There is no fuel. Bounds that
  appear as hypotheses are those of the code's types: fewer than \<open>2 ^ 16\<close> validators, because of the
  16 bit positions of the signer mask, and rounds whose successors fit 64 bits.

  \<^bold>\<open>Not modelled.\<close> The Vault backend of the secure storage and its cryptographic storage (calls to a
  service). The byte encodings (BCS, JSON): what is stored or hashed is the value itself, and a stored
  document is read back at the type it was written at. A restart reopens the storage with its contents;
  that a process which uses the in-memory storage loses them is not modelled. The round
  manager, the block store around the tree, the proposal generator and leader election, quorum store and
  mempool (asynchronous tasks and channels; their synchronous cores are the parts above). The execution
  pipeline that a block carries, which pruning aborts. The lengths of rounds, computed with floating point
  numbers, are a parameter of the round state. Batches that are verified in parallel are taken in order.
  Logging, metrics, the network, the execution and storage engines, the Move language, the API and the
  tools are outside the consensus core.
\<close>

end
